(* ===== verification/Prelude.thy ===== *)
theory Prelude
  imports Main
begin

text \<open>
  Shared vocabulary of the development. A Go function that may fail and that changes shared
  state is a state transformer returning a sum: \<^term>\<open>Inl e\<close> is a non-nil \<^verbatim>\<open>error\<close>, \<^term>\<open>Inr a\<close> a
  result. Sequencing with the idiom \<^verbatim>\<open>if err != nil { return err }\<close> is \<open>bindE\<close>; looking at
  an error before deciding what to return is \<open>tryE\<close>. Both come with two sets of rules: \<open>wp\<close>
  computes, from a postcondition on result and state, the condition on the start state, and the
  rules of \<open>success\<close> invert a run that returned a value. Go's integer conversions are written
  out as two's complement on \<^typ>\<open>int\<close>, and SQL tables are lists of rows with the usual
  operations.
\<close>

named_theorems success \<open>inversion of runs that return a value\<close>
named_theorems wps \<open>weakest preconditions of the operations\<close>
named_theorems fine \<open>evaluation of runs without transport faults\<close>
named_theorems keeps_intro \<open>operations that keep a predicate of the state\<close>

section \<open>Fallible state transformers\<close>

type_synonym ('w, 'e, 'a) sem = "'w \<Rightarrow> ('e + 'a) \<times> 'w"

definition ret :: "'a \<Rightarrow> ('w, 'e, 'a) sem" where
  "ret a = (\<lambda>w. (Inr a, w))"

definition throw :: "'e \<Rightarrow> ('w, 'e, 'a) sem" where
  "throw e = (\<lambda>w. (Inl e, w))"

definition bindE :: "('w, 'e, 'a) sem \<Rightarrow> ('a \<Rightarrow> ('w, 'e, 'b) sem) \<Rightarrow> ('w, 'e, 'b) sem" where
  "bindE m f = (\<lambda>w. case m w of (Inl e, w') \<Rightarrow> (Inl e, w') | (Inr a, w') \<Rightarrow> f a w')"

definition tryE :: "('w, 'e, 'a) sem \<Rightarrow> ('e + 'a \<Rightarrow> ('w, 'e, 'b) sem) \<Rightarrow> ('w, 'e, 'b) sem" where
  "tryE m k = (\<lambda>w. case m w of (r, w') \<Rightarrow> k r w')"

definition mapErr :: "('e \<Rightarrow> 'e) \<Rightarrow> ('w, 'e, 'a) sem \<Rightarrow> ('w, 'e, 'a) sem" where
  "mapErr h m = tryE m (\<lambda>r. case r of Inl e \<Rightarrow> throw (h e) | Inr a \<Rightarrow> ret a)"

fun forE :: "'x list \<Rightarrow> ('x \<Rightarrow> ('w, 'e, unit) sem) \<Rightarrow> ('w, 'e, unit) sem" where
  "forE [] body = ret ()"
| "forE (x # xs) body = bindE (body x) (\<lambda>_. forE xs body)"

definition wp :: "('w, 'e, 'a) sem \<Rightarrow> ('e + 'a \<Rightarrow> 'w \<Rightarrow> bool) \<Rightarrow> 'w \<Rightarrow> bool" where
  "wp m Q w \<longleftrightarrow> (case m w of (r, w') \<Rightarrow> Q r w')"

definition keeps :: "('w \<Rightarrow> bool) \<Rightarrow> ('w, 'e, 'a) sem \<Rightarrow> bool" where
  "keeps I m \<longleftrightarrow> (\<forall>w. I w \<longrightarrow> I (snd (m w)))"

section \<open>Go integer conversions\<close>

definition wrap_int :: "nat \<Rightarrow> int \<Rightarrow> int" where
  "wrap_int n x = (x + 2 ^ n) mod 2 ^ (Suc n) - 2 ^ n"

abbreviation int32 :: "int \<Rightarrow> int" where
  "int32 \<equiv> wrap_int 31"

abbreviation int16 :: "int \<Rightarrow> int" where
  "int16 \<equiv> wrap_int 15"

section \<open>Nullable values\<close>

definition opt_ex :: "('a \<Rightarrow> bool) \<Rightarrow> 'a option \<Rightarrow> bool" where
  "opt_ex P x = (case x of None \<Rightarrow> False | Some a \<Rightarrow> P a)"

section \<open>Tables as lists of rows\<close>

definition upd_where :: "('r \<Rightarrow> bool) \<Rightarrow> ('r \<Rightarrow> 'r) \<Rightarrow> 'r list \<Rightarrow> 'r list" where
  "upd_where P f rs = map (\<lambda>r. if P r then f r else r) rs"

definition del_where :: "('r \<Rightarrow> bool) \<Rightarrow> 'r list \<Rightarrow> 'r list" where
  "del_where P rs = filter (\<lambda>r. \<not> P r) rs"

definition count_where :: "('r \<Rightarrow> bool) \<Rightarrow> 'r list \<Rightarrow> int" where
  "count_where P rs = int (length (filter P rs))"

section \<open>Rules\<close>

subsection \<open>Inversion of successful runs\<close>

lemma ret_iff [success]: "ret a w = (r, w') \<longleftrightarrow> r = Inr a \<and> w' = w"
  by (auto simp: ret_def)

lemma throw_iff [success]: "throw e w = (r, w') \<longleftrightarrow> r = Inl e \<and> w' = w"
  by (auto simp: throw_def)

lemma bindE_Inr [success]:
  "bindE m f w = (Inr b, w') \<longleftrightarrow> (\<exists>a w1. m w = (Inr a, w1) \<and> f a w1 = (Inr b, w'))"
  by (auto simp: bindE_def split: prod.splits sum.splits)

lemma tryE_eq [success]:
  "tryE m k w = (r, w') \<longleftrightarrow> (\<exists>r1 w1. m w = (r1, w1) \<and> k r1 w1 = (r, w'))"
  by (auto simp: tryE_def split: prod.splits)

lemma mapErr_Inr [success]: "mapErr h m w = (Inr a, w') \<longleftrightarrow> m w = (Inr a, w')"
  by (auto simp: mapErr_def tryE_def throw_def ret_def split: prod.splits sum.splits)

lemma bindE_Inl:
  "bindE m f w = (Inl e, w') \<longleftrightarrow>
     m w = (Inl e, w') \<or> (\<exists>a w1. m w = (Inr a, w1) \<and> f a w1 = (Inl e, w'))"
  by (auto simp: bindE_def split: prod.splits sum.splits)

subsection \<open>Weakest preconditions\<close>

lemma wp_ret [wps]: "wp (ret a) Q w \<longleftrightarrow> Q (Inr a) w"
  by (simp add: wp_def ret_def)

lemma wp_throw [wps]: "wp (throw e) Q w \<longleftrightarrow> Q (Inl e) w"
  by (simp add: wp_def throw_def)

lemma wp_bindE [wps]:
  "wp (bindE m f) Q w \<longleftrightarrow>
     wp m (\<lambda>r w'. case r of Inl e \<Rightarrow> Q (Inl e) w' | Inr a \<Rightarrow> wp (f a) Q w') w"
  by (auto simp: wp_def bindE_def split: prod.splits sum.splits)

lemma wp_tryE [wps]: "wp (tryE m k) Q w \<longleftrightarrow> wp m (\<lambda>r. wp (k r) Q) w"
  by (auto simp: wp_def tryE_def split: prod.splits)

lemma wp_mapErr [wps]:
  "wp (mapErr h m) Q w \<longleftrightarrow> wp m (\<lambda>r. case r of Inl e \<Rightarrow> Q (Inl (h e)) | Inr a \<Rightarrow> Q (Inr a)) w"
  by (auto simp: wp_def mapErr_def tryE_def throw_def ret_def split: prod.splits sum.splits)

lemma wp_if [wps]: "wp (if b then m else n) Q w \<longleftrightarrow> (if b then wp m Q w else wp n Q w)"
  by simp

lemma wpI: "(\<And>r w'. m w = (r, w') \<Longrightarrow> Q r w') \<Longrightarrow> wp m Q w"
  by (simp add: wp_def split: prod.splits)

lemma wpD: "wp m Q w \<Longrightarrow> m w = (r, w') \<Longrightarrow> Q r w'"
  by (simp add: wp_def)

lemma wp_mono: "wp m Q w \<Longrightarrow> (\<And>r w'. Q r w' \<Longrightarrow> R r w') \<Longrightarrow> wp m R w"
  by (auto simp: wp_def split: prod.splits)

lemma wp_conj: "wp m (\<lambda>r w'. Q r w' \<and> R r w') w \<longleftrightarrow> wp m Q w \<and> wp m R w"
  by (auto simp: wp_def split: prod.splits)

subsection \<open>Kept predicates\<close>

lemma keepsI: "(\<And>w. I w \<Longrightarrow> wp m (\<lambda>_. I) w) \<Longrightarrow> keeps I m"
  by (simp add: keeps_def wp_def split_beta)

lemma keepsD: "keeps I m \<Longrightarrow> I w \<Longrightarrow> m w = (r, w') \<Longrightarrow> I w'"
  by (metis keeps_def snd_conv)

lemma keeps_wp: "keeps I m \<longleftrightarrow> (\<forall>w. I w \<longrightarrow> wp m (\<lambda>_. I) w)"
  by (simp add: keeps_def wp_def split_beta)

lemma keeps_ret [keeps_intro]: "keeps I (ret a)"
  by (simp add: keeps_def ret_def)

lemma keeps_throw [keeps_intro]: "keeps I (throw e)"
  by (simp add: keeps_def throw_def)

lemma keeps_bindE [keeps_intro]:
  "keeps I m \<Longrightarrow> (\<And>a. keeps I (f a)) \<Longrightarrow> keeps I (bindE m f)"
  by (simp add: keeps_def bindE_def split_beta split: sum.split)

lemma keeps_tryE [keeps_intro]:
  "keeps I m \<Longrightarrow> (\<And>r. keeps I (k r)) \<Longrightarrow> keeps I (tryE m k)"
  by (simp add: keeps_def tryE_def split_beta)

lemma keeps_mapErr [keeps_intro]: "keeps I m \<Longrightarrow> keeps I (mapErr h m)"
  by (auto simp: mapErr_def intro!: keeps_tryE keeps_ret keeps_throw split: sum.split)

lemma keeps_if [keeps_intro]: "keeps I m \<Longrightarrow> keeps I n \<Longrightarrow> keeps I (if b then m else n)"
  by simp

lemma keeps_case_option [keeps_intro]:
  "keeps I m \<Longrightarrow> (\<And>a. keeps I (f a)) \<Longrightarrow> keeps I (case x of None \<Rightarrow> m | Some a \<Rightarrow> f a)"
  by (cases x) auto

lemma keeps_case_sum [keeps_intro]:
  "(\<And>a. keeps I (f a)) \<Longrightarrow> (\<And>b. keeps I (g b)) \<Longrightarrow>
     keeps I (case x of Inl a \<Rightarrow> f a | Inr b \<Rightarrow> g b)"
  by (cases x) auto

lemma keeps_case_prod [keeps_intro]:
  "(\<And>a b. keeps I (f a b)) \<Longrightarrow> keeps I (case x of (a, b) \<Rightarrow> f a b)"
  by (cases x) auto

lemma keeps_forE [keeps_intro]: "(\<And>x. keeps I (body x)) \<Longrightarrow> keeps I (forE xs body)"
  by (induction xs) (auto intro: keeps_intro)

subsection \<open>Go integers\<close>

lemma wrap_int_range: "- (2 ^ n) \<le> wrap_int n x \<and> wrap_int n x < 2 ^ n"
proof -
  have "0 \<le> (x + 2 ^ n) mod 2 ^ (Suc n)" "(x + 2 ^ n) mod 2 ^ (Suc n) < 2 ^ (Suc n)"
    by auto
  then show ?thesis by (auto simp: wrap_int_def)
qed

lemma wrap_int_id: "- (2 ^ n) \<le> x \<Longrightarrow> x < 2 ^ n \<Longrightarrow> wrap_int n x = x"
  by (simp add: wrap_int_def)

lemma wrap_int_period: "wrap_int n (x + k * 2 ^ (Suc n)) = wrap_int n x"
proof -
  have "(x + k * 2 ^ Suc n + 2 ^ n) mod 2 ^ Suc n = (x + 2 ^ n + k * 2 ^ Suc n) mod 2 ^ Suc n"
    by (simp add: algebra_simps)
  then show ?thesis by (simp only: wrap_int_def mod_mult_self1)
qed

lemma wrap_int_idem [simp]: "wrap_int n (wrap_int n x) = wrap_int n x"
  using wrap_int_range [of n x] by (simp add: wrap_int_id)

subsection \<open>Nullable values\<close>

lemma opt_ex_simps [simp]: "\<not> opt_ex P None" "opt_ex P (Some a) = P a"
  by (simp_all add: opt_ex_def)

lemma opt_ex_iff: "opt_ex P x \<longleftrightarrow> (\<exists>a. x = Some a \<and> P a)"
  by (cases x) auto

lemma map_sum_Inr: "map_sum f g r = Inr y \<longleftrightarrow> (\<exists>x. r = Inr x \<and> g x = y)"
  by (cases r) auto

subsection \<open>Tables\<close>

lemma set_upd_where [simp]: "set (upd_where P f rs) = (\<lambda>r. if P r then f r else r) ` set rs"
  by (simp add: upd_where_def)

lemma length_upd_where [simp]: "length (upd_where P f rs) = length rs"
  by (simp add: upd_where_def)

lemma map_upd_where: "(\<And>r. P r \<Longrightarrow> g (f r) = g r) \<Longrightarrow> map g (upd_where P f rs) = map g rs"
  by (simp add: upd_where_def)

lemma filter_upd_where_other:
  "(\<And>r. P r \<Longrightarrow> \<not> Q r \<and> \<not> Q (f r)) \<Longrightarrow> filter Q (upd_where P f rs) = filter Q rs"
  by (induction rs) (auto simp: upd_where_def)

lemma filter_upd_where_same:
  "(\<And>r. P r \<Longrightarrow> Q (f r) = Q r) \<Longrightarrow> filter Q (upd_where P f rs) = upd_where P f (filter Q rs)"
  by (induction rs) (auto simp: upd_where_def)

lemma set_del_where [simp]: "set (del_where P rs) = {r \<in> set rs. \<not> P r}"
  by (simp add: del_where_def)

lemma distinct_map_filterI: "distinct (map f xs) \<Longrightarrow> distinct (map f (filter P xs))"
  by (induction xs) auto

lemma distinct_map_del_where: "distinct (map f xs) \<Longrightarrow> distinct (map f (del_where P xs))"
  by (simp add: del_where_def distinct_map_filterI)

lemma count_where_nonneg [simp]: "0 \<le> count_where P rs"
  by (simp add: count_where_def)

lemma count_where_pos: "0 < count_where P rs \<longleftrightarrow> (\<exists>r \<in> set rs. P r)"
  by (auto simp: count_where_def filter_empty_conv)

lemma count_where_zero: "count_where P rs = 0 \<longleftrightarrow> (\<forall>r \<in> set rs. \<not> P r)"
  by (auto simp: count_where_def filter_empty_conv)

lemma count_where_append [simp]:
  "count_where P (xs @ ys) = count_where P xs + count_where P ys"
  by (simp add: count_where_def)

lemma count_where_Nil [simp]: "count_where P [] = 0"
  by (simp add: count_where_def)

lemma count_where_Cons [simp]:
  "count_where P (x # xs) = (if P x then 1 else 0) + count_where P xs"
  by (simp add: count_where_def)

lemma count_where_upd_where:
  "(\<And>r. P r \<Longrightarrow> Q (f r) = Q r) \<Longrightarrow> count_where Q (upd_where P f rs) = count_where Q rs"
  by (simp add: count_where_def filter_upd_where_same)

lemma find_SomeD: "List.find P xs = Some x \<Longrightarrow> x \<in> set xs \<and> P x"
  by (auto simp: find_Some_iff)

lemma find_NoneD: "List.find P xs = None \<Longrightarrow> x \<in> set xs \<Longrightarrow> \<not> P x"
  by (auto simp: find_None_iff)

lemma find_unique:
  "distinct (map k xs) \<Longrightarrow> x \<in> set xs \<Longrightarrow> List.find (\<lambda>y. k y = k x) xs = Some x"
  by (induction xs) (auto simp: image_iff)

lemma find_append:
  "List.find P (xs @ ys) = (case List.find P xs of None \<Rightarrow> List.find P ys | Some x \<Rightarrow> Some x)"
  by (induction xs) auto

lemma find_upd_where:
  "(\<And>r. P r \<Longrightarrow> Q (f r) = Q r) \<Longrightarrow>
   List.find Q (upd_where P f rs) = map_option (\<lambda>r. if P r then f r else r) (List.find Q rs)"
  by (induction rs) (auto simp: upd_where_def)

end
