(* ===== verification/Apierr.thy ===== *)
theory Apierr
  imports Prelude
begin

text \<open>
  The error values of the program. \<^verbatim>\<open>internal/apierr/errors.go\<close> defines the error codes of the
  HTTP interface, their wire names and the HTTP status each maps to; \<open>err\<close> collects every kind
  of Go \<^verbatim>\<open>error\<close> the services pass around, with \<open>errors_is\<close> and \<open>errors_as_app\<close> unwrapping
  \<^verbatim>\<open>fmt.Errorf("...: %w", err)\<close> chains the way \<^verbatim>\<open>errors.Is\<close> and \<^verbatim>\<open>errors.As\<close> do.
\<close>

section \<open>Definitions\<close>

datatype error_code =
    ErrInternal
  | ErrGameNotFound | ErrNotEnoughPlayers | ErrAlreadyParticipant | ErrGameAlreadyStarted
  | ErrGameNotInProgress | ErrInvalidWinner | ErrNotGameCreator | ErrCannotCancelFinishedGame
  | ErrGameNotFinished | ErrGameAlreadyCancelled | ErrNotParticipant | ErrCreatorCannotLeave
  | ErrPrivateGame
  | ErrSessionNotFound | ErrSessionExpired | ErrInvalidToken | ErrProblemNotFound
  | ErrInvalidEmail | ErrInvalidCode | ErrTooManyAttempts | ErrCodeRecentlySent
  | ErrExecutionRateLimited | ErrExecutionInProgress | ErrExecutorOverloaded | ErrUserNotFound
  | ErrValidation
  | ErrProblemLimitReached | ErrVersionLimitReached | ErrNotProblemOwner | ErrExecutorNotReady
  | ErrArchiveInvalid

fun error_code_string :: "error_code \<Rightarrow> string" where
  "error_code_string ErrInternal = ''INTERNAL_ERROR''"
| "error_code_string ErrGameNotFound = ''GAME_NOT_FOUND''"
| "error_code_string ErrNotEnoughPlayers = ''NOT_ENOUGH_PLAYERS''"
| "error_code_string ErrAlreadyParticipant = ''ALREADY_PARTICIPANT''"
| "error_code_string ErrGameAlreadyStarted = ''GAME_ALREADY_STARTED''"
| "error_code_string ErrGameNotInProgress = ''GAME_NOT_IN_PROGRESS''"
| "error_code_string ErrInvalidWinner = ''INVALID_WINNER''"
| "error_code_string ErrNotGameCreator = ''NOT_GAME_CREATOR''"
| "error_code_string ErrCannotCancelFinishedGame = ''CANNOT_CANCEL_FINISHED_GAME''"
| "error_code_string ErrGameNotFinished = ''GAME_NOT_FINISHED''"
| "error_code_string ErrGameAlreadyCancelled = ''GAME_ALREADY_CANCELLED''"
| "error_code_string ErrNotParticipant = ''NOT_PARTICIPANT''"
| "error_code_string ErrCreatorCannotLeave = ''CREATOR_CANNOT_LEAVE''"
| "error_code_string ErrPrivateGame = ''PRIVATE_GAME''"
| "error_code_string ErrSessionNotFound = ''SESSION_NOT_FOUND''"
| "error_code_string ErrSessionExpired = ''SESSION_EXPIRED''"
| "error_code_string ErrInvalidToken = ''INVALID_TOKEN''"
| "error_code_string ErrProblemNotFound = ''PROBLEM_NOT_FOUND''"
| "error_code_string ErrInvalidEmail = ''INVALID_EMAIL''"
| "error_code_string ErrInvalidCode = ''INVALID_CODE''"
| "error_code_string ErrTooManyAttempts = ''TOO_MANY_ATTEMPTS''"
| "error_code_string ErrCodeRecentlySent = ''CODE_RECENTLY_SENT''"
| "error_code_string ErrExecutionRateLimited = ''EXECUTION_RATE_LIMITED''"
| "error_code_string ErrExecutionInProgress = ''EXECUTION_IN_PROGRESS''"
| "error_code_string ErrExecutorOverloaded = ''EXECUTOR_OVERLOADED''"
| "error_code_string ErrUserNotFound = ''USER_NOT_FOUND''"
| "error_code_string ErrValidation = ''VALIDATION_ERROR''"
| "error_code_string ErrProblemLimitReached = ''PROBLEM_LIMIT_REACHED''"
| "error_code_string ErrVersionLimitReached = ''VERSION_LIMIT_REACHED''"
| "error_code_string ErrNotProblemOwner = ''NOT_PROBLEM_OWNER''"
| "error_code_string ErrExecutorNotReady = ''EXECUTOR_NOT_READY''"
| "error_code_string ErrArchiveInvalid = ''ARCHIVE_INVALID''"

record AppError =
  ErrorCode :: error_code
  Message :: string
  HTTPStatus :: nat

definition httpStatusCode :: "error_code \<Rightarrow> nat" where
  "httpStatusCode code =
    (if code \<in> {ErrValidation, ErrNotEnoughPlayers, ErrInvalidWinner, ErrArchiveInvalid} then 400
     else if code \<in> {ErrNotGameCreator, ErrCreatorCannotLeave, ErrNotParticipant, ErrPrivateGame,
                     ErrNotProblemOwner} then 403
     else if code \<in> {ErrProblemLimitReached, ErrVersionLimitReached} then 422
     else if code \<in> {ErrAlreadyParticipant, ErrGameAlreadyStarted, ErrGameNotInProgress,
                     ErrCannotCancelFinishedGame, ErrGameAlreadyCancelled} then 409
     else if code = ErrGameNotFinished then 403
     else if code \<in> {ErrInvalidToken, ErrSessionExpired} then 401
     else if code \<in> {ErrGameNotFound, ErrSessionNotFound, ErrProblemNotFound, ErrUserNotFound} then 404
     else if code \<in> {ErrTooManyAttempts, ErrCodeRecentlySent, ErrExecutionRateLimited,
                     ErrExecutionInProgress} then 429
     else if code \<in> {ErrExecutorOverloaded, ErrExecutorNotReady} then 503
     else if code \<in> {ErrInvalidEmail, ErrInvalidCode} then 400
     else 500)"

text \<open>
  The Go error values: an application error, the two driver errors the code tests for
  (\<^verbatim>\<open>pgx.ErrNoRows\<close> and a \<^verbatim>\<open>pgconn.PgError\<close> with its SQLSTATE and constraint name), a lost
  connection or cancelled context, plain texts, wrapped errors, and the package-level sentinels.
\<close>

datatype err =
    AppErr AppError
  | ErrNoRows
  | PgError string string
  | ErrConn
  | ErrText string
  | ErrWrap string err
  | ErrGameAlreadyFinished
  | SvcErrInvalidName
  | SvcErrInvalidEmail
  | SvcErrInvalidCode
  | SvcErrTooManyAttempts
  | SvcErrCodeRecentlySent
  | PrbErrExecutorNotReady

definition New :: "error_code \<Rightarrow> string \<Rightarrow> err" where
  "New code message =
     AppErr \<lparr>ErrorCode = code, Message = message, HTTPStatus = httpStatusCode code\<rparr>"

fun errors_is :: "err \<Rightarrow> err \<Rightarrow> bool" where
  "errors_is (ErrWrap m e) target = (ErrWrap m e = target \<or> errors_is e target)"
| "errors_is e target = (e = target)"

fun errors_as_app :: "err \<Rightarrow> AppError option" where
  "errors_as_app (AppErr a) = Some a"
| "errors_as_app (ErrWrap m e) = errors_as_app e"
| "errors_as_app _ = None"

fun errors_as_pg :: "err \<Rightarrow> (string \<times> string) option" where
  "errors_as_pg (PgError code con) = Some (code, con)"
| "errors_as_pg (ErrWrap m e) = errors_as_pg e"
| "errors_as_pg _ = None"

definition no_rows_to :: "err \<Rightarrow> err \<Rightarrow> err" where
  "no_rows_to target e = (if errors_is e ErrNoRows then target else e)"

section \<open>Properties\<close>

lemma New_inject [simp]: "New c m = New c' m' \<longleftrightarrow> c = c' \<and> m = m'"
  by (auto simp: New_def)

lemma New_neq [simp]:
  "New c m \<noteq> ErrNoRows" "New c m \<noteq> ErrConn" "New c m \<noteq> PgError a b"
  "New c m \<noteq> ErrText t" "New c m \<noteq> ErrWrap t e" "New c m \<noteq> ErrGameAlreadyFinished"
  "ErrNoRows \<noteq> New c m" "ErrConn \<noteq> New c m" "PgError a b \<noteq> New c m"
  "ErrText t \<noteq> New c m" "ErrWrap t e \<noteq> New c m" "ErrGameAlreadyFinished \<noteq> New c m"
  by (auto simp: New_def)

lemma errors_is_New [simp]: "errors_is (New c m) ErrNoRows = False"
  by (simp add: New_def)

lemma errors_as_app_New [simp]:
  "errors_as_app (New c m) = Some \<lparr>ErrorCode = c, Message = m, HTTPStatus = httpStatusCode c\<rparr>"
  by (simp add: New_def)

lemma no_rows_to_simps [simp]:
  "no_rows_to t ErrNoRows = t" "no_rows_to t ErrConn = ErrConn"
  "no_rows_to t (New c m) = New c m" "no_rows_to t (PgError a b) = PgError a b"
  by (auto simp: no_rows_to_def)

lemma errors_as_app_wrap_all: "errors_as_app (foldr ErrWrap ms e) = errors_as_app e"
  by (induction ms) auto

lemma error_code_string_inj: "error_code_string c = error_code_string c' \<Longrightarrow> c = c'"
  by (cases c; cases c') simp_all

text \<open>
  every error code of the interface other than the internal one has a status of its own. No
  declared code falls through to the default branch of the switch, so a 500 response always
  carries \<^verbatim>\<open>INTERNAL_ERROR\<close>, and every other code is a client error or 503.
\<close>

lemma httpStatusCode_total:
  "(httpStatusCode c = 500 \<longleftrightarrow> c = ErrInternal) \<and>
   httpStatusCode c \<in> {400, 401, 403, 404, 409, 422, 429, 500, 503}"
  by (cases c) (simp_all add: httpStatusCode_def)

end
