(* ===== verification/Database.thy ===== *)
theory Database
  imports Apierr
begin

text \<open>
  The PostgreSQL database of the program as the Go code sees it. The rows are the structs of
  \<^verbatim>\<open>internal/db/sqlc/models.go\<close>, the tables are lists of rows, and the constraints are those of
  \<^verbatim>\<open>internal/migrations\<close>. A nullable column is an option. The world record holds the tables, the
  sequences behind the SERIAL columns (which a rollback does not restore), the clock, a tape of
  random values and a tape of transport faults with a read position each.

  Every round trip to the server consumes one entry of the fault tape. \<open>Fine\<close> is a round trip
  that answers; \<open>Unsent\<close> one that fails before the statement runs; \<open>NoReply\<close> one whose statement
  runs although the caller gets an error (a connection lost while waiting for the answer).
  A theorem that holds for every tape holds for every pattern of infrastructure failures.
  The world is an extensible record: components with state of their own extend it.
\<close>

section \<open>Rows\<close>

type_synonym uuid = nat
type_synonym time = int

datatype game_status = Pending | Active | Finished | Cancelled

record game =
  g_ID :: int
  g_CreatorID :: uuid
  g_WinnerID :: "uuid option"
  g_Status :: game_status
  g_StartedAt :: "time option"
  g_CompletedAt :: "time option"
  g_CreatedAt :: time
  g_UpdatedAt :: time
  g_IsPublic :: bool
  g_InviteToken :: uuid
  g_IsSolo :: bool
  g_TimeLimitMinutes :: "int option"

record game_participant =
  gp_ID :: int
  gp_GameID :: int
  gp_UserID :: uuid
  gp_CurrentProblemIndex :: int

record game_problem =
  gpr_GameID :: int
  gpr_ProblemIndex :: int
  gpr_ProblemID :: string
  gpr_ProblemVersionID :: int

record problem_row =
  p_ID :: int
  p_Slug :: string
  p_OwnerUserID :: "uuid option"
  p_Visibility :: string
  p_Status :: string
  p_Title :: string
  p_CurrentVersionID :: "int option"
  p_CreatedAt :: time
  p_UpdatedAt :: time

record problem_version =
  pv_ID :: int
  pv_ProblemID :: int
  pv_Version :: int
  pv_ArtifactPath :: string
  pv_ArtifactSha256 :: string
  pv_LimitsTimeMs :: int
  pv_LimitsMemoryKb :: int
  pv_CheckerType :: string
  pv_ReferenceLanguage :: string
  pv_CreatedByUserID :: "uuid option"
  pv_CreatedAt :: time
  pv_TestCaseCount :: int
  pv_Difficulty :: string

record session =
  s_ID :: int
  s_UserID :: uuid
  s_Token :: string
  s_ExpiresAt :: time
  s_CreatedAt :: time
  s_UpdatedAt :: time

record solution =
  sol_ID :: int
  sol_UserID :: uuid
  sol_ProblemID :: string
  sol_GameID :: "int option"
  sol_Code :: string
  sol_Language :: string
  sol_Status :: string
  sol_ExecutionTime :: "int option"
  sol_MemoryUsed :: "int option"
  sol_CreatedAt :: "time option"
  sol_UpdatedAt :: "time option"
  sol_ProblemVersionID :: int

record user =
  u_ID :: uuid
  u_Username :: string
  u_Email :: string
  u_PasswordHash :: "string option"
  u_EmailVerified :: bool
  u_Rating :: "int option"
  u_CreatedAt :: "time option"
  u_UpdatedAt :: "time option"
  u_Name :: "string option"

record verification_code =
  vc_Email :: string
  vc_CodeHash :: string
  vc_ExpiresAt :: time
  vc_Attempts :: int
  vc_CreatedAt :: time

section \<open>Tables, sequences, the world\<close>

record database =
  d_users :: "user list"
  d_games :: "game list"
  d_participants :: "game_participant list"
  d_game_problems :: "game_problem list"
  d_problems :: "problem_row list"
  d_versions :: "problem_version list"
  d_sessions :: "session list"
  d_codes :: "verification_code list"
  d_solutions :: "solution list"

record sequences =
  seq_games :: int
  seq_participants :: int
  seq_sessions :: int
  seq_solutions :: int
  seq_problems :: int
  seq_versions :: int

datatype fault = Fine | Unsent | NoReply

record world =
  db :: database
  seqs :: sequences
  now :: time
  rng :: "nat \<Rightarrow> nat"
  rpos :: nat
  faults :: "nat \<Rightarrow> fault"
  fpos :: nat

type_synonym ('z, 'a) op = "('z world_scheme, err, 'a) sem"

section \<open>Round trips and transactions\<close>

definition roundtrip :: "('z, 'a) op \<Rightarrow> ('z, 'a) op" where
  "roundtrip q = (\<lambda>w.
     let w1 = w\<lparr>fpos := Suc (fpos w)\<rparr> in
     case faults w (fpos w) of
       Fine \<Rightarrow> q w1
     | Unsent \<Rightarrow> (Inl ErrConn, w1)
     | NoReply \<Rightarrow> (Inl ErrConn, snd (q w1)))"

text \<open>
  \<^verbatim>\<open>tx, err := pool.Begin(ctx)\<close>, \<^verbatim>\<open>defer tx.Rollback(ctx)\<close>, the body and \<^verbatim>\<open>tx.Commit(ctx)\<close>: an
  error of the body or of the commit restores the tables of the start; a commit whose answer is
  lost has taken effect. A rollback after a commit is a no-op, as in pgx.
\<close>

definition in_tx :: "('z, 'a) op \<Rightarrow> ('z, 'a) op" where
  "in_tx body = (\<lambda>w.
     case roundtrip (ret ()) w of
       (Inl e, w1) \<Rightarrow> (Inl e, w1)
     | (Inr _, w1) \<Rightarrow>
         (case body w1 of
            (Inl e, w2) \<Rightarrow> (Inl e, w2\<lparr>db := db w1\<rparr>)
          | (Inr a, w2) \<Rightarrow>
              (let w3 = w2\<lparr>fpos := Suc (fpos w2)\<rparr> in
               case faults w2 (fpos w2) of
                 Fine \<Rightarrow> (Inr a, w3)
               | Unsent \<Rightarrow> (Inl ErrConn, w3\<lparr>db := db w1\<rparr>)
               | NoReply \<Rightarrow> (Inl ErrConn, w3))))"

text \<open>
  A SELECT is a function of the tables; an UPDATE or DELETE also reads the transaction time and
  returns the new tables, and leaves them unchanged when it fails.
\<close>

definition reads :: "(database \<Rightarrow> err + 'a) \<Rightarrow> ('z, 'a) op" where
  "reads f = roundtrip (\<lambda>w. (f (db w), w))"

definition writes :: "(time \<Rightarrow> database \<Rightarrow> err + 'a \<times> database) \<Rightarrow> ('z, 'a) op" where
  "writes f = roundtrip (\<lambda>w. case f (now w) (db w) of
       Inl e \<Rightarrow> (Inl e, w)
     | Inr (a, d) \<Rightarrow> (Inr a, w\<lparr>db := d\<rparr>))"

definition one_row :: "'r option \<Rightarrow> err + 'r" where
  "one_row r = (case r of None \<Rightarrow> Inl ErrNoRows | Some x \<Rightarrow> Inr x)"

text \<open>
  A statement that draws from a sequence and from the random source first and then inserts:
  the sequence advances even if the insert is refused. \<^term>\<open>mx\<close> is the largest value of the
  column type; beyond it \<^verbatim>\<open>nextval\<close> fails.
\<close>

definition max_int4 :: int where "max_int4 = 2147483647"
definition max_int8 :: int where "max_int8 = 9223372036854775807"

definition inserts ::
  "int \<Rightarrow> (sequences \<Rightarrow> int) \<Rightarrow> ((int \<Rightarrow> int) \<Rightarrow> sequences \<Rightarrow> sequences) \<Rightarrow>
   (int \<Rightarrow> nat \<Rightarrow> time \<Rightarrow> database \<Rightarrow> err + 'a \<times> database) \<Rightarrow> ('z, 'a) op" where
  "inserts mx sq sq_upd f = roundtrip (\<lambda>w.
     let n = sq (seqs w) + 1 in
     if mx < n then (Inl (PgError ''2200H'' ''''), w)
     else
       let w1 = w\<lparr>seqs := sq_upd (\<lambda>_. n) (seqs w), rpos := Suc (rpos w)\<rparr> in
       case f n (rng w (rpos w)) (now w) (db w) of
         Inl e \<Rightarrow> (Inl e, w1)
       | Inr (a, d) \<Rightarrow> (Inr a, w1\<lparr>db := d\<rparr>))"

definition random :: "('z, nat) op" where
  "random = (\<lambda>w. (Inr (rng w (rpos w)), w\<lparr>rpos := Suc (rpos w)\<rparr>))"

abbreviation keeps_db :: "(database \<Rightarrow> bool) \<Rightarrow> ('z, 'a) op \<Rightarrow> bool" where
  "keeps_db I m \<equiv> keeps (\<lambda>w. I (db w)) m"

definition all_fine :: "'z world_scheme \<Rightarrow> bool" where
  "all_fine w \<longleftrightarrow> faults w = (\<lambda>_. Fine)"

definition empty_db :: database where
  "empty_db = \<lparr>d_users = [], d_games = [], d_participants = [], d_game_problems = [],
     d_problems = [], d_versions = [], d_sessions = [], d_codes = [], d_solutions = []\<rparr>"

section \<open>Rules\<close>

lemma wp_roundtrip [wps]:
  "wp (roundtrip q) Q w \<longleftrightarrow>
     (case faults w (fpos w) of
        Fine \<Rightarrow> wp q Q (w\<lparr>fpos := Suc (fpos w)\<rparr>)
      | Unsent \<Rightarrow> Q (Inl ErrConn) (w\<lparr>fpos := Suc (fpos w)\<rparr>)
      | NoReply \<Rightarrow> wp q (\<lambda>_. Q (Inl ErrConn)) (w\<lparr>fpos := Suc (fpos w)\<rparr>))"
  by (auto simp: wp_def roundtrip_def Let_def split: fault.splits prod.splits)

lemma roundtrip_Inr [success]:
  "roundtrip q w = (Inr a, w') \<longleftrightarrow>
     faults w (fpos w) = Fine \<and> q (w\<lparr>fpos := Suc (fpos w)\<rparr>) = (Inr a, w')"
  by (auto simp: roundtrip_def Let_def split: fault.splits)

lemma reads_Inr [success]:
  "reads f w = (Inr a, w') \<longleftrightarrow>
     faults w (fpos w) = Fine \<and> f (db w) = Inr a \<and> w' = w\<lparr>fpos := Suc (fpos w)\<rparr>"
  by (auto simp: reads_def success)

lemma writes_Inr [success]:
  "writes f w = (Inr a, w') \<longleftrightarrow>
     faults w (fpos w) = Fine \<and>
     (\<exists>d. f (now w) (db w) = Inr (a, d) \<and> w' = w\<lparr>fpos := Suc (fpos w), db := d\<rparr>)"
  by (auto simp: writes_def success split: sum.splits)

lemma inserts_Inr [success]:
  "inserts mx sq sq_upd f w = (Inr a, w') \<longleftrightarrow>
     faults w (fpos w) = Fine \<and> sq (seqs w) + 1 \<le> mx \<and>
     (\<exists>d. f (sq (seqs w) + 1) (rng w (rpos w)) (now w) (db w) = Inr (a, d) \<and>
        w' = w\<lparr>fpos := Suc (fpos w), seqs := sq_upd (\<lambda>_. sq (seqs w) + 1) (seqs w),
                rpos := Suc (rpos w), db := d\<rparr>)"
  by (auto simp: inserts_def success Let_def split: sum.splits if_splits)

lemma one_row_Inr [success]: "one_row r = Inr x \<longleftrightarrow> r = Some x"
  by (auto simp: one_row_def split: option.splits)

lemma one_row_simps [simp]: "one_row None = Inl ErrNoRows" "one_row (Some x) = Inr x"
  by (simp_all add: one_row_def)

lemma random_Inr [success]:
  "random w = (r, w') \<longleftrightarrow> r = Inr (rng w (rpos w)) \<and> w' = w\<lparr>rpos := Suc (rpos w)\<rparr>"
  by (auto simp: random_def)

lemma in_tx_Inr [success]:
  "in_tx body w = (Inr a, w') \<longleftrightarrow>
     faults w (fpos w) = Fine \<and>
     (\<exists>w2. body (w\<lparr>fpos := Suc (fpos w)\<rparr>) = (Inr a, w2) \<and> faults w2 (fpos w2) = Fine \<and>
        w' = w2\<lparr>fpos := Suc (fpos w2)\<rparr>)"
  by (auto simp: in_tx_def roundtrip_def ret_def Let_def split: fault.splits prod.splits sum.splits)

lemma wp_reads [wps]:
  "wp (reads f) Q w \<longleftrightarrow>
     (case faults w (fpos w) of
        Fine \<Rightarrow> Q (f (db w)) (w\<lparr>fpos := Suc (fpos w)\<rparr>)
      | _ \<Rightarrow> Q (Inl ErrConn) (w\<lparr>fpos := Suc (fpos w)\<rparr>))"
  by (simp add: reads_def wps) (simp add: wp_def split: fault.split)

lemma keeps_roundtrip [keeps_intro]:
  "keeps_db I q \<Longrightarrow> keeps_db I (roundtrip q)"
  by (auto simp: keeps_def roundtrip_def Let_def split: fault.split)

lemma keeps_reads [keeps_intro]: "keeps_db I (reads f)"
  unfolding reads_def by (rule keeps_roundtrip) (simp add: keeps_def)

lemma keeps_random [keeps_intro]: "keeps_db I random"
  by (auto simp: random_def keeps_def)

lemma keeps_writes:
  "(\<And>t d a d'. I d \<Longrightarrow> f t d = Inr (a, d') \<Longrightarrow> I d') \<Longrightarrow> keeps_db I (writes f)"
  unfolding writes_def
  by (rule keeps_roundtrip) (auto simp: keeps_def split: sum.split)

lemma keeps_inserts:
  "(\<And>n r t d a d'. I d \<Longrightarrow> f n r t d = Inr (a, d') \<Longrightarrow> I d') \<Longrightarrow>
   keeps_db I (inserts mx sq sq_upd f)"
  unfolding inserts_def
  by (rule keeps_roundtrip) (auto simp: keeps_def Let_def split: sum.split)

text \<open>
  All or nothing: whatever fails and whenever, a transaction leaves either the tables it started
  from or the tables its body produced by succeeding.
\<close>

lemma in_tx_all_or_nothing:
  "in_tx body w = (r, w') \<Longrightarrow>
     db w' = db w \<or>
     (\<exists>a w2. body (w\<lparr>fpos := Suc (fpos w)\<rparr>) = (Inr a, w2) \<and> db w' = db w2 \<and>
        (r = Inr a \<or> r = Inl ErrConn))"
  by (auto simp: in_tx_def roundtrip_def ret_def Let_def split: fault.splits prod.splits sum.splits)

text \<open>
  A transaction keeps a predicate if its body establishes it whenever it succeeds: on an error
  the tables of the start are back.
\<close>

lemma keeps_in_tx:
  assumes "\<And>w a w'. I (db w) \<Longrightarrow> body w = (Inr a, w') \<Longrightarrow> I (db w')"
  shows "keeps_db I (in_tx body)"
proof -
  have "I (db (snd (in_tx body w)))" if I: "I (db w)" for w
  proof -
    obtain r w' where run: "in_tx body w = (r, w')" by fastforce
    from in_tx_all_or_nothing [OF run] I assms [of "w\<lparr>fpos := Suc (fpos w)\<rparr>"]
    have "I (db w')" by auto
    with run show ?thesis by simp
  qed
  then show ?thesis by (simp add: keeps_def)
qed

lemma keeps_in_tx_body [keeps_intro]: "keeps_db I body \<Longrightarrow> keeps_db I (in_tx body)"
  by (rule keeps_in_tx) (auto dest: keepsD)


text \<open>
  Guards travel from a read to the statement that follows it: nothing else runs in between in
  the same operation.
\<close>

lemma wp_bind_reads:
  assumes "P (db w)"
    and "\<And>a v. db v = db w \<Longrightarrow> f (db w) = Inr a \<Longrightarrow> wp (k a) (\<lambda>_ w'. P (db w')) v"
  shows "wp (bindE (reads f) k) (\<lambda>_ w'. P (db w')) w"
    and "wp (bindE (mapErr h (reads f)) k) (\<lambda>_ w'. P (db w')) w"
  using assms(1) assms(2) [of "w\<lparr>fpos := Suc (fpos w)\<rparr>"]
  by (auto simp: wps split: fault.split sum.split)

lemma wp_in_tx:
  assumes "P (db w)"
    and "\<And>v a w'. db v = db w \<Longrightarrow> body v = (Inr a, w') \<Longrightarrow> P (db w')"
  shows "wp (in_tx body) (\<lambda>_ w'. P (db w')) w"
proof (rule wpI)
  fix r w' assume "in_tx body w = (r, w')"
  from in_tx_all_or_nothing [OF this] show "P (db w')"
    using assms(1) assms(2) [of "w\<lparr>fpos := Suc (fpos w)\<rparr>"] by auto
qed

lemma wp_keeps: "keeps_db I m \<Longrightarrow> I (db w) \<Longrightarrow> wp m (\<lambda>_ w'. I (db w')) w"
  by (simp add: keeps_wp)

lemma wp_bind_keeps:
  assumes "wp m (\<lambda>_ w'. P (db w')) w" and "\<And>a. keeps_db P (k a)"
  shows "wp (bindE m k) (\<lambda>_ w'. P (db w')) w"
  unfolding wp_bindE
  by (rule wp_mono [OF assms(1)]) (auto simp: wp_keeps assms(2) split: sum.split)

lemma wp_bind_after:
  assumes "keeps_db I m" and "I (db w)" and "\<And>d. I d \<Longrightarrow> P d"
    and "\<And>a v. I (db v) \<Longrightarrow> wp (k a) (\<lambda>_ w'. P (db w')) v"
  shows "wp (bindE m k) (\<lambda>_ w'. P (db w')) w"
  unfolding wp_bindE
  by (rule wp_mono [OF wp_keeps [OF assms(1,2)]]) (use assms(3,4) in \<open>auto split: sum.split\<close>)

lemma wp_writes_keep:
  assumes "I (db w)" and "\<And>a d. f (now w) (db w) = Inr (a, d) \<Longrightarrow> I d"
  shows "wp (writes f) (\<lambda>_ w'. I (db w')) w"
  using assms
  by (auto simp: writes_def wps split: fault.split) (auto simp: wp_def split: sum.split)

lemma wp_writes_then:
  assumes "I (db w)" and "\<And>a d. f (now w) (db w) = Inr (a, d) \<Longrightarrow> I d \<and> J d"
    and "\<And>a. keeps_db J (k a)" and "\<And>d. J d \<Longrightarrow> I d"
  shows "wp (bindE (mapErr h (writes f)) k) (\<lambda>_ w'. I (db w')) w"
proof -
  have "wp (k a) (\<lambda>_ w'. I (db w')) v" if "J (db v)" for a v
    by (rule wp_mono [OF wp_keeps [where I = J]]) (auto simp: assms(3,4) that)
  then show ?thesis using assms(1,2)
    by (auto simp: writes_def wps split: fault.split) (auto simp: wp_def split: sum.split prod.split)
qed

subsection \<open>Runs without faults\<close>

definition succeeds :: "('z, 'a) op \<Rightarrow> 'z world_scheme \<Rightarrow> bool" where
  "succeeds m w \<longleftrightarrow> (case fst (m w) of Inl _ \<Rightarrow> False | Inr _ \<Rightarrow> True)"

lemma succeeds_iff: "succeeds m w \<longleftrightarrow> (\<exists>a w'. m w = (Inr a, w'))"
  by (cases "m w") (auto simp: succeeds_def split: sum.splits)

lemma all_fine_update [simp]:
  "all_fine (w\<lparr>fpos := n\<rparr>) = all_fine w" "all_fine (w\<lparr>db := d\<rparr>) = all_fine w"
  "all_fine (w\<lparr>rpos := n\<rparr>) = all_fine w" "all_fine (w\<lparr>seqs := s\<rparr>) = all_fine w"
  by (simp_all add: all_fine_def)

lemma succeeds_ret [fine]: "succeeds (ret a) w"
  by (simp add: succeeds_def ret_def)

lemma succeeds_throw [fine]: "\<not> succeeds (throw e) w"
  by (simp add: succeeds_def throw_def)

lemma succeeds_if [fine]:
  "succeeds (if b then m else n) w \<longleftrightarrow> (if b then succeeds m w else succeeds n w)"
  by simp

lemma succeeds_bind_ret [fine]: "succeeds (bindE m (\<lambda>a. ret (g a))) w \<longleftrightarrow> succeeds m w"
  by (auto simp: succeeds_iff success)

lemma succeeds_reads [fine]:
  "all_fine w \<Longrightarrow> succeeds (reads f) w \<longleftrightarrow> (case f (db w) of Inl _ \<Rightarrow> False | Inr a \<Rightarrow> True)"
  by (auto simp: succeeds_iff success all_fine_def split: sum.splits)

lemma succeeds_bind_reads [fine]:
  assumes "all_fine w"
  shows "succeeds (bindE (reads f) k) w \<longleftrightarrow>
      (case f (db w) of Inl _ \<Rightarrow> False | Inr a \<Rightarrow> succeeds (k a) (w\<lparr>fpos := Suc (fpos w)\<rparr>))"
    and "succeeds (bindE (mapErr h (reads f)) k) w \<longleftrightarrow>
      (case f (db w) of Inl _ \<Rightarrow> False | Inr a \<Rightarrow> succeeds (k a) (w\<lparr>fpos := Suc (fpos w)\<rparr>))"
  using assms by (auto simp: succeeds_iff success all_fine_def split: sum.splits)

lemma succeeds_writes [fine]:
  "all_fine w \<Longrightarrow> succeeds (writes f) w \<longleftrightarrow>
     (case f (now w) (db w) of Inl _ \<Rightarrow> False | Inr a \<Rightarrow> True)"
  by (auto simp: succeeds_iff success all_fine_def split: sum.splits)

lemma succeeds_bind_writes [fine]:
  assumes "all_fine w"
  shows "succeeds (bindE (writes f) k) w \<longleftrightarrow>
      (case f (now w) (db w) of Inl _ \<Rightarrow> False
       | Inr (a, d) \<Rightarrow> succeeds (k a) (w\<lparr>fpos := Suc (fpos w), db := d\<rparr>))"
    and "succeeds (bindE (mapErr h (writes f)) k) w \<longleftrightarrow>
      (case f (now w) (db w) of Inl _ \<Rightarrow> False
       | Inr (a, d) \<Rightarrow> succeeds (k a) (w\<lparr>fpos := Suc (fpos w), db := d\<rparr>))"
  using assms by (auto simp: succeeds_iff success all_fine_def split: sum.splits)

lemma succeeds_inserts [fine]:
  "all_fine w \<Longrightarrow> succeeds (inserts mx sq sq_upd f) w \<longleftrightarrow> sq (seqs w) + 1 \<le> mx \<and>
     (case f (sq (seqs w) + 1) (rng w (rpos w)) (now w) (db w) of Inl _ \<Rightarrow> False | Inr _ \<Rightarrow> True)"
  by (auto simp: succeeds_iff success all_fine_def split: sum.splits)

lemma succeeds_in_tx:
  assumes "all_fine w" and "keeps all_fine body"
  shows "succeeds (in_tx body) w \<longleftrightarrow> succeeds body (w\<lparr>fpos := Suc (fpos w)\<rparr>)"
proof -
  have "faults w2 (fpos w2) = Fine" if "body (w\<lparr>fpos := Suc (fpos w)\<rparr>) = (r, w2)" for r w2
    using keepsD [OF assms(2) _ that] assms(1) by (simp add: all_fine_def)
  then show ?thesis using assms(1) by (auto simp: succeeds_iff success all_fine_def)
qed

text \<open>
  A predicate of the world that does not look at the tables, the sequences and the positions of the
  tapes is kept by every operation on the database.
\<close>

definition stable :: "('z world_scheme \<Rightarrow> bool) \<Rightarrow> bool" where
  "stable P \<longleftrightarrow> (\<forall>w. P w \<longrightarrow> (\<forall>n. P (w\<lparr>fpos := n\<rparr>)) \<and> (\<forall>d. P (w\<lparr>db := d\<rparr>)) \<and> (\<forall>n. P (w\<lparr>rpos := n\<rparr>)) \<and>
     (\<forall>s. P (w\<lparr>seqs := s\<rparr>)))"

lemma stable_roundtrip: "stable P \<Longrightarrow> keeps P q \<Longrightarrow> keeps P (roundtrip q)"
  by (auto simp: stable_def keeps_def roundtrip_def Let_def split: fault.split)

lemma keeps_stable:
  assumes "stable P"
  shows "keeps P (reads f)" "keeps P (writes g)" "keeps P (inserts mx sq sq_upd i)" "keeps P random"
  unfolding reads_def writes_def inserts_def
  by (rule stable_roundtrip [OF assms]; use assms in \<open>auto simp: stable_def keeps_def Let_def split: sum.split\<close>)+
     (use assms in \<open>auto simp: stable_def keeps_def random_def\<close>)

lemma keeps_stable_in_tx: "stable P \<Longrightarrow> keeps P body \<Longrightarrow> keeps P (in_tx body)"
  by (auto simp: stable_def keeps_def in_tx_def roundtrip_def ret_def Let_def
      split: fault.split prod.split sum.split) (metis snd_conv)+

lemma stable_fine: "stable all_fine"
  by (simp add: stable_def)

lemmas keeps_fine [keeps_intro] = keeps_stable [OF stable_fine] keeps_stable_in_tx [OF stable_fine]

end
