(* ===== verification/Queries_Games.thy ===== *)
theory Queries_Games
  imports Database
begin

text \<open>
  The statements of \<^verbatim>\<open>games.sql\<close>, \<^verbatim>\<open>game_participants.sql\<close> and \<^verbatim>\<open>game_problems.sql\<close>, as the
  sqlc-generated methods of \<^verbatim>\<open>internal/db/sqlc\<close> run them. The name of a query is the Go method's
  with a leading \<open>q\<close>. Constraints of the migrations are checked where PostgreSQL checks them:
  unique indexes while inserting, foreign keys at the end of the statement. Rows that compare
  equal under an ORDER BY keep their storage order.
\<close>

section \<open>games\<close>

definition user_exists :: "uuid \<Rightarrow> database \<Rightarrow> bool" where
  "user_exists u d \<longleftrightarrow> u \<in> u_ID ` set (d_users d)"

definition game_exists :: "int \<Rightarrow> database \<Rightarrow> bool" where
  "game_exists i d \<longleftrightarrow> i \<in> g_ID ` set (d_games d)"

definition find_game :: "int \<Rightarrow> database \<Rightarrow> game option" where
  "find_game i d = List.find (\<lambda>g. g_ID g = i) (d_games d)"

definition is_participant :: "int \<Rightarrow> uuid \<Rightarrow> database \<Rightarrow> bool" where
  "is_participant i u d \<longleftrightarrow>
     (\<exists>p \<in> set (d_participants d). gp_GameID p = i \<and> gp_UserID p = u)"

definition new_game ::
  "int \<Rightarrow> uuid \<Rightarrow> time \<Rightarrow> uuid \<Rightarrow> bool \<Rightarrow> bool \<Rightarrow> int option \<Rightarrow> game" where
  "new_game n tok t creator isPublic isSolo timeLimit =
     \<lparr>g_ID = n, g_CreatorID = creator, g_WinnerID = None, g_Status = Pending,
      g_StartedAt = None, g_CompletedAt = None, g_CreatedAt = t, g_UpdatedAt = t,
      g_IsPublic = isPublic, g_InviteToken = tok, g_IsSolo = isSolo,
      g_TimeLimitMinutes = timeLimit\<rparr>"

definition qCreateGame :: "uuid \<Rightarrow> bool \<Rightarrow> bool \<Rightarrow> int option \<Rightarrow> ('z, game) op" where
  "qCreateGame creator isPublic isSolo timeLimit =
     inserts max_int4 seq_games seq_games_update (\<lambda>n r t d.
       let g = new_game n r t creator isPublic isSolo timeLimit in
       if game_exists n d then Inl (PgError ''23505'' ''games_pkey'')
       else if r \<in> g_InviteToken ` set (d_games d) then Inl (PgError ''23505'' ''games_invite_token_idx'')
       else if \<not> user_exists creator d then Inl (PgError ''23503'' ''games_creator_id_fkey'')
       else Inr (g, d\<lparr>d_games := d_games d @ [g]\<rparr>))"

definition qGetGameByID :: "int \<Rightarrow> ('z, game) op" where
  "qGetGameByID i = reads (\<lambda>d. one_row (find_game i d))"

definition qGetGameForUpdate :: "int \<Rightarrow> ('z, game) op" where
  "qGetGameForUpdate i = reads (\<lambda>d. one_row (find_game i d))"

definition qGetGameByInviteToken :: "uuid \<Rightarrow> ('z, game) op" where
  "qGetGameByInviteToken tok =
     reads (\<lambda>d. one_row (List.find (\<lambda>g. g_InviteToken g = tok) (d_games d)))"

definition listed_for :: "uuid \<Rightarrow> database \<Rightarrow> game \<Rightarrow> bool" where
  "listed_for u d g \<longleftrightarrow> g_IsPublic g \<or> g_CreatorID g = u \<or> is_participant (g_ID g) u d"

definition limit_offset :: "int \<Rightarrow> int \<Rightarrow> 'r list \<Rightarrow> err + 'r list" where
  "limit_offset lim off rs =
     (if lim < 0 then Inl (PgError ''2201W'' '''')
      else if off < 0 then Inl (PgError ''2201X'' '''')
      else Inr (take (nat lim) (drop (nat off) rs)))"

definition qListGamesForUser :: "int \<Rightarrow> int \<Rightarrow> uuid \<Rightarrow> ('z, game list) op" where
  "qListGamesForUser lim off u = reads (\<lambda>d.
     limit_offset lim off
       (sort_key (\<lambda>g. - g_CreatedAt g) (filter (listed_for u d) (d_games d))))"

definition qCountGamesForUser :: "uuid \<Rightarrow> ('z, int) op" where
  "qCountGamesForUser u = reads (\<lambda>d. Inr (count_where (listed_for u d) (d_games d)))"

definition set_game :: "int \<Rightarrow> (game \<Rightarrow> game) \<Rightarrow> database \<Rightarrow> database" where
  "set_game i f d = d\<lparr>d_games := upd_where (\<lambda>g. g_ID g = i) f (d_games d)\<rparr>"

definition update_game :: "int \<Rightarrow> (game \<Rightarrow> game) \<Rightarrow> database \<Rightarrow> err + game \<times> database" where
  "update_game i f d =
     (case find_game i d of
        None \<Rightarrow> Inl ErrNoRows
      | Some g \<Rightarrow> Inr (f g, set_game i f d))"

definition started :: "time \<Rightarrow> game \<Rightarrow> game" where
  "started t g = g\<lparr>g_Status := Active, g_StartedAt := Some t, g_UpdatedAt := t\<rparr>"

definition completed :: "time \<Rightarrow> uuid option \<Rightarrow> game \<Rightarrow> game" where
  "completed t winner g =
     g\<lparr>g_Status := Finished, g_WinnerID := winner, g_CompletedAt := Some t, g_UpdatedAt := t\<rparr>"

definition cancelled :: "time \<Rightarrow> game \<Rightarrow> game" where
  "cancelled t g = g\<lparr>g_Status := Cancelled, g_UpdatedAt := t\<rparr>"

definition timed_out :: "time \<Rightarrow> game \<Rightarrow> game" where
  "timed_out t g = g\<lparr>g_Status := Finished, g_CompletedAt := Some t, g_UpdatedAt := t\<rparr>"

definition qStartGame :: "int \<Rightarrow> ('z, game) op" where
  "qStartGame i = writes (\<lambda>t. update_game i (started t))"

definition qCompleteGame :: "int \<Rightarrow> uuid option \<Rightarrow> ('z, game) op" where
  "qCompleteGame i winner = writes (\<lambda>t d.
     if find_game i d \<noteq> None \<and> opt_ex (\<lambda>u. \<not> user_exists u d) winner
     then Inl (PgError ''23503'' ''games_winner_id_fkey'')
     else update_game i (completed t winner) d)"

definition qCancelGame :: "int \<Rightarrow> ('z, game) op" where
  "qCancelGame i = writes (\<lambda>t. update_game i (cancelled t))"

definition qTimeoutGame :: "int \<Rightarrow> ('z, game) op" where
  "qTimeoutGame i = writes (\<lambda>t. update_game i (timed_out t))"

text \<open>
  Deleting a game cascades to its participants and problems and detaches its solutions, as the
  foreign keys of the migrations say.
\<close>

definition drop_game :: "int \<Rightarrow> database \<Rightarrow> database" where
  "drop_game i d =
     d\<lparr>d_games := del_where (\<lambda>g. g_ID g = i) (d_games d),
       d_participants := del_where (\<lambda>p. gp_GameID p = i) (d_participants d),
       d_game_problems := del_where (\<lambda>p. gpr_GameID p = i) (d_game_problems d),
       d_solutions := upd_where (\<lambda>s. sol_GameID s = Some i) (\<lambda>s. s\<lparr>sol_GameID := None\<rparr>)
                        (d_solutions d)\<rparr>"

definition qDeleteGame :: "int \<Rightarrow> ('z, int) op" where
  "qDeleteGame i = writes (\<lambda>t d.
     Inr (count_where (\<lambda>g. g_ID g = i) (d_games d), if game_exists i d then drop_game i d else d))"

section \<open>game_participants\<close>

definition add_participant :: "int \<Rightarrow> int \<Rightarrow> uuid \<Rightarrow> database \<Rightarrow> database" where
  "add_participant n i u d = d\<lparr>d_participants := d_participants d @
     [\<lparr>gp_ID = n, gp_GameID = i, gp_UserID = u, gp_CurrentProblemIndex = 0\<rparr>]\<rparr>"

definition drop_participant :: "int \<Rightarrow> uuid \<Rightarrow> database \<Rightarrow> database" where
  "drop_participant i u d = d\<lparr>d_participants :=
     del_where (\<lambda>p. gp_GameID p = i \<and> gp_UserID p = u) (d_participants d)\<rparr>"

definition advance_participant :: "int \<Rightarrow> uuid \<Rightarrow> database \<Rightarrow> database" where
  "advance_participant i u d = d\<lparr>d_participants :=
     upd_where (\<lambda>p. gp_GameID p = i \<and> gp_UserID p = u)
       (\<lambda>p. p\<lparr>gp_CurrentProblemIndex := gp_CurrentProblemIndex p + 1\<rparr>) (d_participants d)\<rparr>"

definition qAddGameParticipant :: "int \<Rightarrow> uuid \<Rightarrow> ('z, unit) op" where
  "qAddGameParticipant i u =
     inserts max_int4 seq_participants seq_participants_update (\<lambda>n r t d.
       if n \<in> gp_ID ` set (d_participants d) then Inl (PgError ''23505'' ''game_participants_pkey'')
       else if is_participant i u d then Inl (PgError ''23505'' ''game_participants_game_id_user_id_key'')
       else if \<not> game_exists i d then Inl (PgError ''23503'' ''game_participants_game_id_fkey'')
       else if \<not> user_exists u d then Inl (PgError ''23503'' ''game_participants_user_id_fkey'')
       else Inr ((), add_participant n i u d))"

definition qIsGameParticipant :: "int \<Rightarrow> uuid \<Rightarrow> ('z, bool) op" where
  "qIsGameParticipant i u = reads (\<lambda>d. Inr (is_participant i u d))"

definition qCountGameParticipants :: "int \<Rightarrow> ('z, int) op" where
  "qCountGameParticipants i =
     reads (\<lambda>d. Inr (count_where (\<lambda>p. gp_GameID p = i) (d_participants d)))"

definition qRemoveGameParticipant :: "int \<Rightarrow> uuid \<Rightarrow> ('z, int) op" where
  "qRemoveGameParticipant i u = writes (\<lambda>t d.
     Inr (count_where (\<lambda>p. gp_GameID p = i \<and> gp_UserID p = u) (d_participants d),
          drop_participant i u d))"

definition join_users :: "(game_participant \<Rightarrow> user \<Rightarrow> 'r) \<Rightarrow> database \<Rightarrow> game_participant list \<Rightarrow> 'r list" where
  "join_users row d ps =
     concat (map (\<lambda>p. map (row p) (filter (\<lambda>u. u_ID u = gp_UserID p) (d_users d))) ps)"

definition qGetParticipants :: "int \<Rightarrow> ('z, (uuid \<times> string option) list) op" where
  "qGetParticipants i = reads (\<lambda>d. Inr (join_users (\<lambda>p u. (gp_UserID p, u_Name u)) d
     (sort_key gp_ID (filter (\<lambda>p. gp_GameID p = i) (d_participants d)))))"

definition qGetParticipantsByGameIDs ::
  "int list \<Rightarrow> ('z, (int \<times> uuid \<times> string option) list) op" where
  "qGetParticipantsByGameIDs is = reads (\<lambda>d. Inr (
     join_users (\<lambda>p u. (gp_GameID p, gp_UserID p, u_Name u)) d
       (sort_key gp_GameID (sort_key gp_ID
          (filter (\<lambda>p. gp_GameID p \<in> set is) (d_participants d))))))"

definition find_participant :: "int \<Rightarrow> uuid \<Rightarrow> database \<Rightarrow> game_participant option" where
  "find_participant i u d =
     List.find (\<lambda>p. gp_GameID p = i \<and> gp_UserID p = u) (d_participants d)"

definition qGetParticipantProblemIndex :: "int \<Rightarrow> uuid \<Rightarrow> ('z, int) op" where
  "qGetParticipantProblemIndex i u = reads (\<lambda>d.
     one_row (map_option gp_CurrentProblemIndex (find_participant i u d)))"

definition qAdvanceParticipantProblem :: "int \<Rightarrow> uuid \<Rightarrow> ('z, int) op" where
  "qAdvanceParticipantProblem i u = writes (\<lambda>t d.
     case find_participant i u d of
       None \<Rightarrow> Inl ErrNoRows
     | Some p \<Rightarrow>
         if max_int4 < gp_CurrentProblemIndex p + 1 then Inl (PgError ''22003'' '''')
         else Inr (gp_CurrentProblemIndex p + 1, advance_participant i u d))"

definition qGetAllParticipantsProblemIndices :: "int \<Rightarrow> ('z, (uuid \<times> int) list) op" where
  "qGetAllParticipantsProblemIndices i = reads (\<lambda>d.
     Inr (map (\<lambda>p. (gp_UserID p, gp_CurrentProblemIndex p))
            (filter (\<lambda>p. gp_GameID p = i) (d_participants d))))"

section \<open>game_problems\<close>

definition version_exists :: "int \<Rightarrow> database \<Rightarrow> bool" where
  "version_exists v d \<longleftrightarrow> v \<in> pv_ID ` set (d_versions d)"

definition qAddGameProblem :: "int \<Rightarrow> int \<Rightarrow> string \<Rightarrow> int \<Rightarrow> ('z, unit) op" where
  "qAddGameProblem i idx slug ver = writes (\<lambda>t d.
     if \<not> (0 \<le> idx \<and> idx < 20) then Inl (PgError ''23514'' ''game_problems_problem_index_check'')
     else if (i, idx) \<in> (\<lambda>p. (gpr_GameID p, gpr_ProblemIndex p)) ` set (d_game_problems d)
       then Inl (PgError ''23505'' ''game_problems_pkey'')
     else if \<not> game_exists i d then Inl (PgError ''23503'' ''game_problems_game_id_fkey'')
     else if \<not> version_exists ver d
       then Inl (PgError ''23503'' ''game_problems_problem_version_id_fkey'')
     else Inr ((), d\<lparr>d_game_problems := d_game_problems d @
       [\<lparr>gpr_GameID = i, gpr_ProblemIndex = idx, gpr_ProblemID = slug,
         gpr_ProblemVersionID = ver\<rparr>]\<rparr>))"

definition game_problems_of :: "int \<Rightarrow> database \<Rightarrow> game_problem list" where
  "game_problems_of i d =
     sort_key gpr_ProblemIndex (filter (\<lambda>p. gpr_GameID p = i) (d_game_problems d))"

definition qGetGameProblemIDs :: "int \<Rightarrow> ('z, string list) op" where
  "qGetGameProblemIDs i = reads (\<lambda>d. Inr (map gpr_ProblemID (game_problems_of i d)))"

definition qGetGameProblemIDsByGameIDs :: "int list \<Rightarrow> ('z, (int \<times> string) list) op" where
  "qGetGameProblemIDsByGameIDs is = reads (\<lambda>d.
     Inr (map (\<lambda>p. (gpr_GameID p, gpr_ProblemID p))
       (sort_key gpr_GameID (sort_key gpr_ProblemIndex
          (filter (\<lambda>p. gpr_GameID p \<in> set is) (d_game_problems d))))))"

definition qCountGameProblems :: "int \<Rightarrow> ('z, int) op" where
  "qCountGameProblems i =
     reads (\<lambda>d. Inr (count_where (\<lambda>p. gpr_GameID p = i) (d_game_problems d)))"

definition find_game_problem :: "int \<Rightarrow> int \<Rightarrow> database \<Rightarrow> game_problem option" where
  "find_game_problem i idx d =
     List.find (\<lambda>p. gpr_GameID p = i \<and> gpr_ProblemIndex p = idx) (d_game_problems d)"

definition qGetGameProblemIDByIndex :: "int \<Rightarrow> int \<Rightarrow> ('z, string) op" where
  "qGetGameProblemIDByIndex i idx =
     reads (\<lambda>d. one_row (map_option gpr_ProblemID (find_game_problem i idx d)))"

definition qGetGameProblemByIndex :: "int \<Rightarrow> int \<Rightarrow> ('z, string \<times> int \<times> string) op" where
  "qGetGameProblemByIndex i idx = reads (\<lambda>d.
     one_row (Option.bind (find_game_problem i idx d) (\<lambda>p.
       map_option (\<lambda>v. (gpr_ProblemID p, gpr_ProblemVersionID p, pv_ArtifactPath v))
         (List.find (\<lambda>v. pv_ID v = gpr_ProblemVersionID p) (d_versions d)))))"

section \<open>Facts the services rely on\<close>

lemma new_game_sel [simp]:
  "g_ID (new_game n tok t c pub solo lim) = n" "g_CreatorID (new_game n tok t c pub solo lim) = c"
  "g_WinnerID (new_game n tok t c pub solo lim) = None"
  "g_Status (new_game n tok t c pub solo lim) = Pending"
  "g_StartedAt (new_game n tok t c pub solo lim) = None"
  "g_CompletedAt (new_game n tok t c pub solo lim) = None"
  "g_InviteToken (new_game n tok t c pub solo lim) = tok"
  "g_IsSolo (new_game n tok t c pub solo lim) = solo"
  "g_IsPublic (new_game n tok t c pub solo lim) = pub"
  by (simp_all add: new_game_def)

lemmas game_states = started_def completed_def cancelled_def timed_out_def

lemma game_state_keys [simp]:
  "g_ID (started t g) = g_ID g" "g_ID (completed t u g) = g_ID g"
  "g_ID (cancelled t g) = g_ID g" "g_ID (timed_out t g) = g_ID g"
  "g_CreatorID (started t g) = g_CreatorID g" "g_CreatorID (completed t u g) = g_CreatorID g"
  "g_CreatorID (cancelled t g) = g_CreatorID g" "g_CreatorID (timed_out t g) = g_CreatorID g"
  "g_InviteToken (started t g) = g_InviteToken g" "g_InviteToken (completed t u g) = g_InviteToken g"
  "g_InviteToken (cancelled t g) = g_InviteToken g" "g_InviteToken (timed_out t g) = g_InviteToken g"
  "g_IsSolo (started t g) = g_IsSolo g" "g_IsSolo (completed t u g) = g_IsSolo g"
  "g_IsSolo (cancelled t g) = g_IsSolo g" "g_IsSolo (timed_out t g) = g_IsSolo g"
  "g_IsPublic (started t g) = g_IsPublic g" "g_IsPublic (completed t u g) = g_IsPublic g"
  "g_IsPublic (cancelled t g) = g_IsPublic g" "g_IsPublic (timed_out t g) = g_IsPublic g"
  by (simp_all add: game_states)

lemma game_state_status [simp]:
  "g_Status (started t g) = Active" "g_Status (completed t u g) = Finished"
  "g_Status (cancelled t g) = Cancelled" "g_Status (timed_out t g) = Finished"
  by (simp_all add: game_states)

lemma set_game_frame [simp]:
  "d_users (set_game i f d) = d_users d" "d_participants (set_game i f d) = d_participants d"
  "d_game_problems (set_game i f d) = d_game_problems d" "d_problems (set_game i f d) = d_problems d"
  "d_versions (set_game i f d) = d_versions d" "d_sessions (set_game i f d) = d_sessions d"
  "d_codes (set_game i f d) = d_codes d" "d_solutions (set_game i f d) = d_solutions d"
  "d_games (set_game i f d) = upd_where (\<lambda>g. g_ID g = i) f (d_games d)"
  by (simp_all add: set_game_def)

lemma set_game_facts [simp]:
  "is_participant j u (set_game i f d) = is_participant j u d"
  "user_exists u (set_game i f d) = user_exists u d"
  by (simp_all add: is_participant_def user_exists_def)

lemma participant_frame [simp]:
  "d_users (add_participant n i u d) = d_users d" "d_games (add_participant n i u d) = d_games d"
  "d_game_problems (add_participant n i u d) = d_game_problems d"
  "d_users (drop_participant i u d) = d_users d" "d_games (drop_participant i u d) = d_games d"
  "d_game_problems (drop_participant i u d) = d_game_problems d"
  "d_users (advance_participant i u d) = d_users d"
  "d_games (advance_participant i u d) = d_games d"
  "d_game_problems (advance_participant i u d) = d_game_problems d"
  by (simp_all add: add_participant_def drop_participant_def advance_participant_def)

lemma find_game_SomeD: "find_game i d = Some g \<Longrightarrow> g \<in> set (d_games d) \<and> g_ID g = i"
  by (auto simp: find_game_def dest: find_SomeD)

lemma find_game_key: "find_game i d = Some g \<longleftrightarrow> i = g_ID g \<and> find_game (g_ID g) d = Some g"
  by (auto dest: find_game_SomeD)

lemma find_game_exists: "game_exists i d \<longleftrightarrow> find_game i d \<noteq> None"
  by (auto simp: game_exists_def find_game_def find_None_iff)

lemma find_game_cong: "d_games d' = d_games d \<Longrightarrow> find_game i d' = find_game i d"
  by (simp add: find_game_def)

lemma is_participant_cong:
  "d_participants d' = d_participants d \<Longrightarrow> is_participant i u d' = is_participant i u d"
  by (simp add: is_participant_def)

lemma find_game_set_game:
  assumes "\<And>g. g_ID (f g) = g_ID g"
  shows "find_game j (set_game i f d) =
     (if j = i then map_option f (find_game i d) else find_game j d)"
  using assms
  by (cases "find_game j d") (auto simp: find_game_def set_game_def find_upd_where dest: find_SomeD)

lemma find_game_append:
  "find_game j (d\<lparr>d_games := d_games d @ [g]\<rparr>) =
     (case find_game j d of Some h \<Rightarrow> Some h | None \<Rightarrow> if g_ID g = j then Some g else None)"
  by (auto simp: find_game_def find_append split: option.split)

lemma update_game_Inr [success]:
  "update_game i f d = Inr (g', d') \<longleftrightarrow>
     (\<exists>g. find_game i d = Some g \<and> g' = f g \<and> d' = set_game i f d)"
  by (auto simp: update_game_def split: option.splits)

lemma find_participant_SomeD:
  "find_participant i u d = Some p \<Longrightarrow>
     p \<in> set (d_participants d) \<and> gp_GameID p = i \<and> gp_UserID p = u"
  by (auto simp: find_participant_def dest: find_SomeD)

lemma is_participant_find: "is_participant i u d \<longleftrightarrow> find_participant i u d \<noteq> None"
  by (auto simp: is_participant_def find_participant_def find_None_iff)

lemma is_participant_add [simp]:
  "is_participant j v (add_participant n i u d) \<longleftrightarrow> is_participant j v d \<or> (j = i \<and> v = u)"
  by (auto simp: is_participant_def add_participant_def)

lemma is_participant_drop [simp]:
  "is_participant j v (drop_participant i u d) \<longleftrightarrow> is_participant j v d \<and> \<not> (j = i \<and> v = u)"
  by (auto simp: is_participant_def drop_participant_def)

lemma is_participant_keys:
  "is_participant j v d \<longleftrightarrow>
     (j, v) \<in> set (map (\<lambda>p. (gp_GameID p, gp_UserID p)) (d_participants d))"
  by (auto simp: is_participant_def)

lemma advance_keys [simp]:
  "map (\<lambda>p. (gp_GameID p, gp_UserID p)) (d_participants (advance_participant i u d)) =
     map (\<lambda>p. (gp_GameID p, gp_UserID p)) (d_participants d)"
  "map gp_ID (d_participants (advance_participant i u d)) = map gp_ID (d_participants d)"
  by (simp_all add: advance_participant_def map_upd_where)

lemma is_participant_advance [simp]:
  "is_participant j v (advance_participant i u d) = is_participant j v d"
  by (simp only: is_participant_keys advance_keys)

end
