(* ===== verification/Queries_Problems.thy ===== *)
theory Queries_Problems
  imports Queries_Games "HOL-Library.Product_Lexorder"
begin

text \<open>
  The statements of \<^verbatim>\<open>problems.sql\<close>, \<^verbatim>\<open>problem_versions.sql\<close> and \<^verbatim>\<open>solutions.sql\<close>, as the
  sqlc-generated methods run them. \<^verbatim>\<open>ILIKE\<close> is the server's pattern match: it is a parameter
  \<open>ilike\<close> of the listing queries, applied to the column and to the search text.
\<close>

section \<open>problems\<close>

definition find_problem :: "string \<Rightarrow> database \<Rightarrow> problem_row option" where
  "find_problem slug d = List.find (\<lambda>p. p_Slug p = slug) (d_problems d)"

definition find_problem_id :: "int \<Rightarrow> database \<Rightarrow> problem_row option" where
  "find_problem_id i d = List.find (\<lambda>p. p_ID p = i) (d_problems d)"

definition find_version :: "int \<Rightarrow> database \<Rightarrow> problem_version option" where
  "find_version i d = List.find (\<lambda>v. pv_ID v = i) (d_versions d)"

definition qGetProblemCatalogBySlug :: "string \<Rightarrow> ('z, problem_row) op" where
  "qGetProblemCatalogBySlug slug = reads (\<lambda>d. one_row (find_problem slug d))"

definition qCreateProblemCatalog ::
  "string \<Rightarrow> uuid option \<Rightarrow> string \<Rightarrow> string \<Rightarrow> string \<Rightarrow> ('z, problem_row) op" where
  "qCreateProblemCatalog slug owner visibility status title =
     inserts max_int8 seq_problems seq_problems_update (\<lambda>n r t d.
       let p = \<lparr>p_ID = n, p_Slug = slug, p_OwnerUserID = owner, p_Visibility = visibility,
                p_Status = status, p_Title = title, p_CurrentVersionID = None,
                p_CreatedAt = t, p_UpdatedAt = t\<rparr> in
       if visibility \<notin> {''public'', ''unlisted'', ''private''}
         then Inl (PgError ''23514'' ''problems_visibility_check'')
       else if status \<notin> {''published'', ''archived''}
         then Inl (PgError ''23514'' ''problems_status_check'')
       else if n \<in> p_ID ` set (d_problems d) then Inl (PgError ''23505'' ''problems_pkey'')
       else if slug \<in> p_Slug ` set (d_problems d) then Inl (PgError ''23505'' ''problems_slug_key'')
       else if opt_ex (\<lambda>u. \<not> user_exists u d) owner
         then Inl (PgError ''23503'' ''problems_owner_user_id_fkey'')
       else Inr (p, d\<lparr>d_problems := d_problems d @ [p]\<rparr>))"

definition qSetProblemCurrentVersion :: "int \<Rightarrow> int option \<Rightarrow> ('z, unit) op" where
  "qSetProblemCurrentVersion i ver = writes (\<lambda>t d.
     if find_problem_id i d \<noteq> None \<and> opt_ex (\<lambda>v. \<not> version_exists v d) ver
     then Inl (PgError ''23503'' ''fk_problems_current_version'')
     else Inr ((), d\<lparr>d_problems := upd_where (\<lambda>p. p_ID p = i)
            (\<lambda>p. p\<lparr>p_CurrentVersionID := ver, p_UpdatedAt := t\<rparr>) (d_problems d)\<rparr>))"

definition qUpdateProblemVisibility :: "int \<Rightarrow> string \<Rightarrow> ('z, unit) op" where
  "qUpdateProblemVisibility i visibility = writes (\<lambda>t d.
     if find_problem_id i d \<noteq> None \<and> visibility \<notin> {''public'', ''unlisted'', ''private''}
     then Inl (PgError ''23514'' ''problems_visibility_check'')
     else Inr ((), d\<lparr>d_problems := upd_where (\<lambda>p. p_ID p = i)
            (\<lambda>p. p\<lparr>p_Visibility := visibility, p_UpdatedAt := t\<rparr>) (d_problems d)\<rparr>))"

definition qLockProblemForUpdate :: "int \<Rightarrow> ('z, int) op" where
  "qLockProblemForUpdate i = reads (\<lambda>d. one_row (map_option p_ID (find_problem_id i d)))"

definition qCountUserProblems :: "uuid \<Rightarrow> ('z, int) op" where
  "qCountUserProblems u =
     reads (\<lambda>d. Inr (count_where (\<lambda>p. p_OwnerUserID p = Some u) (d_problems d)))"

definition public_listed :: "problem_row \<Rightarrow> bool" where
  "public_listed p \<longleftrightarrow> p_Status p = ''published'' \<and> p_Visibility p = ''public''"

definition matches_search :: "(string \<Rightarrow> string \<Rightarrow> bool) \<Rightarrow> string \<Rightarrow> problem_row \<Rightarrow> bool" where
  "matches_search ilike q p \<longleftrightarrow> q = '''' \<or> ilike (p_Title p) q \<or> ilike (p_Slug p) q"

definition with_current_version :: "database \<Rightarrow> problem_row list \<Rightarrow> (problem_row \<times> problem_version) list" where
  "with_current_version d ps =
     [(p, v). p \<leftarrow> ps, v \<leftarrow> d_versions d, p_CurrentVersionID p = Some (pv_ID v)]"

definition qListPublicProblemsSearch ::
  "(string \<Rightarrow> string \<Rightarrow> bool) \<Rightarrow> int \<Rightarrow> int \<Rightarrow> string \<Rightarrow> ('z, (problem_row \<times> problem_version) list) op" where
  "qListPublicProblemsSearch ilike lim off q = reads (\<lambda>d.
     limit_offset lim off (with_current_version d
       (sort_key (\<lambda>p. - p_CreatedAt p)
          (filter (\<lambda>p. public_listed p \<and> matches_search ilike q p) (d_problems d)))))"

definition qCountPublicProblems :: "(string \<Rightarrow> string \<Rightarrow> bool) \<Rightarrow> string \<Rightarrow> ('z, int) op" where
  "qCountPublicProblems ilike q = reads (\<lambda>d.
     Inr (count_where (\<lambda>p. public_listed p \<and> matches_search ilike q p) (d_problems d)))"

definition qListMyProblems ::
  "(string \<Rightarrow> string \<Rightarrow> bool) \<Rightarrow> uuid \<Rightarrow> string \<Rightarrow>
   ('z, (problem_row \<times> problem_version option) list) op" where
  "qListMyProblems ilike u q = reads (\<lambda>d.
     Inr (map (\<lambda>p. (p, Option.bind (p_CurrentVersionID p) (\<lambda>v. find_version v d)))
       (sort_key (\<lambda>p. - p_CreatedAt p)
         (filter (\<lambda>p. p_OwnerUserID p = Some u \<and> matches_search ilike q p) (d_problems d)))))"

definition qGetProblemWithArtifactBySlug :: "string \<Rightarrow> ('z, problem_row \<times> string) op" where
  "qGetProblemWithArtifactBySlug slug = reads (\<lambda>d.
     one_row (Option.bind (find_problem slug d) (\<lambda>p.
       Option.bind (p_CurrentVersionID p) (\<lambda>v.
         map_option (\<lambda>pv. (p, pv_ArtifactPath pv)) (find_version v d)))))"

section \<open>problem_versions\<close>

definition qCountProblemVersions :: "int \<Rightarrow> ('z, int) op" where
  "qCountProblemVersions i =
     reads (\<lambda>d. Inr (count_where (\<lambda>v. pv_ProblemID v = i) (d_versions d)))"

definition max_version :: "int \<Rightarrow> database \<Rightarrow> int" where
  "max_version i d =
     (case map pv_Version (filter (\<lambda>v. pv_ProblemID v = i) (d_versions d)) of
        [] \<Rightarrow> 0 | v # vs \<Rightarrow> foldl max v vs)"

definition qGetMaxProblemVersion :: "int \<Rightarrow> ('z, int) op" where
  "qGetMaxProblemVersion i = reads (\<lambda>d. Inr (max_version i d))"

record version_params =
  vp_ProblemID :: int
  vp_Version :: int
  vp_ArtifactPath :: string
  vp_ArtifactSha256 :: string
  vp_LimitsTimeMs :: int
  vp_LimitsMemoryKb :: int
  vp_CheckerType :: string
  vp_ReferenceLanguage :: string
  vp_CreatedByUserID :: "uuid option"
  vp_TestCaseCount :: int
  vp_Difficulty :: string

definition qCreateProblemVersion :: "version_params \<Rightarrow> ('z, problem_version) op" where
  "qCreateProblemVersion a =
     inserts max_int8 seq_versions seq_versions_update (\<lambda>n r t d.
       let v = \<lparr>pv_ID = n, pv_ProblemID = vp_ProblemID a, pv_Version = vp_Version a,
                pv_ArtifactPath = vp_ArtifactPath a, pv_ArtifactSha256 = vp_ArtifactSha256 a,
                pv_LimitsTimeMs = vp_LimitsTimeMs a, pv_LimitsMemoryKb = vp_LimitsMemoryKb a,
                pv_CheckerType = vp_CheckerType a, pv_ReferenceLanguage = vp_ReferenceLanguage a,
                pv_CreatedByUserID = vp_CreatedByUserID a, pv_CreatedAt = t,
                pv_TestCaseCount = vp_TestCaseCount a, pv_Difficulty = vp_Difficulty a\<rparr> in
       if \<not> 0 < vp_Version a then Inl (PgError ''23514'' ''problem_versions_version_check'')
       else if \<not> 0 < vp_LimitsTimeMs a
         then Inl (PgError ''23514'' ''problem_versions_limits_time_ms_check'')
       else if \<not> 0 < vp_LimitsMemoryKb a
         then Inl (PgError ''23514'' ''problem_versions_limits_memory_kb_check'')
       else if vp_CheckerType a \<notin> {''diff'', ''custom''}
         then Inl (PgError ''23514'' ''problem_versions_checker_type_check'')
       else if vp_ReferenceLanguage a \<notin> {''python'', ''go'', ''cpp'', ''java''}
         then Inl (PgError ''23514'' ''problem_versions_reference_language_check'')
       else if \<not> 0 \<le> vp_TestCaseCount a
         then Inl (PgError ''23514'' ''problem_versions_test_case_count_check'')
       else if vp_Difficulty a \<notin> {'''', ''easy'', ''medium'', ''hard''}
         then Inl (PgError ''23514'' ''problem_versions_difficulty_check'')
       else if n \<in> pv_ID ` set (d_versions d) then Inl (PgError ''23505'' ''problem_versions_pkey'')
       else if (vp_ProblemID a, vp_Version a) \<in> (\<lambda>v. (pv_ProblemID v, pv_Version v)) ` set (d_versions d)
         then Inl (PgError ''23505'' ''problem_versions_problem_id_version_key'')
       else if find_problem_id (vp_ProblemID a) d = None
         then Inl (PgError ''23503'' ''problem_versions_problem_id_fkey'')
       else if opt_ex (\<lambda>u. \<not> user_exists u d) (vp_CreatedByUserID a)
         then Inl (PgError ''23503'' ''problem_versions_created_by_user_id_fkey'')
       else Inr (v, d\<lparr>d_versions := d_versions d @ [v]\<rparr>))"

section \<open>solutions\<close>

text \<open>
  \<^verbatim>\<open>ON CONFLICT (user_id, game_id, problem_id) DO NOTHING\<close>: rows with a NULL game never conflict.
  The default of the primary key is evaluated before the conflict is found.
\<close>

definition qInsertSolution ::
  "uuid \<Rightarrow> string \<Rightarrow> int \<Rightarrow> int option \<Rightarrow> string \<Rightarrow> string \<Rightarrow> ('z, unit) op" where
  "qInsertSolution u prob ver gid code lang =
     inserts max_int4 seq_solutions seq_solutions_update (\<lambda>n r t d.
       let s = \<lparr>sol_ID = n, sol_UserID = u, sol_ProblemID = prob, sol_GameID = gid,
                sol_Code = code, sol_Language = lang, sol_Status = ''passed'',
                sol_ExecutionTime = None, sol_MemoryUsed = None, sol_CreatedAt = Some t,
                sol_UpdatedAt = Some t, sol_ProblemVersionID = ver\<rparr> in
       if 20 < length lang then Inl (PgError ''22001'' '''')
       else if gid \<noteq> None \<and> (\<exists>s' \<in> set (d_solutions d).
            sol_UserID s' = u \<and> sol_GameID s' = gid \<and> sol_ProblemID s' = prob) then Inr ((), d)
       else if n \<in> sol_ID ` set (d_solutions d) then Inl (PgError ''23505'' ''solutions_pkey'')
       else if \<not> user_exists u d then Inl (PgError ''23503'' ''solutions_user_id_fkey'')
       else if opt_ex (\<lambda>i. \<not> game_exists i d) gid
         then Inl (PgError ''23503'' ''solutions_game_id_fkey'')
       else if \<not> version_exists ver d
         then Inl (PgError ''23503'' ''solutions_problem_version_id_fkey'')
       else Inr ((), d\<lparr>d_solutions := d_solutions d @ [s]\<rparr>))"

definition qGetGameSolutions :: "int \<Rightarrow> ('z, (solution \<times> string \<times> string option) list) op" where
  "qGetGameSolutions i = reads (\<lambda>d.
     Inr [(s, u_Username u, u_Name u).
            s \<leftarrow> sort_key (\<lambda>s. case sol_CreatedAt s of None \<Rightarrow> (1::int, 0) | Some t \<Rightarrow> (0, t))
                  (filter (\<lambda>s. sol_GameID s = Some i \<and> sol_Status s = ''passed'') (d_solutions d)),
            u \<leftarrow> d_users d, u_ID u = sol_UserID s])"

section \<open>Facts the services rely on\<close>

lemma find_problem_SomeD: "find_problem s d = Some p \<Longrightarrow> p \<in> set (d_problems d) \<and> p_Slug p = s"
  by (auto simp: find_problem_def dest: find_SomeD)

lemma find_version_SomeD: "find_version i d = Some v \<Longrightarrow> v \<in> set (d_versions d) \<and> pv_ID v = i"
  by (auto simp: find_version_def dest: find_SomeD)

lemma foldl_max_start: "y \<le> x \<Longrightarrow> y \<le> foldl max x (xs :: int list)"
  by (induction xs arbitrary: x) auto

lemma foldl_max_ge: "v \<in> set (x # xs) \<Longrightarrow> v \<le> foldl max x (xs :: int list)"
  by (induction xs arbitrary: x) (auto intro: foldl_max_start)

lemma max_version_ge:
  "v \<in> set (d_versions d) \<Longrightarrow> pv_ProblemID v = i \<Longrightarrow> pv_Version v \<le> max_version i d"
proof -
  assume "v \<in> set (d_versions d)" "pv_ProblemID v = i"
  then have "pv_Version v \<in> set (map pv_Version (filter (\<lambda>v. pv_ProblemID v = i) (d_versions d)))"
    by auto
  then show ?thesis
    using foldl_max_ge by (auto simp: max_version_def simp del: set_map split: list.split)
qed

end
