(* ===== verification/Game_Service.thy ===== *)
theory Game_Service
  imports Queries_Problems
begin

text \<open>
  \<^verbatim>\<open>internal/service/game_service.go\<close>: every method of \<^verbatim>\<open>GameService\<close> over the queries, with its
  guards, its transaction and its error codes in the order of the code. Identifiers that arrive
  as Go \<^verbatim>\<open>int\<close> are truncated by \<^verbatim>\<open>int32(...)\<close> where the code does so. The laws of the locales
  \<open>game_play_law\<close>, \<open>accept_law\<close> and \<open>game_table_law\<close> name the row changes the service makes with
  the guards that hold when it makes them; an invariant of the tables that satisfies the laws is kept by every method.
\<close>

section \<open>The service\<close>

record participant =
  pt_ID :: uuid
  pt_Name :: "string option"

definition maxGameProblems :: nat where
  "maxGameProblems = 20"

definition resolveProblemVersion :: "uuid \<Rightarrow> string \<Rightarrow> ('z, int) op" where
  "resolveProblemVersion requesterID slug =
     bindE (mapErr (no_rows_to (New ErrProblemNotFound ''problem not found''))
              (qGetProblemCatalogBySlug slug)) (\<lambda>catalog.
     if p_Visibility catalog = ''private'' \<and> p_OwnerUserID catalog \<noteq> Some requesterID
     then throw (New ErrProblemNotFound ''problem not found'')
     else (case p_CurrentVersionID catalog of
             None \<Rightarrow> throw (New ErrProblemNotFound ''problem has no published version'')
           | Some v \<Rightarrow> ret v))"

definition CreateGame ::
  "uuid \<Rightarrow> string list \<Rightarrow> bool \<Rightarrow> bool \<Rightarrow> int option \<Rightarrow> ('z, game) op" where
  "CreateGame creatorID problemSlugs isPublic isSolo timeLimitMinutes =
     (if length problemSlugs = 0
        then throw (New ErrValidation ''at least one problem is required'')
      else if length problemSlugs > maxGameProblems
        then throw (New ErrValidation ''too many problems in game'')
      else if (\<exists>slug \<in> set problemSlugs. slug = '''')
        then throw (New ErrValidation ''problem slug cannot be empty'')
      else in_tx
        (bindE (qCreateGame creatorID isPublic isSolo timeLimitMinutes) (\<lambda>game.
         bindE (forE (enumerate 0 problemSlugs) (\<lambda>(idx, slug).
                  bindE (resolveProblemVersion creatorID slug) (\<lambda>versionID.
                  qAddGameProblem (g_ID game) (int32 (int idx)) slug versionID))) (\<lambda>_.
         bindE (qAddGameParticipant (g_ID game) creatorID) (\<lambda>_.
         ret game)))))"

definition getGameForUpdate :: "int \<Rightarrow> ('z, game) op" where
  "getGameForUpdate gid =
     mapErr (no_rows_to (New ErrGameNotFound ''game not found'')) (qGetGameForUpdate (int32 gid))"

definition JoinGame :: "int \<Rightarrow> uuid \<Rightarrow> ('z, game) op" where
  "JoinGame gameID userID = in_tx
     (bindE (getGameForUpdate gameID) (\<lambda>game.
      if g_Status game \<noteq> Pending then throw (New ErrGameAlreadyStarted ''game is not pending'')
      else bindE (qIsGameParticipant (g_ID game) userID) (\<lambda>already.
      if already then throw (New ErrAlreadyParticipant ''already a participant'')
      else bindE (qAddGameParticipant (g_ID game) userID) (\<lambda>_.
      ret game))))"

definition GetParticipants :: "int \<Rightarrow> ('z, participant list) op" where
  "GetParticipants gameID =
     bindE (qGetParticipants (int32 gameID)) (\<lambda>rows.
     ret (map (\<lambda>(u, name). \<lparr>pt_ID = u, pt_Name = name\<rparr>) rows))"

definition IsParticipant :: "int \<Rightarrow> uuid \<Rightarrow> ('z, bool) op" where
  "IsParticipant gameID userID = qIsGameParticipant (int32 gameID) userID"

text \<open>
  A Go map of slices with \<^verbatim>\<open>result[k] = append(result[k], v)\<close>: a total function, a missing key
  reading as the empty slice.
\<close>

definition append_all :: "('k \<times> 'v) list \<Rightarrow> 'k \<Rightarrow> 'v list" where
  "append_all rows = foldl (\<lambda>m (k, v). m(k := m k @ [v])) (\<lambda>_. []) rows"

definition GetParticipantsByGameIDs :: "int list \<Rightarrow> ('z, int \<Rightarrow> participant list) op" where
  "GetParticipantsByGameIDs gameIDs =
     bindE (qGetParticipantsByGameIDs gameIDs) (\<lambda>rows.
     ret (append_all (map (\<lambda>(i, u, name). (i, \<lparr>pt_ID = u, pt_Name = name\<rparr>)) rows)))"

definition GetGameProblemIDs :: "int \<Rightarrow> ('z, string list) op" where
  "GetGameProblemIDs gameID = qGetGameProblemIDs gameID"

definition GetGameProblemIDByIndex :: "int \<Rightarrow> int \<Rightarrow> ('z, string) op" where
  "GetGameProblemIDByIndex gameID problemIndex =
     mapErr (no_rows_to (New ErrGameNotFound ''game problem not found''))
       (qGetGameProblemIDByIndex gameID problemIndex)"

definition GetGameProblemByIndex :: "int \<Rightarrow> int \<Rightarrow> ('z, string \<times> int \<times> string) op" where
  "GetGameProblemByIndex gameID problemIndex =
     mapErr (no_rows_to (New ErrGameNotFound ''game problem not found''))
       (qGetGameProblemByIndex gameID problemIndex)"

definition GetGameProblemIDsByGameIDs :: "int list \<Rightarrow> ('z, int \<Rightarrow> string list) op" where
  "GetGameProblemIDsByGameIDs gameIDs =
     bindE (qGetGameProblemIDsByGameIDs gameIDs) (\<lambda>rows. ret (append_all rows))"

definition GetGame :: "int \<Rightarrow> ('z, game) op" where
  "GetGame gid =
     mapErr (no_rows_to (New ErrGameNotFound ''game not found'')) (qGetGameByID (int32 gid))"

definition CanAccessGame :: "game \<Rightarrow> uuid \<Rightarrow> ('z, unit) op" where
  "CanAccessGame game userID =
     (if g_IsPublic game then ret ()
      else bindE (qIsGameParticipant (g_ID game) userID) (\<lambda>ok.
      if \<not> ok then throw (New ErrNotParticipant ''not a participant'') else ret ()))"

definition GetGameByToken :: "uuid \<Rightarrow> ('z, game) op" where
  "GetGameByToken token =
     mapErr (no_rows_to (New ErrGameNotFound ''invalid invite token'')) (qGetGameByInviteToken token)"

definition JoinGameByToken :: "uuid \<Rightarrow> uuid \<Rightarrow> ('z, game) op" where
  "JoinGameByToken token userID =
     bindE (GetGameByToken token) (\<lambda>game. JoinGame (g_ID game) userID)"

definition clamp_limit :: "int \<Rightarrow> int" where
  "clamp_limit limit =
     (let limit = (if limit \<le> 0 then 10 else limit) in if limit > 100 then 100 else limit)"

definition ListGames :: "int \<Rightarrow> int \<Rightarrow> uuid \<Rightarrow> ('z, game list \<times> int) op" where
  "ListGames limit offset userID =
     (let limit = clamp_limit limit; offset = (if offset < 0 then 0 else offset) in
      bindE (qCountGamesForUser userID) (\<lambda>total.
      bindE (qListGamesForUser (int32 limit) (int32 offset) userID) (\<lambda>games.
      ret (games, total))))"

definition StartGame :: "int \<Rightarrow> uuid \<Rightarrow> ('z, game) op" where
  "StartGame gid userID = in_tx
     (bindE (getGameForUpdate gid) (\<lambda>game.
      if g_Status game \<noteq> Pending
        then throw (New ErrGameAlreadyStarted ''game already started or completed'')
      else if g_CreatorID game \<noteq> userID
        then throw (New ErrNotGameCreator ''only the game creator can start the game'')
      else bindE (qCountGameParticipants (g_ID game)) (\<lambda>count.
      if count < (if g_IsSolo game then 1 else 2)
        then throw (New ErrNotEnoughPlayers ''at least two players must join before starting'')
      else qStartGame (g_ID game))))"

definition HandleAcceptedSubmission :: "int \<Rightarrow> uuid \<Rightarrow> ('z, game \<times> bool) op" where
  "HandleAcceptedSubmission gid userID =
     bindE (mapErr (ErrWrap ''advance participant problem'')
              (qAdvanceParticipantProblem (int32 gid) userID)) (\<lambda>newIdx.
     bindE (qCountGameProblems (int32 gid)) (\<lambda>totalProblems.
     if totalProblems = 0 \<or> newIdx < totalProblems
     then bindE (qGetGameByID (int32 gid)) (\<lambda>game. ret (game, False))
     else in_tx
       (bindE (getGameForUpdate gid) (\<lambda>game.
        if g_Status game \<noteq> Active then throw ErrGameAlreadyFinished
        else let winnerID = (if g_IsSolo game then g_CreatorID game else userID) in
        bindE (qCompleteGame (g_ID game) (Some winnerID)) (\<lambda>updated.
        ret (updated, True))))))"

definition GetParticipantProblemIndex :: "int \<Rightarrow> uuid \<Rightarrow> ('z, int) op" where
  "GetParticipantProblemIndex gameID userID =
     mapErr (no_rows_to (New ErrNotParticipant ''not a participant''))
       (qGetParticipantProblemIndex (int32 gameID) userID)"

definition GetAllParticipantsProblemIndices :: "int \<Rightarrow> ('z, uuid \<rightharpoonup> int) op" where
  "GetAllParticipantsProblemIndices gameID =
     bindE (qGetAllParticipantsProblemIndices (int32 gameID)) (\<lambda>rows.
     ret (foldl (\<lambda>m (u, idx). m(u \<mapsto> idx)) Map.empty rows))"

definition completeGame :: "int \<Rightarrow> uuid \<Rightarrow> ('z, game) op" where
  "completeGame gid winnerID = in_tx
     (bindE (getGameForUpdate gid) (\<lambda>game.
      if g_Status game \<noteq> Active then throw (New ErrGameNotInProgress ''game is not in progress'')
      else bindE (qIsGameParticipant (g_ID game) winnerID) (\<lambda>ok.
      if \<not> ok then throw (New ErrInvalidWinner ''winner must be one of the players'')
      else qCompleteGame (g_ID game) (Some winnerID))))"

definition CompleteGameAsWinner :: "int \<Rightarrow> uuid \<Rightarrow> ('z, game) op" where
  "CompleteGameAsWinner gid winnerID = completeGame gid winnerID"

definition CompleteGame :: "int \<Rightarrow> uuid \<Rightarrow> uuid \<Rightarrow> ('z, game) op" where
  "CompleteGame gid callerID winnerID =
     bindE (GetGame gid) (\<lambda>game.
     if g_CreatorID game \<noteq> callerID
       then throw (New ErrNotGameCreator ''only the game creator can complete the game'')
     else completeGame gid winnerID)"

definition TimeoutGame :: "int \<Rightarrow> uuid \<Rightarrow> ('z, game) op" where
  "TimeoutGame gid userID =
     bindE (GetGame gid) (\<lambda>game.
     if \<not> g_IsSolo game
       then throw (New ErrValidation ''timeout is only allowed for solo games'')
     else if g_CreatorID game \<noteq> userID
       then throw (New ErrNotGameCreator ''only the game creator can timeout the game'')
     else if g_Status game \<noteq> Active
       then throw (New ErrGameNotInProgress ''game is not in progress'')
     else qTimeoutGame (g_ID game))"

definition CancelGame :: "int \<Rightarrow> uuid \<Rightarrow> ('z, game) op" where
  "CancelGame gid userID = in_tx
     (bindE (getGameForUpdate gid) (\<lambda>game.
      if g_CreatorID game \<noteq> userID
        then throw (New ErrNotGameCreator ''only the game creator can cancel the game'')
      else if g_Status game = Finished
        then throw (New ErrCannotCancelFinishedGame ''cannot cancel finished game'')
      else if g_Status game = Cancelled
        then throw (New ErrGameAlreadyCancelled ''game is already cancelled'')
      else qCancelGame (g_ID game)))"

definition LeaveGame :: "int \<Rightarrow> uuid \<Rightarrow> ('z, game) op" where
  "LeaveGame gameID userID = in_tx
     (bindE (getGameForUpdate gameID) (\<lambda>game.
      if g_Status game = Cancelled
        then throw (New ErrGameAlreadyCancelled ''cannot leave a cancelled game'')
      else if g_Status game \<noteq> Pending
        then throw (New ErrGameAlreadyStarted ''cannot leave a non-pending game'')
      else if g_CreatorID game = userID
        then throw (New ErrCreatorCannotLeave ''game creator cannot leave; cancel the game instead'')
      else bindE (qRemoveGameParticipant (g_ID game) userID) (\<lambda>rows.
      if rows = 0 then throw (New ErrNotParticipant ''not a participant of this game'')
      else ret game)))"

definition GetGameSolutions :: "int \<Rightarrow> ('z, (solution \<times> string \<times> string option) list) op" where
  "GetGameSolutions gameID =
     bindE (GetGame gameID) (\<lambda>game.
     if g_Status game \<noteq> Finished
       then throw (New ErrGameNotFinished ''solutions are only available after the game is finished'')
     else qGetGameSolutions (int32 gameID))"

definition DeleteGame :: "int \<Rightarrow> uuid \<Rightarrow> ('z, unit) op" where
  "DeleteGame gid userID =
     bindE (GetGame gid) (\<lambda>game.
     if g_CreatorID game \<noteq> userID
       then throw (New ErrNotGameCreator ''only the game creator can delete the game'')
     else bindE (qDeleteGame (int32 gid)) (\<lambda>rowsAff.
     if rowsAff = 0 then throw (New ErrGameNotFound ''game not found'') else ret ()))"

text \<open>
  The rows a successful \<^verbatim>\<open>CreateGame\<close> adds: the game, one row per problem with consecutive indices,
  and the creator as first participant.
\<close>

fun problem_rows :: "int \<Rightarrow> nat \<Rightarrow> string list \<Rightarrow> int list \<Rightarrow> game_problem list" where
  "problem_rows i k (s # ss) (v # vs) =
     \<lparr>gpr_GameID = i, gpr_ProblemIndex = int k, gpr_ProblemID = s, gpr_ProblemVersionID = v\<rparr>
     # problem_rows i (Suc k) ss vs"
| "problem_rows i k _ _ = []"

definition open_game :: "game \<Rightarrow> game_problem list \<Rightarrow> int \<Rightarrow> database \<Rightarrow> database" where
  "open_game g rows m d = add_participant m (g_ID g) (g_CreatorID g)
     (d\<lparr>d_games := d_games d @ [g], d_game_problems := d_game_problems d @ rows\<rparr>)"

definition resolves_to :: "uuid \<Rightarrow> database \<Rightarrow> string \<Rightarrow> int \<Rightarrow> bool" where
  "resolves_to u d slug v \<longleftrightarrow>
     (\<exists>p. find_problem slug d = Some p \<and> p_CurrentVersionID p = Some v \<and>
        (p_Visibility p = ''private'' \<longrightarrow> p_OwnerUserID p = Some u))"

section \<open>Facts about the operations\<close>

lemma table_frames [simp]:
  "resolves_to u (d\<lparr>d_games := gs\<rparr>) = resolves_to u d"
  "resolves_to u (d\<lparr>d_game_problems := ps\<rparr>) = resolves_to u d"
  "version_exists v (d\<lparr>d_games := gs\<rparr>) = version_exists v d"
  "version_exists v (d\<lparr>d_game_problems := ps\<rparr>) = version_exists v d"
  "user_exists u (d\<lparr>d_games := gs\<rparr>) = user_exists u d"
  "user_exists u (d\<lparr>d_game_problems := ps\<rparr>) = user_exists u d"
  "is_participant j u (d\<lparr>d_games := gs\<rparr>) = is_participant j u d"
  "is_participant j u (d\<lparr>d_game_problems := ps\<rparr>) = is_participant j u d"
  by (simp_all add: fun_eq_iff resolves_to_def find_problem_def version_exists_def
      user_exists_def is_participant_def)

lemma getGameForUpdate_Inr [success]:
  "getGameForUpdate gid w = (Inr g, w') \<longleftrightarrow>
     faults w (fpos w) = Fine \<and> int32 gid = g_ID g \<and> find_game (g_ID g) (db w) = Some g \<and>
     w' = w\<lparr>fpos := Suc (fpos w)\<rparr>"
  by (auto simp: getGameForUpdate_def qGetGameForUpdate_def success find_game_key [of "int32 gid"])

lemma GetGame_Inr [success]:
  "GetGame gid w = (Inr g, w') \<longleftrightarrow>
     faults w (fpos w) = Fine \<and> int32 gid = g_ID g \<and> find_game (g_ID g) (db w) = Some g \<and>
     w' = w\<lparr>fpos := Suc (fpos w)\<rparr>"
  by (auto simp: GetGame_def qGetGameByID_def success find_game_key [of "int32 gid"])

lemma resolveProblemVersion_Inr [success]:
  "resolveProblemVersion u slug w = (Inr v, w') \<longleftrightarrow>
     faults w (fpos w) = Fine \<and> resolves_to u (db w) slug v \<and> w' = w\<lparr>fpos := Suc (fpos w)\<rparr>"
  by (cases "find_problem slug (db w)"; cases "p_CurrentVersionID (the (find_problem slug (db w)))")
    (auto simp: resolveProblemVersion_def qGetProblemCatalogBySlug_def success resolves_to_def)

lemma qAddGameProblem_Inr [success]:
  "qAddGameProblem i idx slug ver w = (Inr (), w') \<longleftrightarrow>
     faults w (fpos w) = Fine \<and> 0 \<le> idx \<and> idx < 20 \<and>
     (i, idx) \<notin> (\<lambda>p. (gpr_GameID p, gpr_ProblemIndex p)) ` set (d_game_problems (db w)) \<and>
     game_exists i (db w) \<and> version_exists ver (db w) \<and>
     w' = w\<lparr>fpos := Suc (fpos w), db := (db w)\<lparr>d_game_problems := d_game_problems (db w) @
       [\<lparr>gpr_GameID = i, gpr_ProblemIndex = idx, gpr_ProblemID = slug,
         gpr_ProblemVersionID = ver\<rparr>]\<rparr>\<rparr>"
  by (simp add: qAddGameProblem_def writes_Inr) blast

lemma qAddGameParticipant_Inr [success]:
  "qAddGameParticipant i u w = (Inr (), w') \<longleftrightarrow>
     faults w (fpos w) = Fine \<and> seq_participants (seqs w) + 1 \<le> max_int4 \<and>
     seq_participants (seqs w) + 1 \<notin> gp_ID ` set (d_participants (db w)) \<and>
     \<not> is_participant i u (db w) \<and> game_exists i (db w) \<and> user_exists u (db w) \<and>
     w' = w\<lparr>fpos := Suc (fpos w),
            seqs := (seqs w)\<lparr>seq_participants := seq_participants (seqs w) + 1\<rparr>,
            rpos := Suc (rpos w),
            db := add_participant (seq_participants (seqs w) + 1) i u (db w)\<rparr>"
  by (auto simp: qAddGameParticipant_def success split: if_splits)

lemma qCreateGame_Inr [success]:
  "qCreateGame u pub solo lim w = (Inr g, w') \<longleftrightarrow>
     faults w (fpos w) = Fine \<and> seq_games (seqs w) + 1 \<le> max_int4 \<and>
     \<not> game_exists (seq_games (seqs w) + 1) (db w) \<and>
     rng w (rpos w) \<notin> g_InviteToken ` set (d_games (db w)) \<and> user_exists u (db w) \<and>
     g = new_game (seq_games (seqs w) + 1) (rng w (rpos w)) (now w) u pub solo lim \<and>
     w' = w\<lparr>fpos := Suc (fpos w), seqs := (seqs w)\<lparr>seq_games := seq_games (seqs w) + 1\<rparr>,
            rpos := Suc (rpos w), db := (db w)\<lparr>d_games := d_games (db w) @ [g]\<rparr>\<rparr>"
  by (auto simp: qCreateGame_def success Let_def split: if_splits)

lemma forE_problems_Inr:
  assumes "forE (enumerate k slugs) (\<lambda>(idx, slug).
      bindE (resolveProblemVersion u slug) (\<lambda>ver. qAddGameProblem i (int32 (int idx)) slug ver)) w
      = (Inr (), w')"
    and "k + length slugs \<le> 20"
  shows "\<exists>vers. list_all2 (resolves_to u (db w)) slugs vers \<and>
      (\<forall>v \<in> set vers. version_exists v (db w)) \<and>
      db w' = (db w)\<lparr>d_game_problems := d_game_problems (db w) @ problem_rows i k slugs vers\<rparr> \<and>
      seqs w' = seqs w \<and> faults w' = faults w \<and> rng w' = rng w \<and> now w' = now w \<and> rpos w' = rpos w"
  using assms
proof (induction slugs arbitrary: k w)
  case Nil
  then show ?case by (simp add: success)
next
  case (Cons s ss)
  have idx: "int32 (int k) = int k" using Cons.prems(2) by (simp add: wrap_int_id)
  from Cons.prems(1) obtain v where
    v: "resolves_to u (db w) s v" "version_exists v (db w)" and
    rest: "forE (enumerate (Suc k) ss) (\<lambda>(idx, slug).
      bindE (resolveProblemVersion u slug) (\<lambda>ver. qAddGameProblem i (int32 (int idx)) slug ver))
      (w\<lparr>fpos := Suc (Suc (fpos w)), db := (db w)\<lparr>d_game_problems := d_game_problems (db w) @
         [\<lparr>gpr_GameID = i, gpr_ProblemIndex = int k, gpr_ProblemID = s,
           gpr_ProblemVersionID = v\<rparr>]\<rparr>\<rparr>) = (Inr (), w')"
    by (auto simp: success idx)
  define w1 where "w1 = w\<lparr>fpos := Suc (Suc (fpos w)), db := (db w)\<lparr>d_game_problems :=
     d_game_problems (db w) @ [\<lparr>gpr_GameID = i, gpr_ProblemIndex = int k, gpr_ProblemID = s,
       gpr_ProblemVersionID = v\<rparr>]\<rparr>\<rparr>"
  then have w1: "db w1 = (db w)\<lparr>d_game_problems := d_game_problems (db w) @
       [\<lparr>gpr_GameID = i, gpr_ProblemIndex = int k, gpr_ProblemID = s, gpr_ProblemVersionID = v\<rparr>]\<rparr>"
      "seqs w1 = seqs w" "faults w1 = faults w" "rng w1 = rng w" "now w1 = now w" "rpos w1 = rpos w"
    by simp_all
  note rest = rest [folded w1_def]
  have same: "resolves_to u (db w1) = resolves_to u (db w)"
    "version_exists x (db w1) = version_exists x (db w)" for x
    by (simp_all add: w1)
  from Cons.IH [OF rest] Cons.prems(2) obtain vs where
    "list_all2 (resolves_to u (db w)) ss vs" "\<forall>v \<in> set vs. version_exists v (db w)"
    "db w' = (db w1)\<lparr>d_game_problems := d_game_problems (db w1) @ problem_rows i (Suc k) ss vs\<rparr>"
    "seqs w' = seqs w1" "faults w' = faults w1" "rng w' = rng w1" "now w' = now w1" "rpos w' = rpos w1"
    by (auto simp: same)
  with v w1 show ?case by (intro exI [of _ "v # vs"]) auto
qed

text \<open>What the body of a successful \<^verbatim>\<open>CreateGame\<close> did.\<close>

abbreviation create_body ::
  "uuid \<Rightarrow> string list \<Rightarrow> bool \<Rightarrow> bool \<Rightarrow> int option \<Rightarrow> ('z, game) op" where
  "create_body u slugs pub solo lim \<equiv>
     bindE (qCreateGame u pub solo lim) (\<lambda>game.
     bindE (forE (enumerate 0 slugs) (\<lambda>(idx, slug).
              bindE (resolveProblemVersion u slug) (\<lambda>versionID.
              qAddGameProblem (g_ID game) (int32 (int idx)) slug versionID))) (\<lambda>_.
     bindE (qAddGameParticipant (g_ID game) u) (\<lambda>_.
     ret game)))"

definition opened :: "uuid \<Rightarrow> string list \<Rightarrow> game \<Rightarrow> database \<Rightarrow> database \<Rightarrow> bool" where
  "opened u slugs g d d' \<longleftrightarrow>
     user_exists u d \<and> \<not> game_exists (g_ID g) d \<and> g_InviteToken g \<notin> g_InviteToken ` set (d_games d) \<and>
     (\<exists>vers m. list_all2 (resolves_to u d) slugs vers \<and> (\<forall>v \<in> set vers. version_exists v d) \<and>
        m \<notin> gp_ID ` set (d_participants d) \<and> \<not> is_participant (g_ID g) u d \<and>
        d' = open_game g (problem_rows (g_ID g) 0 slugs vers) m d)"

lemma create_body_Inr:
  assumes run: "create_body u slugs pub solo lim w = (Inr g, w')"
    and len: "length slugs \<le> maxGameProblems"
  shows "opened u slugs g (db w) (db w') \<and> (\<exists>n tok. g = new_game n tok (now w) u pub solo lim)"
proof -
  let ?g = "new_game (seq_games (seqs w) + 1) (rng w (rpos w)) (now w) u pub solo lim"
  let ?w1 = "w\<lparr>fpos := Suc (fpos w), seqs := (seqs w)\<lparr>seq_games := seq_games (seqs w) + 1\<rparr>,
            rpos := Suc (rpos w), db := (db w)\<lparr>d_games := d_games (db w) @ [?g]\<rparr>\<rparr>"
  from run have g: "g = ?g" and new: "\<not> game_exists (g_ID ?g) (db w)"
    "g_InviteToken ?g \<notin> g_InviteToken ` set (d_games (db w))" "user_exists u (db w)"
    by (auto simp: success)
  from run obtain w2 where
    loop: "forE (enumerate 0 slugs) (\<lambda>(idx, slug). bindE (resolveProblemVersion u slug)
        (\<lambda>v. qAddGameProblem (g_ID ?g) (int32 (int idx)) slug v)) ?w1 = (Inr (), w2)"
    and last: "qAddGameParticipant (g_ID ?g) u w2 = (Inr (), w')"
    by (auto simp: bindE_Inr ret_iff qCreateGame_Inr simp del: new_game_sel)
  from forE_problems_Inr [OF loop] len obtain vers where
    "list_all2 (resolves_to u (db w)) slugs vers" "\<forall>v \<in> set vers. version_exists v (db w)"
    "db w2 = (db w)\<lparr>d_games := d_games (db w) @ [?g], d_game_problems :=
       d_game_problems (db w) @ problem_rows (g_ID ?g) 0 slugs vers\<rparr>"
    by (auto simp: maxGameProblems_def)
  with last g new show ?thesis
    by (auto simp: opened_def success open_game_def)
qed

lemma qCompleteGame_Inr [success]:
  "qCompleteGame i (Some u) w = (Inr g', w') \<longleftrightarrow>
     faults w (fpos w) = Fine \<and> user_exists u (db w) \<and>
     (\<exists>g. find_game i (db w) = Some g \<and> g' = completed (now w) (Some u) g) \<and>
     w' = w\<lparr>fpos := Suc (fpos w), db := set_game i (completed (now w) (Some u)) (db w)\<rparr>"
  by (auto simp: qCompleteGame_def success split: if_splits)

lemma qIsGameParticipant_Inr [success]:
  "qIsGameParticipant i u w = (Inr b, w') \<longleftrightarrow>
     faults w (fpos w) = Fine \<and> b = is_participant i u (db w) \<and> w' = w\<lparr>fpos := Suc (fpos w)\<rparr>"
  by (auto simp: qIsGameParticipant_def success)

lemma find_game_ID [dest]: "find_game i d = Some g \<Longrightarrow> g_ID g = i"
  by (simp add: find_game_SomeD)

lemma count_participant_zero:
  "count_where (\<lambda>p. gp_GameID p = i \<and> gp_UserID p = u) (d_participants d) = 0 \<longleftrightarrow>
     \<not> is_participant i u d"
  by (auto simp: count_where_zero is_participant_def)

section \<open>What a method does to the tables\<close>

text \<open>
  The row changes of the service, each with the guards that hold when it is made. The first
  argument of an event is the game, the second the user who acts (the winner of \<open>EComplete\<close>).
\<close>

datatype game_event =
  EOpen int uuid "string list" bool
| EJoin int uuid
| ELeave int uuid
| EStart int uuid
| EAdvance int uuid
| EComplete int uuid
| ECancel int uuid
| ETimeout int uuid
| EDelete int uuid

inductive row_step :: "game_event \<Rightarrow> database \<Rightarrow> database \<Rightarrow> bool" where
  step_open: "slugs \<noteq> [] \<Longrightarrow> length slugs \<le> maxGameProblems \<Longrightarrow> '''' \<notin> set slugs \<Longrightarrow>
    g = new_game n tok t u pub solo lim \<Longrightarrow> opened u slugs g d d' \<Longrightarrow>
    row_step (EOpen n u slugs solo) d d'"
| step_join: "find_game i d = Some g \<Longrightarrow> g_Status g = Pending \<Longrightarrow> \<not> is_participant i u d \<Longrightarrow>
    user_exists u d \<Longrightarrow> m \<notin> gp_ID ` set (d_participants d) \<Longrightarrow>
    row_step (EJoin i u) d (add_participant m i u d)"
| step_leave: "find_game i d = Some g \<Longrightarrow> g_Status g = Pending \<Longrightarrow> g_CreatorID g \<noteq> u \<Longrightarrow>
    is_participant i u d \<Longrightarrow> row_step (ELeave i u) d (drop_participant i u d)"
| step_start: "find_game i d = Some g \<Longrightarrow> g_Status g = Pending \<Longrightarrow> g_CreatorID g = u \<Longrightarrow>
    (if g_IsSolo g then 1 else 2) \<le> count_where (\<lambda>p. gp_GameID p = i) (d_participants d) \<Longrightarrow>
    row_step (EStart i u) d (set_game i (started t) d)"
| step_advance: "is_participant i u d \<Longrightarrow> row_step (EAdvance i u) d (advance_participant i u d)"
| step_complete: "find_game i d = Some g \<Longrightarrow> g_Status g = Active \<Longrightarrow>
    is_participant i u d \<or> g_IsSolo g \<and> u = g_CreatorID g \<Longrightarrow> user_exists u d \<Longrightarrow>
    row_step (EComplete i u) d (set_game i (completed t (Some u)) d)"
| step_cancel: "find_game i d = Some g \<Longrightarrow> g_Status g = Pending \<or> g_Status g = Active \<Longrightarrow>
    g_CreatorID g = u \<Longrightarrow> row_step (ECancel i u) d (set_game i (cancelled t) d)"
| step_timeout: "find_game i d = Some g \<Longrightarrow> g_Status g = Active \<Longrightarrow> g_IsSolo g \<Longrightarrow>
    g_CreatorID g = u \<Longrightarrow> row_step (ETimeout i u) d (set_game i (timed_out t) d)"
| step_delete: "find_game i d = Some g \<Longrightarrow> g_CreatorID g = u \<Longrightarrow>
    row_step (EDelete i u) d (drop_game i d)"

inductive_cases row_step_openE: "row_step (EOpen n u slugs solo) d d'"
inductive_cases row_step_joinE: "row_step (EJoin i u) d d'"
inductive_cases row_step_completeE: "row_step (EComplete i u) d d'"

fun row_run :: "game_event list \<Rightarrow> database \<Rightarrow> database \<Rightarrow> bool" where
  "row_run [] d d' \<longleftrightarrow> d' = d"
| "row_run (e # es) d d' \<longleftrightarrow> (\<exists>d1. row_step e d d1 \<and> row_run es d1 d')"

definition performs :: "game_event list set \<Rightarrow> ('z, 'a) op \<Rightarrow> bool" where
  "performs E m \<longleftrightarrow> (\<forall>w. wp m (\<lambda>_ w'. \<exists>es \<in> E. row_run es (db w) (db w')) w)"

lemma performsD: "performs E m \<Longrightarrow> m w = (r, w') \<Longrightarrow> \<exists>es \<in> E. row_run es (db w) (db w')"
  unfolding performs_def by (blast dest: wpD)

lemma performs_in_tx:
  assumes "\<And>w a w'. body w = (Inr a, w') \<Longrightarrow> row_step e (db w) (db w')"
  shows "performs {[], [e]} (in_tx body)"
  unfolding performs_def
proof (intro allI wp_in_tx)
  fix w v :: "'a world_scheme" and a w'
  assume "db v = db w" "body v = (Inr a, w')"
  with assms [of v a w'] show "\<exists>es \<in> {[], [e]}. row_run es (db w) (db w')" by simp
qed simp

lemma performs_bind_reads:
  assumes "[] \<in> E"
    and "\<And>a. performs E (k a)"
  shows "performs E (bindE (mapErr h (reads f)) k)"
  unfolding performs_def
proof (intro allI wp_bind_reads)
  fix w v :: "'b world_scheme" and a assume "db v = db w"
  then show "wp (k a) (\<lambda>_ w'. \<exists>es \<in> E. row_run es (db w) (db w')) v"
    using assms(2) [of a] unfolding performs_def by metis
qed (use assms(1) in \<open>auto intro: bexI [of _ "[]"]\<close>)

lemma performs_throw: "[] \<in> E \<Longrightarrow> performs E (throw e)"
  by (auto simp: performs_def wps intro: bexI [of _ "[]"])

lemma performs_if: "performs E m \<Longrightarrow> performs E n \<Longrightarrow> performs E (if b then m else n)"
  by simp

lemma performs_mono: "performs E m \<Longrightarrow> E \<subseteq> F \<Longrightarrow> performs F m"
  unfolding performs_def by (blast intro: wp_mono)

lemma CreateGame_performs:
  "performs (insert [] {[EOpen n u slugs solo] | n. True}) (CreateGame u slugs pub solo lim :: ('z, game) op)"
proof (cases "slugs \<noteq> [] \<and> length slugs \<le> maxGameProblems \<and> '''' \<notin> set slugs")
  case True
  let ?E = "insert [] {[EOpen n u slugs solo] | n. True}"
  have "wp (in_tx (create_body u slugs pub solo lim)) (\<lambda>_ w'. \<exists>es \<in> ?E. row_run es (db w) (db w')) w"
    for w :: "'z world_scheme"
  proof (rule wp_in_tx)
    fix v w' :: "'z world_scheme" and a
    assume v: "db v = db w" "create_body u slugs pub solo lim v = (Inr a, w')"
    with True create_body_Inr [OF v(2)] obtain n tok where
      "a = new_game n tok (now v) u pub solo lim" "opened u slugs a (db w) (db w')" by auto
    with True have "row_step (EOpen n u slugs solo) (db w) (db w')" by (blast intro: step_open)
    then show "\<exists>es \<in> ?E. row_run es (db w) (db w')" by auto
  qed simp
  moreover have "(CreateGame u slugs pub solo lim :: ('z, game) op) = in_tx (create_body u slugs pub solo lim)"
    using True by (simp add: CreateGame_def)
  ultimately show ?thesis by (simp add: performs_def)
next
  case False
  then have "\<exists>e. (CreateGame u slugs pub solo lim :: ('z, game) op) = throw e"
    by (auto simp: CreateGame_def)
  then obtain e where "(CreateGame u slugs pub solo lim :: ('z, game) op) = throw e" ..
  then show ?thesis by (simp only: performs_throw insertI1)
qed

lemma JoinGame_performs: "performs {[], [EJoin (int32 gid) u]} (JoinGame gid u)"
  unfolding JoinGame_def
  by (rule performs_in_tx) (auto simp: success split: if_splits intro!: step_join)

lemma LeaveGame_performs: "performs {[], [ELeave (int32 gid) u]} (LeaveGame gid u)"
  unfolding LeaveGame_def
  by (rule performs_in_tx) (auto simp: success qRemoveGameParticipant_def count_participant_zero
      split: if_splits intro!: step_leave)

lemma StartGame_performs: "performs {[], [EStart (int32 gid) u]} (StartGame gid u)"
  unfolding StartGame_def
  by (rule performs_in_tx) (auto simp: success qCountGameParticipants_def qStartGame_def
      split: if_splits intro!: step_start)

lemma CancelGame_performs: "performs {[], [ECancel (int32 gid) u]} (CancelGame gid u)"
  unfolding CancelGame_def
  by (rule performs_in_tx) (auto simp: success qCancelGame_def split: if_splits
      intro!: step_cancel intro: game_status.exhaust)

lemma completeGame_performs: "performs {[], [EComplete (int32 gid) u]} (completeGame gid u)"
  unfolding completeGame_def
  by (rule performs_in_tx) (auto simp: success split: if_splits intro!: step_complete)

lemma CompleteGame_performs:
  "performs {[], [EComplete (int32 gid) u]} (CompleteGame gid caller u)"
  unfolding CompleteGame_def GetGame_def qGetGameByID_def
  by (intro performs_bind_reads performs_if performs_throw completeGame_performs) simp_all

lemma JoinGameByToken_effect:
  "wp (JoinGameByToken tok u) (\<lambda>_ w'. db w' = db w \<or> (\<exists>g \<in> set (d_games (db w)).
     g_InviteToken g = tok \<and> row_step (EJoin (int32 (g_ID g)) u) (db w) (db w'))) w"
  unfolding JoinGameByToken_def GetGameByToken_def qGetGameByInviteToken_def
proof (rule wp_bind_reads(2))
  fix g v
  assume v: "db v = db w"
    and g: "one_row (List.find (\<lambda>g. g_InviteToken g = tok) (d_games (db w))) = Inr g"
  have "g \<in> set (d_games (db w)) \<and> g_InviteToken g = tok"
    using g by (auto simp: success dest: find_SomeD)
  moreover have "wp (JoinGame (g_ID g) u) (\<lambda>_ w'. \<exists>es \<in> {[], [EJoin (int32 (g_ID g)) u]}.
      row_run es (db w) (db w')) v"
    using JoinGame_performs [of "g_ID g" u] unfolding performs_def v [symmetric] by blast
  ultimately show "wp (JoinGame (g_ID g) u) (\<lambda>_ w'. db w' = db w \<or> (\<exists>g \<in> set (d_games (db w)).
     g_InviteToken g = tok \<and> row_step (EJoin (int32 (g_ID g)) u) (db w) (db w'))) v"
    by (auto elim!: wp_mono)
qed simp

lemma JoinGameByToken_performs:
  "performs (insert [] {[EJoin i u] | i. True}) (JoinGameByToken tok u)"
  unfolding performs_def
  by (intro allI wp_mono [OF JoinGameByToken_effect]) fastforce

lemma TimeoutGame_performs: "performs {[], [ETimeout (int32 gid) u]} (TimeoutGame gid u)"
  unfolding TimeoutGame_def GetGame_def qGetGameByID_def qTimeoutGame_def performs_def
  by (intro allI wp_bind_reads)
    (auto simp: success wps find_game_key [of "int32 gid"] intro!: wp_writes_keep step_timeout)

lemma DeleteGame_performs: "performs {[], [EDelete (int32 gid) u]} (DeleteGame gid u)"
  unfolding DeleteGame_def GetGame_def qGetGameByID_def qDeleteGame_def performs_def
  by (intro allI wp_bind_reads)
    (auto simp: success wp_throw find_game_key [of "int32 gid"]
      intro!: wp_bind_keeps wp_writes_keep keeps_if keeps_throw keeps_ret step_delete)

text \<open>
  Between the advance and the completion the caller stays a participant, which is what makes him
  an admissible winner.
\<close>

lemma accepted_tail_effect:
  assumes player: "is_participant (int32 gid) u (db w)"
  shows "wp (bindE (qCountGameProblems (int32 gid)) (\<lambda>totalProblems.
     if totalProblems = 0 \<or> newIdx < totalProblems
     then bindE (qGetGameByID (int32 gid)) (\<lambda>game. ret (game, False))
     else in_tx
       (bindE (getGameForUpdate gid) (\<lambda>game.
        if g_Status game \<noteq> Active then throw ErrGameAlreadyFinished
        else let winnerID = (if g_IsSolo game then g_CreatorID game else u) in
        bindE (qCompleteGame (g_ID game) (Some winnerID)) (\<lambda>updated.
        ret (updated, True))))))
     (\<lambda>_ w'. db w' = db w \<or> (\<exists>v. row_step (EComplete (int32 gid) v) (db w) (db w'))) w"
  unfolding qCountGameProblems_def qGetGameByID_def using player
  by (intro wp_bind_reads)
    (auto simp: wps split: fault.split sum.split
      intro!: wp_in_tx [where P = "\<lambda>d. d = db w \<or> (\<exists>v. row_step (EComplete (int32 gid) v) (db w) d)"],
     auto simp: success Let_def split: if_splits intro!: step_complete)

lemma HandleAcceptedSubmission_performs:
  "performs ({[], [EAdvance (int32 gid) u]} \<union>
     {[EAdvance (int32 gid) u, EComplete (int32 gid) v] | v. True}) (HandleAcceptedSubmission gid u)"
  (is "performs ?E _")
  unfolding performs_def
proof (intro allI wpI)
  fix w r w' assume run: "HandleAcceptedSubmission gid u w = (r, w')"
  obtain r1 w1 where first: "qAdvanceParticipantProblem (int32 gid) u w = (r1, w1)"
    by fastforce
  have adv: "db w1 = db w \<and> (\<exists>e. r1 = Inl e) \<or>
      is_participant (int32 gid) u (db w) \<and> db w1 = advance_participant (int32 gid) u (db w)"
    using first
    by (auto simp: qAdvanceParticipantProblem_def writes_def roundtrip_def Let_def is_participant_find
        split: fault.splits option.splits if_splits sum.splits)
  show "\<exists>es \<in> ?E. row_run es (db w) (db w')"
  proof (cases r1)
    case (Inl e)
    with first run have "w' = w1"
      by (auto simp: HandleAcceptedSubmission_def mapErr_def bindE_def tryE_def throw_def)
    with adv show ?thesis by (auto intro: step_advance)
  next
    case (Inr newIdx)
    with adv have player: "is_participant (int32 gid) u (db w1)"
      and step: "row_step (EAdvance (int32 gid) u) (db w) (db w1)"
      by (auto intro: step_advance)
    from first run Inr wpD [OF accepted_tail_effect [OF player]]
    have "db w' = db w1 \<or> (\<exists>v. row_step (EComplete (int32 gid) v) (db w1) (db w'))"
      by (fastforce simp: HandleAcceptedSubmission_def mapErr_def bindE_def tryE_def ret_def)
    with step show ?thesis by fastforce
  qed
qed

section \<open>Calls\<close>

text \<open>The methods of \<^verbatim>\<open>GameService\<close> that change the tables, as one type of calls.\<close>

datatype game_call =
  CallCreate uuid "string list" bool bool "int option"
| CallJoin int uuid
| CallJoinByToken uuid uuid
| CallLeave int uuid
| CallStart int uuid
| CallAccepted int uuid
| CallComplete int uuid uuid
| CallCompleteAsWinner int uuid
| CallCancel int uuid
| CallTimeout int uuid
| CallDelete int uuid

fun run_call :: "game_call \<Rightarrow> ('z, unit) op" where
  "run_call (CallCreate u slugs pub solo lim) = bindE (CreateGame u slugs pub solo lim) (\<lambda>_. ret ())"
| "run_call (CallJoin gid u) = bindE (JoinGame gid u) (\<lambda>_. ret ())"
| "run_call (CallJoinByToken tok u) = bindE (JoinGameByToken tok u) (\<lambda>_. ret ())"
| "run_call (CallLeave gid u) = bindE (LeaveGame gid u) (\<lambda>_. ret ())"
| "run_call (CallStart gid u) = bindE (StartGame gid u) (\<lambda>_. ret ())"
| "run_call (CallAccepted gid u) = bindE (HandleAcceptedSubmission gid u) (\<lambda>_. ret ())"
| "run_call (CallComplete gid c u) = bindE (CompleteGame gid c u) (\<lambda>_. ret ())"
| "run_call (CallCompleteAsWinner gid u) = bindE (CompleteGameAsWinner gid u) (\<lambda>_. ret ())"
| "run_call (CallCancel gid u) = bindE (CancelGame gid u) (\<lambda>_. ret ())"
| "run_call (CallTimeout gid u) = bindE (TimeoutGame gid u) (\<lambda>_. ret ())"
| "run_call (CallDelete gid u) = DeleteGame gid u"

fun call_events :: "game_call \<Rightarrow> game_event list set" where
  "call_events (CallCreate u slugs pub solo lim) = insert [] {[EOpen n u slugs solo] | n. True}"
| "call_events (CallJoin gid u) = {[], [EJoin (int32 gid) u]}"
| "call_events (CallJoinByToken tok u) = insert [] {[EJoin i u] | i. True}"
| "call_events (CallLeave gid u) = {[], [ELeave (int32 gid) u]}"
| "call_events (CallStart gid u) = {[], [EStart (int32 gid) u]}"
| "call_events (CallAccepted gid u) = {[], [EAdvance (int32 gid) u]} \<union>
     {[EAdvance (int32 gid) u, EComplete (int32 gid) v] | v. True}"
| "call_events (CallComplete gid c u) = {[], [EComplete (int32 gid) u]}"
| "call_events (CallCompleteAsWinner gid u) = {[], [EComplete (int32 gid) u]}"
| "call_events (CallCancel gid u) = {[], [ECancel (int32 gid) u]}"
| "call_events (CallTimeout gid u) = {[], [ETimeout (int32 gid) u]}"
| "call_events (CallDelete gid u) = {[], [EDelete (int32 gid) u]}"

lemma performs_bind_ret: "performs E m \<Longrightarrow> performs E (bindE m (\<lambda>_. ret ()))"
  unfolding performs_def by (intro allI wp_bind_keeps keeps_ret) simp

lemmas method_performs =
  CreateGame_performs JoinGame_performs JoinGameByToken_performs LeaveGame_performs
  StartGame_performs HandleAcceptedSubmission_performs CompleteGame_performs completeGame_performs
  CancelGame_performs TimeoutGame_performs DeleteGame_performs

lemma run_call_performs: "performs (call_events c) (run_call c)"
  by (cases c) (auto simp only: run_call.simps call_events.simps CompleteGameAsWinner_def
      intro!: performs_bind_ret method_performs)

section \<open>Predicates that events keep\<close>

locale event_law =
  fixes I :: "database \<Rightarrow> bool" and E :: "game_event \<Rightarrow> bool"
  assumes step_keeps: "E e \<Longrightarrow> row_step e d d' \<Longrightarrow> I d \<Longrightarrow> I d'"
begin

lemma run_keeps: "\<forall>e \<in> set es. E e \<Longrightarrow> row_run es d d' \<Longrightarrow> I d \<Longrightarrow> I d'"
  by (induction es arbitrary: d) (auto dest: step_keeps)

lemma performs_keeps:
  assumes "performs S m" and "\<And>es. es \<in> S \<Longrightarrow> \<forall>e \<in> set es. E e"
  shows "keeps_db I m"
proof (rule keepsI)
  fix w :: "'a world_scheme" assume "I (db w)"
  with assms run_keeps show "wp m (\<lambda>_ w'. I (db w')) w"
    unfolding performs_def by (blast intro: wp_mono)
qed

lemma call_keeps: "(\<And>es. es \<in> call_events c \<Longrightarrow> \<forall>e \<in> set es. E e) \<Longrightarrow> keeps_db I (run_call c)"
  by (rule performs_keeps [OF run_call_performs])

end

end
