(* ===== verification/Game_Invariant.thy ===== *)
theory Game_Invariant
  imports Game_Service
begin

text \<open>
  The invariant of the game tables and the life cycle of a game. A game is seen through its row,
  the list of its players and the indices of its problems. The predicates are shown to satisfy the
  laws of \<open>Game_Service\<close>, so every service method keeps them, for every pattern of transport faults.
\<close>

section \<open>The invariant\<close>

definition players :: "int \<Rightarrow> database \<Rightarrow> uuid list" where
  "players i d = map gp_UserID (filter (\<lambda>p. gp_GameID p = i) (d_participants d))"

definition problem_indices :: "int \<Rightarrow> database \<Rightarrow> int list" where
  "problem_indices i d =
     map gpr_ProblemIndex (filter (\<lambda>p. gpr_GameID p = i) (d_game_problems d))"

definition enough_players :: "uuid list \<Rightarrow> game \<Rightarrow> bool" where
  "enough_players ps g \<longleftrightarrow> (if g_IsSolo g then 1 else 2) \<le> length ps"

definition status_ok :: "uuid list \<Rightarrow> game \<Rightarrow> bool" where
  "status_ok ps g =
     (case g_Status g of
        Pending \<Rightarrow> g_StartedAt g = None \<and> g_CompletedAt g = None \<and> g_WinnerID g = None
      | Active \<Rightarrow> g_StartedAt g \<noteq> None \<and> g_CompletedAt g = None \<and> g_WinnerID g = None \<and>
          enough_players ps g
      | Finished \<Rightarrow> g_StartedAt g \<noteq> None \<and> g_CompletedAt g \<noteq> None \<and> enough_players ps g \<and>
          (case g_WinnerID g of None \<Rightarrow> g_IsSolo g | Some u \<Rightarrow> u \<in> set ps)
      | Cancelled \<Rightarrow> g_CompletedAt g = None \<and> g_WinnerID g = None \<and>
          (g_StartedAt g \<noteq> None \<longrightarrow> enough_players ps g))"

definition lobby_ok :: "uuid list \<Rightarrow> int list \<Rightarrow> game \<Rightarrow> bool" where
  "lobby_ok ps idxs g \<longleftrightarrow>
     g_CreatorID g \<in> set ps \<and> idxs \<noteq> [] \<and> length idxs \<le> maxGameProblems \<and>
     idxs = map int [0..<length idxs] \<and> status_ok ps g"

definition keys_ok :: "database \<Rightarrow> bool" where
  "keys_ok d \<longleftrightarrow>
     distinct (map g_ID (d_games d)) \<and> distinct (map g_InviteToken (d_games d)) \<and>
     distinct (map gp_ID (d_participants d)) \<and>
     distinct (map (\<lambda>p. (gp_GameID p, gp_UserID p)) (d_participants d))"

definition refs_ok :: "database \<Rightarrow> bool" where
  "refs_ok d \<longleftrightarrow>
     (\<forall>p \<in> set (d_participants d). game_exists (gp_GameID p) d \<and> user_exists (gp_UserID p) d) \<and>
     (\<forall>p \<in> set (d_game_problems d).
        game_exists (gpr_GameID p) d \<and> version_exists (gpr_ProblemVersionID p) d)"

definition lobbies_ok :: "database \<Rightarrow> bool" where
  "lobbies_ok d \<longleftrightarrow>
     (\<forall>g \<in> set (d_games d). lobby_ok (players (g_ID g) d) (problem_indices (g_ID g) d) g)"

definition games_inv :: "database \<Rightarrow> bool" where
  "games_inv d \<longleftrightarrow> keys_ok d \<and> refs_ok d \<and> lobbies_ok d"

section \<open>How the row changes act on players and problems\<close>

lemma players_is_participant: "u \<in> set (players i d) \<longleftrightarrow> is_participant i u d"
  by (auto simp: players_def is_participant_def)

lemma length_players: "int (length (players i d)) = count_where (\<lambda>p. gp_GameID p = i) (d_participants d)"
  by (simp add: players_def count_where_def)

lemma players_change [simp]:
  "players j (set_game i f d) = players j d"
  "players j (add_participant m i u d) =
     (if j = i then players j d @ [u] else players j d)"
  "players j (drop_participant i u d) = (if j = i then filter (\<lambda>v. v \<noteq> u) (players j d) else players j d)"
  "players j (advance_participant i u d) = players j d"
  "players j (drop_game i d) = (if j = i then [] else players j d)"
  "players j (d\<lparr>d_games := gs\<rparr>) = players j d"
  "players j (d\<lparr>d_game_problems := qs\<rparr>) = players j d"
proof -
  show "players j (drop_participant i u d) =
      (if j = i then filter (\<lambda>v. v \<noteq> u) (players j d) else players j d)"
    unfolding players_def drop_participant_def del_where_def
    by (induction "d_participants d") (auto simp: filter_map comp_def intro!: arg_cong [where f = "map _"] filter_cong)
  show "players j (advance_participant i u d) = players j d"
    by (simp add: players_def advance_participant_def filter_upd_where_same map_upd_where)
qed (auto simp: players_def add_participant_def drop_game_def del_where_def intro!: arg_cong [where f = "map _"] filter_cong)

lemma problem_indices_change [simp]:
  "problem_indices j (set_game i f d) = problem_indices j d"
  "problem_indices j (add_participant m i u d) = problem_indices j d"
  "problem_indices j (drop_participant i u d) = problem_indices j d"
  "problem_indices j (advance_participant i u d) = problem_indices j d"
  "problem_indices j (drop_game i d) = (if j = i then [] else problem_indices j d)"
  "problem_indices j (d\<lparr>d_games := gs\<rparr>) = problem_indices j d"
  by (auto simp: problem_indices_def drop_game_def del_where_def intro!: arg_cong [where f = "map _"] filter_cong)

lemma problem_rows_indices:
  "length ss = length vs \<Longrightarrow> map gpr_ProblemIndex (problem_rows i k ss vs) = map int [k..<k + length ss]"
  by (induction i k ss vs rule: problem_rows.induct) (auto simp: upt_rec)

lemma problem_rows_game: "p \<in> set (problem_rows i k ss vs) \<Longrightarrow> gpr_GameID p = i \<and> gpr_ProblemVersionID p \<in> set vs"
  by (induction i k ss vs rule: problem_rows.induct) auto

lemma problem_indices_append_rows:
  "length ss = length vs \<Longrightarrow>
   problem_indices j (d\<lparr>d_game_problems := d_game_problems d @ problem_rows i 0 ss vs\<rparr>) =
     problem_indices j d @ (if j = i then map int [0..<length ss] else [])"
  using problem_rows_game [of _ i 0 ss vs] problem_rows_indices [of ss vs i 0]
  by (auto simp: problem_indices_def filter_empty_conv filter_id_conv)

section \<open>The laws hold for the invariant\<close>

lemma keys_game_unique:
  "keys_ok d \<Longrightarrow> find_game i d = Some g \<Longrightarrow> h \<in> set (d_games d) \<Longrightarrow> g_ID h = i \<Longrightarrow> h = g"
  using find_game_SomeD [of i d g] by (auto simp: keys_ok_def distinct_map dest: inj_onD)

lemma status_ok_pending: "g_Status g = Pending \<Longrightarrow> status_ok ps g \<Longrightarrow> status_ok qs g"
  by (simp add: status_ok_def)

lemma refs_no_game:
  assumes "refs_ok d" and "\<not> game_exists i d"
  shows "players i d = []" and "problem_indices i d = []"
  using assms by (auto simp: refs_ok_def players_def problem_indices_def filter_empty_conv)

lemma game_exists_change [simp]:
  "game_exists j (add_participant m i u d) = game_exists j d"
  "game_exists j (drop_participant i u d) = game_exists j d"
  "game_exists j (advance_participant i u d) = game_exists j d"
  "game_exists j (drop_game i d) \<longleftrightarrow> game_exists j d \<and> j \<noteq> i"
  "game_exists j (d\<lparr>d_games := gs\<rparr>) \<longleftrightarrow> j \<in> g_ID ` set gs"
  "game_exists j (d\<lparr>d_game_problems := ps\<rparr>) = game_exists j d"
  by (auto simp: game_exists_def drop_game_def)

lemma game_exists_set_game:
  assumes "\<And>g. g_ID (f g) = g_ID g"
  shows "game_exists j (set_game i f d) = game_exists j d"
proof -
  have "map g_ID (d_games (set_game i f d)) = map g_ID (d_games d)"
    by (simp add: map_upd_where assms)
  then show ?thesis unfolding game_exists_def by (metis list.set_map)
qed

lemma other_tables_change [simp]:
  "user_exists v (add_participant m i u d) = user_exists v d"
  "user_exists v (drop_participant i u d) = user_exists v d"
  "user_exists v (advance_participant i u d) = user_exists v d"
  "user_exists v (drop_game i d) = user_exists v d"
  "version_exists x (add_participant m i u d) = version_exists x d"
  "version_exists x (drop_participant i u d) = version_exists x d"
  "version_exists x (advance_participant i u d) = version_exists x d"
  "version_exists x (drop_game i d) = version_exists x d"
  "version_exists x (set_game i f d) = version_exists x d"
  by (simp_all add: user_exists_def version_exists_def add_participant_def drop_participant_def
      advance_participant_def drop_game_def)

lemma set_game_keeps_inv:
  assumes inv: "games_inv d" and g: "find_game i d = Some g"
    and f: "\<And>h. g_ID (f h) = g_ID h \<and> g_InviteToken (f h) = g_InviteToken h \<and> g_CreatorID (f h) = g_CreatorID h"
    and ok: "status_ok (players i d) g \<Longrightarrow> status_ok (players i d) (f g)"
  shows "games_inv (set_game i f d)"
proof -
  have "keys_ok (set_game i f d)" "refs_ok (set_game i f d)"
    using inv f by (auto simp: games_inv_def keys_ok_def refs_ok_def map_upd_where game_exists_set_game)
  moreover have "lobby_ok (players (g_ID h') d) (problem_indices (g_ID h') d) h'"
    if h': "h' \<in> set (d_games (set_game i f d))" for h'
  proof -
    from h' obtain h where h: "h \<in> set (d_games d)" "h' = (if g_ID h = i then f h else h)"
      by auto
    with inv have "lobby_ok (players (g_ID h) d) (problem_indices (g_ID h) d) h"
      by (simp add: games_inv_def lobbies_ok_def)
    moreover from h inv g keys_game_unique [of d i g h] have "g_ID h = i \<Longrightarrow> h = g"
      by (simp add: games_inv_def)
    ultimately show ?thesis
      using h f ok by (auto simp: lobby_ok_def)
  qed
  ultimately show ?thesis by (simp add: games_inv_def lobbies_ok_def)
qed

lemma lobby_creator: "games_inv d \<Longrightarrow> find_game i d = Some g \<Longrightarrow> g_CreatorID g \<in> set (players i d)"
  by (auto simp: games_inv_def lobbies_ok_def lobby_ok_def dest: find_game_SomeD)

lemma pending_lobby_change:
  assumes inv: "games_inv d" and g: "find_game i d = Some g" and pending: "g_Status g = Pending"
    and same: "d_games d' = d_games d" "\<And>j. problem_indices j d' = problem_indices j d"
      "\<And>j. j \<noteq> i \<Longrightarrow> players j d' = players j d"
    and creator: "g_CreatorID g \<in> set (players i d')"
  shows "lobbies_ok d'"
proof -
  have "lobby_ok (players (g_ID h) d') (problem_indices (g_ID h) d') h" if h: "h \<in> set (d_games d)" for h
  proof (cases "g_ID h = i")
    case True
    with inv g h keys_game_unique [of d i g h] have "h = g" by (simp add: games_inv_def)
    with inv h True creator pending status_ok_pending [OF pending, of "players i d" "players i d'"]
    show ?thesis by (auto simp: games_inv_def lobbies_ok_def lobby_ok_def same)
  next
    case False
    with inv h show ?thesis by (simp add: games_inv_def lobbies_ok_def same)
  qed
  then show ?thesis by (simp add: lobbies_ok_def same)
qed

lemma add_participant_keeps_inv:
  assumes "games_inv d" "find_game i d = Some g" "g_Status g = Pending" "\<not> is_participant i u d"
    "user_exists u d" "m \<notin> gp_ID ` set (d_participants d)"
  shows "games_inv (add_participant m i u d)"
proof -
  have "keys_ok (add_participant m i u d)"
    using assms by (auto simp: games_inv_def keys_ok_def is_participant_def add_participant_def)
  moreover have "refs_ok (add_participant m i u d)"
    using assms find_game_exists [of i d]
    by (auto simp: games_inv_def refs_ok_def add_participant_def game_exists_def user_exists_def version_exists_def)
  moreover have "lobbies_ok (add_participant m i u d)"
    by (rule pending_lobby_change [OF assms(1-3)]) (use assms lobby_creator [OF assms(1,2)] in auto)
  ultimately show ?thesis by (simp add: games_inv_def)
qed

lemma drop_participant_keeps_inv:
  assumes "games_inv d" "find_game i d = Some g" "g_Status g = Pending" "g_CreatorID g \<noteq> u"
  shows "games_inv (drop_participant i u d)"
proof -
  have "keys_ok (drop_participant i u d)"
    using assms by (simp add: games_inv_def keys_ok_def drop_participant_def distinct_map_del_where)
  moreover have "refs_ok (drop_participant i u d)"
    using assms by (auto simp: games_inv_def refs_ok_def)
      (auto simp: drop_participant_def)
  moreover have "lobbies_ok (drop_participant i u d)"
    by (rule pending_lobby_change [OF assms(1-3)]) (use assms lobby_creator [OF assms(1,2)] in auto)
  ultimately show ?thesis by (simp add: games_inv_def)
qed

lemma advance_participant_keeps_inv:
  assumes "games_inv d"
  shows "games_inv (advance_participant i u d)"
proof -
  have "keys_ok (advance_participant i u d)"
    using assms by (simp add: games_inv_def keys_ok_def)
  moreover have "refs_ok (advance_participant i u d)"
    using assms by (auto simp: games_inv_def refs_ok_def)
      (auto simp: advance_participant_def)
  moreover have "lobbies_ok (advance_participant i u d)"
    using assms by (simp add: games_inv_def lobbies_ok_def)
  ultimately show ?thesis by (simp add: games_inv_def)
qed

lemma drop_game_keeps_inv:
  assumes "games_inv d"
  shows "games_inv (drop_game i d)"
proof -
  have "keys_ok (drop_game i d)"
    using assms by (simp add: games_inv_def keys_ok_def drop_game_def distinct_map_del_where)
  moreover have "refs_ok (drop_game i d)"
    using assms by (auto simp: games_inv_def refs_ok_def) (auto simp: drop_game_def)
  moreover have "lobbies_ok (drop_game i d)"
    using assms by (auto simp: games_inv_def lobbies_ok_def) (auto simp: drop_game_def)
  ultimately show ?thesis by (simp add: games_inv_def)
qed

lemma open_game_keeps_inv:
  assumes inv: "games_inv d" and fresh: "\<not> game_exists (g_ID g) d"
      "g_InviteToken g \<notin> g_InviteToken ` set (d_games d)" "m \<notin> gp_ID ` set (d_participants d)"
    and u: "user_exists (g_CreatorID g) d"
    and g: "status_ok [g_CreatorID g] g"
    and slugs: "slugs \<noteq> []" "length slugs \<le> maxGameProblems" "length slugs = length vers"
      "\<And>v. v \<in> set vers \<Longrightarrow> version_exists v d"
  shows "games_inv (open_game g (problem_rows (g_ID g) 0 slugs vers) m d)"
proof -
  let ?d1 = "d\<lparr>d_games := d_games d @ [g]\<rparr>"
  let ?d2 = "?d1\<lparr>d_game_problems := d_game_problems d @ problem_rows (g_ID g) 0 slugs vers\<rparr>"
  let ?d = "open_game g (problem_rows (g_ID g) 0 slugs vers) m d"
  have d: "?d = add_participant m (g_ID g) (g_CreatorID g) ?d2"
    by (simp add: open_game_def)
  note none = refs_no_game [of d "g_ID g"]
  have "\<not> is_participant (g_ID g) (g_CreatorID g) d"
    using inv fresh none by (simp add: games_inv_def flip: players_is_participant)
  then have "keys_ok ?d"
    using inv fresh by (auto simp: d games_inv_def keys_ok_def add_participant_def game_exists_def is_participant_def)
  moreover have "refs_ok ?d"
    using inv u slugs problem_rows_game [of _ "g_ID g" 0 slugs vers]
    by (auto simp: d games_inv_def refs_ok_def) (auto simp: add_participant_def game_exists_def)
  moreover have idx: "problem_indices j ?d2 =
      problem_indices j d @ (if j = g_ID g then map int [0..<length slugs] else [])" for j
    using problem_indices_append_rows [OF slugs(3), of j ?d1 "g_ID g"] by simp
  have "lobbies_ok ?d"
    using inv fresh none g slugs
    by (auto simp: d games_inv_def lobbies_ok_def lobby_ok_def idx game_exists_def)
  ultimately show ?thesis by (simp add: games_inv_def)
qed

lemma status_ok_started:
  "g_Status g = Pending \<Longrightarrow> status_ok ps g \<Longrightarrow> enough_players ps g \<Longrightarrow> status_ok ps (started t g)"
  by (simp add: status_ok_def game_states enough_players_def)

lemma status_ok_completed:
  "g_Status g = Active \<Longrightarrow> status_ok ps g \<Longrightarrow> u \<in> set ps \<Longrightarrow> status_ok ps (completed t (Some u) g)"
  by (simp add: status_ok_def game_states enough_players_def)

lemma status_ok_cancelled:
  "g_Status g = Pending \<or> g_Status g = Active \<Longrightarrow> status_ok ps g \<Longrightarrow> status_ok ps (cancelled t g)"
  by (auto simp: status_ok_def game_states enough_players_def)

lemma status_ok_timed_out:
  "g_Status g = Active \<Longrightarrow> status_ok ps g \<Longrightarrow> g_IsSolo g \<Longrightarrow> status_ok ps (timed_out t g)"
  by (simp add: status_ok_def game_states enough_players_def)

lemmas games_inv_keep =
  set_game_keeps_inv add_participant_keeps_inv drop_participant_keeps_inv
  advance_participant_keeps_inv drop_game_keeps_inv open_game_keeps_inv

interpretation inv: event_law games_inv "\<lambda>_. True"
proof
  fix e d d' assume "row_step e d d'" "games_inv d"
  then show "games_inv d'"
  proof cases
    case (step_open slugs g n tok t u pub solo lim)
    then obtain vers m where new: "list_all2 (resolves_to u d) slugs vers"
        "\<forall>v \<in> set vers. version_exists v d" "m \<notin> gp_ID ` set (d_participants d)"
      and d': "d' = open_game g (problem_rows (g_ID g) 0 slugs vers) m d"
      by (auto simp: opened_def)
    show ?thesis unfolding d'
      using \<open>games_inv d\<close> step_open new
      by (intro open_game_keeps_inv) (auto simp: opened_def status_ok_def list_all2_lengthD)
  next
    case (step_start i g u t)
    with \<open>games_inv d\<close> show ?thesis
      by (auto simp: enough_players_def length_players [symmetric] split: if_splits
          intro!: set_game_keeps_inv status_ok_started)
  next
    case (step_complete i g u t)
    with \<open>games_inv d\<close> lobby_creator [of d i g] show ?thesis
      by (auto simp: players_is_participant intro!: set_game_keeps_inv status_ok_completed)
  qed (use \<open>games_inv d\<close> in \<open>auto intro!: games_inv_keep status_ok_cancelled status_ok_timed_out\<close>)
qed

end
