(* ===== verification/Game_Machine.thy ===== *)
theory Game_Machine
  imports Game_Invariant
begin

text \<open>
  Games over time. The first part states what any sequence of service calls keeps: the invariant,
  the life cycle of every game, and the independence of games from calls about other games. The
  second part is an abstract machine of games, without identifiers of rows, clocks or SQL, and the
  proof that the service refines it. The third part characterises when each call succeeds.
\<close>

section \<open>Runs of the service\<close>

text \<open>
  Between two calls other parts of the program, or the administrator, may change the tables of
  users, sessions, codes, problems and solutions; users and versions are never removed. Clock,
  sequences and tapes are arbitrary after such a step.
\<close>

definition environment :: "database \<Rightarrow> database \<Rightarrow> bool" where
  "environment d d' \<longleftrightarrow>
     d_games d' = d_games d \<and> d_participants d' = d_participants d \<and>
     d_game_problems d' = d_game_problems d \<and>
     u_ID ` set (d_users d) \<subseteq> u_ID ` set (d_users d') \<and>
     pv_ID ` set (d_versions d) \<subseteq> pv_ID ` set (d_versions d')"

inductive reachable :: "'z world_scheme \<Rightarrow> 'z world_scheme \<Rightarrow> bool" for w0 where
  reach_init: "reachable w0 w0"
| reach_call: "reachable w0 w \<Longrightarrow> run_call c w = (r, w') \<Longrightarrow> reachable w0 w'"
| reach_env: "reachable w0 w \<Longrightarrow> environment (db w) (db w') \<Longrightarrow> reachable w0 w'"

lemma games_inv_environment:
  assumes "games_inv d" and "environment d d'"
  shows "games_inv d'"
proof -
  have "keys_ok d'" "lobbies_ok d'"
    using assms by (simp_all add: games_inv_def environment_def keys_ok_def lobbies_ok_def
        players_def problem_indices_def)
  moreover have "refs_ok d'"
    using assms unfolding games_inv_def environment_def refs_ok_def game_exists_def user_exists_def
      version_exists_def by auto
  ultimately show ?thesis by (simp add: games_inv_def)
qed

lemma games_inv_reachable: "reachable w0 w \<Longrightarrow> games_inv (db w0) \<Longrightarrow> games_inv (db w)"
proof (induction rule: reachable.induct)
  case (reach_call w c r w')
  have "keeps_db games_inv (run_call c)" by (rule inv.call_keeps) simp
  with reach_call show ?case by (auto dest: keepsD)
qed (auto intro: games_inv_environment)

section \<open>Life cycle\<close>

fun later :: "game_status \<Rightarrow> game_status \<Rightarrow> bool" where
  "later Pending s = True"
| "later Active s \<longleftrightarrow> s \<noteq> Pending"
| "later Finished s \<longleftrightarrow> s = Finished"
| "later Cancelled s \<longleftrightarrow> s = Cancelled"

definition evolves :: "game \<Rightarrow> game \<Rightarrow> bool" where
  "evolves g g' \<longleftrightarrow>
     g_ID g' = g_ID g \<and> g_CreatorID g' = g_CreatorID g \<and> g_InviteToken g' = g_InviteToken g \<and>
     g_IsSolo g' = g_IsSolo g \<and> g_IsPublic g' = g_IsPublic g \<and>
     g_TimeLimitMinutes g' = g_TimeLimitMinutes g \<and> g_CreatedAt g' = g_CreatedAt g \<and>
     later (g_Status g) (g_Status g') \<and>
     (g_StartedAt g \<noteq> None \<longrightarrow> g_StartedAt g' = g_StartedAt g) \<and>
     (g_Status g = Finished \<or> g_Status g = Cancelled \<longrightarrow> g' = g)"

definition problems_of_game :: "int \<Rightarrow> database \<Rightarrow> game_problem list" where
  "problems_of_game i d = filter (\<lambda>p. gpr_GameID p = i) (d_game_problems d)"

definition evolved :: "database \<Rightarrow> database \<Rightarrow> bool" where
  "evolved d d' \<longleftrightarrow>
     (\<forall>g \<in> set (d_games d). \<exists>g' \<in> set (d_games d').
        evolves g g' \<and> problems_of_game (g_ID g) d' = problems_of_game (g_ID g) d)"

fun is_delete :: "game_event \<Rightarrow> bool" where
  "is_delete (EDelete _ _) = True"
| "is_delete _ = False"

lemma later_trans: "later a b \<Longrightarrow> later b c \<Longrightarrow> later a c"
  by (cases a; cases b) auto

lemma evolves_refl [simp]: "evolves g g"
  by (cases "g_Status g") (auto simp: evolves_def)

lemma evolves_trans: "evolves a b \<Longrightarrow> evolves b c \<Longrightarrow> evolves a c"
  using later_trans [of "g_Status a" "g_Status b" "g_Status c"] by (auto simp: evolves_def)

lemma evolvedI:
  assumes "\<And>g. g \<in> set (d_games d) \<Longrightarrow> f g \<in> set (d_games d') \<and> evolves g (f g)"
    and "\<And>g. g \<in> set (d_games d) \<Longrightarrow> problems_of_game (g_ID g) d' = problems_of_game (g_ID g) d"
  shows "evolved d d'"
  using assms unfolding evolved_def by blast

lemma evolved_refl [simp]: "evolved d d"
  by (rule evolvedI [where f = id]) auto

lemma evolved_trans:
  assumes "evolved a b" and "evolved b c"
  shows "evolved a c"
  unfolding evolved_def
proof
  fix g assume "g \<in> set (d_games a)"
  with assms(1) obtain h where h: "h \<in> set (d_games b)" "evolves g h"
    "problems_of_game (g_ID g) b = problems_of_game (g_ID g) a" by (auto simp: evolved_def)
  with assms(2) obtain k where "k \<in> set (d_games c)" "evolves h k"
    "problems_of_game (g_ID h) c = problems_of_game (g_ID h) b" by (auto simp: evolved_def)
  with h show "\<exists>g' \<in> set (d_games c). evolves g g' \<and> problems_of_game (g_ID g) c = problems_of_game (g_ID g) a"
    using evolves_trans [of g h k] by (intro bexI [of _ k]) (simp_all add: evolves_def [of g h])
qed

lemma evolved_set_game:
  assumes "games_inv d" and "find_game i d = Some g" and "evolves g (f g)"
  shows "evolved d (set_game i f d)"
  by (rule evolvedI [where f = "\<lambda>g. if g_ID g = i then f g else g"])
    (use assms keys_game_unique [of d i g] in \<open>auto simp: problems_of_game_def games_inv_def\<close>)

lemma evolves_changes:
  "g_Status g = Pending \<Longrightarrow> g_StartedAt g = None \<Longrightarrow> evolves g (started t g)"
  "g_Status g = Active \<Longrightarrow> evolves g (completed t u g)"
  "g_Status g = Pending \<or> g_Status g = Active \<Longrightarrow> evolves g (cancelled t g)"
  "g_Status g = Active \<Longrightarrow> evolves g (timed_out t g)"
  by (auto simp: evolves_def game_states)

lemma pending_not_started:
  "games_inv d \<Longrightarrow> find_game i d = Some g \<Longrightarrow> g_Status g = Pending \<Longrightarrow> g_StartedAt g = None"
  by (auto simp: games_inv_def lobbies_ok_def lobby_ok_def status_ok_def dest!: find_game_SomeD)

lemma evolved_same_games:
  "d_games d' = d_games d \<Longrightarrow> d_game_problems d' = d_game_problems d \<Longrightarrow> evolved d d'"
  by (rule evolvedI [where f = id]) (auto simp: problems_of_game_def)

lemma evolved_participants:
  "evolved d (add_participant m i u d)" "evolved d (drop_participant i u d)"
  "evolved d (advance_participant i u d)"
  by (rule evolved_same_games; simp)+

lemma problem_rows_other: "i \<noteq> j \<Longrightarrow> filter (\<lambda>p. gpr_GameID p = j) (problem_rows i k ss vs) = []"
  using problem_rows_game by (fastforce simp: filter_empty_conv)

lemma evolved_step:
  assumes "row_step e d d'" and "\<not> is_delete e" and inv: "games_inv d"
  shows "evolved d d'"
  using assms(1)
proof cases
  case (step_open slugs g n tok t u pub solo lim)
  have "problems_of_game (g_ID h) d' = problems_of_game (g_ID h) d" if "h \<in> set (d_games d)" for h
  proof -
    from that step_open have "g_ID h \<noteq> g_ID g" by (auto simp: opened_def game_exists_def)
    with step_open show ?thesis
      by (auto simp: opened_def problems_of_game_def open_game_def problem_rows_other)
  qed
  moreover have "set (d_games d) \<subseteq> set (d_games d')"
    using step_open by (auto simp: opened_def open_game_def)
  ultimately show ?thesis by (intro evolvedI [where f = id]) auto
next
  case step_delete
  with assms(2) show ?thesis by simp
qed (use inv pending_not_started in
      \<open>auto intro!: evolved_set_game evolves_changes evolved_participants\<close>)

interpretation life: event_law "\<lambda>d. games_inv d \<and> evolved d0 d" "\<lambda>e. \<not> is_delete e" for d0
  by unfold_locales (auto intro: inv.step_keeps evolved_trans evolved_step)

section \<open>Games do not interfere\<close>

fun event_game :: "game_event \<Rightarrow> int" where
  "event_game (EOpen n u slugs solo) = n"
| "event_game (EJoin i u) = i"
| "event_game (ELeave i u) = i"
| "event_game (EStart i u) = i"
| "event_game (EAdvance i u) = i"
| "event_game (EComplete i u) = i"
| "event_game (ECancel i u) = i"
| "event_game (ETimeout i u) = i"
| "event_game (EDelete i u) = i"

text \<open>All rows that belong to one game.\<close>

definition game_view ::
  "int \<Rightarrow> database \<Rightarrow> game list \<times> game_participant list \<times> game_problem list \<times> solution list" where
  "game_view j d =
     (filter (\<lambda>g. g_ID g = j) (d_games d), filter (\<lambda>p. gp_GameID p = j) (d_participants d),
      problems_of_game j d, filter (\<lambda>s. sol_GameID s = Some j) (d_solutions d))"

lemma game_view_changes:
  "i \<noteq> j \<Longrightarrow> (\<And>g. g_ID (f g) = g_ID g) \<Longrightarrow> game_view j (set_game i f d) = game_view j d"
  "i \<noteq> j \<Longrightarrow> game_view j (add_participant m i u d) = game_view j d"
  "i \<noteq> j \<Longrightarrow> game_view j (drop_participant i u d) = game_view j d"
  "i \<noteq> j \<Longrightarrow> game_view j (advance_participant i u d) = game_view j d"
  "i \<noteq> j \<Longrightarrow> game_view j (drop_game i d) = game_view j d"
  by (auto simp: game_view_def problems_of_game_def filter_upd_where_other del_where_def
      add_participant_def drop_participant_def advance_participant_def drop_game_def
      intro!: filter_upd_where_other intro: filter_cong)

lemma game_view_open:
  "g_ID g \<noteq> j \<Longrightarrow> n = g_ID g \<Longrightarrow> game_view j (open_game g (problem_rows n 0 ss vs) m d) = game_view j d"
  by (simp add: open_game_def game_view_changes)
    (simp add: game_view_def problems_of_game_def problem_rows_other)

lemma game_view_step: "row_step e d d' \<Longrightarrow> event_game e \<noteq> j \<Longrightarrow> game_view j d' = game_view j d"
  by (cases rule: row_step.cases) (auto simp: game_view_changes game_view_open opened_def)

interpretation frame: event_law "\<lambda>d. game_view j d = v" "\<lambda>e. event_game e \<noteq> j" for j v
  by unfold_locales (simp add: game_view_step)

section \<open>An abstract machine of games\<close>

text \<open>
  What a game is for its players: who created it, whether it is a solo game, its status and winner,
  the players with their progress in the order they joined, and the problems in order.
\<close>

record lobby =
  l_creator :: uuid
  l_solo :: bool
  l_status :: game_status
  l_winner :: "uuid option"
  l_players :: "(uuid \<times> int) list"
  l_problems :: "string list"

inductive lobby_step :: "game_event \<Rightarrow> (int \<rightharpoonup> lobby) \<Rightarrow> (int \<rightharpoonup> lobby) \<Rightarrow> bool" where
  "m n = None \<Longrightarrow> slugs \<noteq> [] \<Longrightarrow> length slugs \<le> 20 \<Longrightarrow>
   lobby_step (EOpen n u slugs solo) m
     (m(n \<mapsto> \<lparr>l_creator = u, l_solo = solo, l_status = Pending, l_winner = None,
        l_players = [(u, 0)], l_problems = slugs\<rparr>))"
| "m i = Some l \<Longrightarrow> l_status l = Pending \<Longrightarrow> u \<notin> fst ` set (l_players l) \<Longrightarrow>
   lobby_step (EJoin i u) m (m(i \<mapsto> l\<lparr>l_players := l_players l @ [(u, 0)]\<rparr>))"
| "m i = Some l \<Longrightarrow> l_status l = Pending \<Longrightarrow> l_creator l \<noteq> u \<Longrightarrow> u \<in> fst ` set (l_players l) \<Longrightarrow>
   lobby_step (ELeave i u) m (m(i \<mapsto> l\<lparr>l_players := filter (\<lambda>p. fst p \<noteq> u) (l_players l)\<rparr>))"
| "m i = Some l \<Longrightarrow> l_status l = Pending \<Longrightarrow> l_creator l = u \<Longrightarrow>
   (if l_solo l then 1 else 2) \<le> length (l_players l) \<Longrightarrow>
   lobby_step (EStart i u) m (m(i \<mapsto> l\<lparr>l_status := Active\<rparr>))"
| "m i = Some l \<Longrightarrow> u \<in> fst ` set (l_players l) \<Longrightarrow>
   lobby_step (EAdvance i u) m (m(i \<mapsto> l\<lparr>l_players :=
     map (\<lambda>p. if fst p = u then (u, snd p + 1) else p) (l_players l)\<rparr>))"
| "m i = Some l \<Longrightarrow> l_status l = Active \<Longrightarrow> u \<in> fst ` set (l_players l) \<Longrightarrow>
   lobby_step (EComplete i u) m (m(i \<mapsto> l\<lparr>l_status := Finished, l_winner := Some u\<rparr>))"
| "m i = Some l \<Longrightarrow> l_status l = Pending \<or> l_status l = Active \<Longrightarrow> l_creator l = u \<Longrightarrow>
   lobby_step (ECancel i u) m (m(i \<mapsto> l\<lparr>l_status := Cancelled\<rparr>))"
| "m i = Some l \<Longrightarrow> l_status l = Active \<Longrightarrow> l_solo l \<Longrightarrow> l_creator l = u \<Longrightarrow>
   lobby_step (ETimeout i u) m (m(i \<mapsto> l\<lparr>l_status := Finished\<rparr>))"
| "m i = Some l \<Longrightarrow> l_creator l = u \<Longrightarrow> lobby_step (EDelete i u) m (m(i := None))"

fun lobby_run :: "game_event list \<Rightarrow> (int \<rightharpoonup> lobby) \<Rightarrow> (int \<rightharpoonup> lobby) \<Rightarrow> bool" where
  "lobby_run [] m m' \<longleftrightarrow> m' = m"
| "lobby_run (e # es) m m' \<longleftrightarrow> (\<exists>m1. lobby_step e m m1 \<and> lobby_run es m1 m')"

definition progress :: "int \<Rightarrow> database \<Rightarrow> (uuid \<times> int) list" where
  "progress i d = map (\<lambda>p. (gp_UserID p, gp_CurrentProblemIndex p))
     (filter (\<lambda>p. gp_GameID p = i) (d_participants d))"

definition lobby_of :: "database \<Rightarrow> game \<Rightarrow> lobby" where
  "lobby_of d g = \<lparr>l_creator = g_CreatorID g, l_solo = g_IsSolo g, l_status = g_Status g,
     l_winner = g_WinnerID g, l_players = progress (g_ID g) d,
     l_problems = map gpr_ProblemID (problems_of_game (g_ID g) d)\<rparr>"

definition lobbies :: "database \<Rightarrow> int \<rightharpoonup> lobby" where
  "lobbies d i = map_option (lobby_of d) (find_game i d)"

lemma progress_players: "map fst (progress i d) = players i d"
  by (simp add: progress_def players_def)

lemma progress_is_participant: "u \<in> fst ` set (progress i d) \<longleftrightarrow> is_participant i u d"
  by (simp add: progress_players flip: players_is_participant list.set_map)

lemma progress_changes:
  "progress j (set_game i f d) = progress j d"
  "progress j (add_participant m i u d) = (if j = i then progress j d @ [(u, 0)] else progress j d)"
  "progress j (drop_participant i u d) =
     (if j = i then filter (\<lambda>p. fst p \<noteq> u) (progress j d) else progress j d)"
  "progress j (drop_game i d) = (if j = i then [] else progress j d)"
  "progress j (d\<lparr>d_games := gs\<rparr>) = progress j d"
  "progress j (d\<lparr>d_game_problems := qs\<rparr>) = progress j d"
  by (auto simp: progress_def add_participant_def drop_participant_def drop_game_def del_where_def
      filter_map comp_def intro!: arg_cong [where f = "map _"] filter_cong)

lemma progress_advance:
  "progress j (advance_participant i u d) =
     (if j = i then map (\<lambda>p. if fst p = u then (u, snd p + 1) else p) (progress j d)
      else progress j d)"
  by (simp add: progress_def advance_participant_def filter_upd_where_same filter_upd_where_other)
    (auto simp: upd_where_def)

lemma problems_of_game_changes:
  "problems_of_game j (set_game i f d) = problems_of_game j d"
  "problems_of_game j (add_participant m i u d) = problems_of_game j d"
  "problems_of_game j (drop_participant i u d) = problems_of_game j d"
  "problems_of_game j (advance_participant i u d) = problems_of_game j d"
  "i \<noteq> j \<Longrightarrow> problems_of_game j (drop_game i d) = problems_of_game j d"
  by (auto simp: problems_of_game_def drop_game_def del_where_def intro!: filter_cong)

lemma find_game_changes:
  "find_game j (add_participant m i u d) = find_game j d"
  "find_game j (drop_participant i u d) = find_game j d"
  "find_game j (advance_participant i u d) = find_game j d"
  by (simp_all add: find_game_def)

lemma find_game_drop: "find_game j (drop_game i d) = (if j = i then None else find_game j d)"
proof -
  have "List.find (\<lambda>g. g_ID g = j) (filter (\<lambda>g. g_ID g \<noteq> i) gs) =
      (if j = i then None else List.find (\<lambda>g. g_ID g = j) gs)" for gs :: "game list"
    by (induction gs) auto
  then show ?thesis by (simp add: find_game_def drop_game_def del_where_def)
qed

lemmas lobby_changes =
  progress_changes progress_advance problems_of_game_changes find_game_changes find_game_drop

lemma lobbies_Some: "find_game i d = Some g \<Longrightarrow> lobbies d i = Some (lobby_of d g)"
  by (simp add: lobbies_def)

lemma lobbies_set_game:
  assumes "find_game i d = Some g" and "\<And>h. g_ID (f h) = g_ID h"
  shows "lobbies (set_game i f d) = (lobbies d)(i \<mapsto> lobby_of d (f g))"
proof
  fix j show "lobbies (set_game i f d) j = ((lobbies d)(i \<mapsto> lobby_of d (f g))) j"
    using assms by (cases "find_game j d")
      (auto simp: lobbies_def find_game_set_game lobby_of_def lobby_changes)
qed

lemma lobbies_participants:
  assumes "find_game i d = Some g"
  shows "lobbies (add_participant m i u d) =
      (lobbies d)(i \<mapsto> (lobby_of d g)\<lparr>l_players := progress i d @ [(u, 0)]\<rparr>)"
    and "lobbies (drop_participant i u d) =
      (lobbies d)(i \<mapsto> (lobby_of d g)\<lparr>l_players := filter (\<lambda>p. fst p \<noteq> u) (progress i d)\<rparr>)"
    and "lobbies (advance_participant i u d) =
      (lobbies d)(i \<mapsto> (lobby_of d g)\<lparr>l_players :=
         map (\<lambda>p. if fst p = u then (u, snd p + 1) else p) (progress i d)\<rparr>)"
  using assms
  by (auto simp: fun_eq_iff lobbies_def lobby_of_def lobby_changes find_game_key [of i]
      option.map_comp comp_def intro!: option.map_cong0 dest: find_game_SomeD
      split: if_splits option.splits)

lemma lobbies_drop_game: "lobbies (drop_game i d) = (lobbies d)(i := None)"
proof
  fix j show "lobbies (drop_game i d) j = ((lobbies d)(i := None)) j"
    using find_game_SomeD [of j d]
    by (cases "find_game j d") (auto simp: lobbies_def lobby_of_def lobby_changes)
qed

lemma problem_rows_slugs: "length ss = length vs \<Longrightarrow> map gpr_ProblemID (problem_rows i k ss vs) = ss"
  by (induction i k ss vs rule: problem_rows.induct) auto

lemma lobbies_open_game:
  assumes "games_inv d" and "\<not> game_exists (g_ID g) d" and "length ss = length vs"
  shows "lobbies (open_game g (problem_rows (g_ID g) 0 ss vs) m d) =
     (lobbies d)(g_ID g \<mapsto> \<lparr>l_creator = g_CreatorID g, l_solo = g_IsSolo g, l_status = g_Status g,
        l_winner = g_WinnerID g, l_players = [(g_CreatorID g, 0)], l_problems = ss\<rparr>)"
    (is "lobbies ?d = _")
proof
  fix j
  have none: "progress (g_ID g) d = []" "problems_of_game (g_ID g) d = []"
    using assms refs_no_game [of d "g_ID g"]
    by (simp_all add: games_inv_def problem_indices_def problems_of_game_def flip: progress_players)
  have all: "filter (\<lambda>p. gpr_GameID p = g_ID g) (problem_rows (g_ID g) 0 ss vs) = problem_rows (g_ID g) 0 ss vs"
    using problem_rows_game by (fastforce simp: filter_id_conv)
  have "find_game j ?d = (if j = g_ID g then Some g else find_game j d)"
    using assms(2) by (auto simp: open_game_def find_game_changes find_game_exists find_game_def
        find_append split: option.split)
  then show "lobbies ?d j = ((lobbies d)(g_ID g \<mapsto> \<lparr>l_creator = g_CreatorID g, l_solo = g_IsSolo g,
      l_status = g_Status g, l_winner = g_WinnerID g, l_players = [(g_CreatorID g, 0)],
      l_problems = ss\<rparr>)) j"
    using none assms(2,3) find_game_SomeD [of j d]
    by (cases "find_game j d")
      (auto simp: lobbies_def lobby_of_def open_game_def lobby_changes problems_of_game_def
        problem_rows_other problem_rows_slugs all)
qed

lemma lobby_step_refines:
  assumes "row_step e d d'" and inv: "games_inv d"
  shows "lobby_step e (lobbies d) (lobbies d')"
  using assms(1)
proof cases
  case (step_open slugs g n tok t u pub solo lim)
  then obtain vers m where new: "\<not> game_exists (g_ID g) d" "length slugs = length vers"
      and d': "d' = open_game g (problem_rows (g_ID g) 0 slugs vers) m d"
    by (auto simp: opened_def list_all2_lengthD)
  from new have "lobbies d n = None"
    using step_open by (simp add: lobbies_def find_game_exists)
  with step_open lobbies_open_game [OF inv new] show ?thesis
    by (auto simp: d' maxGameProblems_def intro!: lobby_step.intros)
next
  case (step_advance i u)
  with inv obtain g where "find_game i d = Some g"
    by (auto simp: games_inv_def refs_ok_def is_participant_def find_game_exists)
  with step_advance show ?thesis
    using lobby_step.intros(5) [of "lobbies d" i "lobby_of d g" u]
    by (auto simp: lobbies_participants lobbies_Some lobby_of_def progress_is_participant
        dest: find_game_SomeD)
next
  case (step_complete i g u t)
  then have "u \<in> fst ` set (l_players (lobby_of d g))"
    using lobby_creator [OF inv] find_game_SomeD [of i d g]
    by (auto simp: lobby_of_def progress_is_participant players_is_participant)
  with step_complete show ?thesis
    using lobby_step.intros(6) [of "lobbies d" i "lobby_of d g" u]
    by (auto simp: lobbies_set_game lobbies_Some lobby_of_def game_states)
next
  case (step_join i g u m)
  then show ?thesis
    using lobby_step.intros(2) [of "lobbies d" i "lobby_of d g" u] find_game_SomeD [of i d g]
    by (auto simp: lobbies_participants lobbies_Some lobby_of_def progress_is_participant)
next
  case (step_leave i g u)
  then show ?thesis
    using lobby_step.intros(3) [of "lobbies d" i "lobby_of d g" u] find_game_SomeD [of i d g]
    by (auto simp: lobbies_participants lobbies_Some lobby_of_def progress_is_participant)
next
  case (step_start i g u t)
  then have "int (if g_IsSolo g then 1 else 2) \<le> int (length (progress i d))"
    by (auto simp: progress_def count_where_def split: if_splits)
  with step_start show ?thesis
    using lobby_step.intros(4) [of "lobbies d" i "lobby_of d g" u] find_game_SomeD [of i d g]
    by (auto simp: lobbies_set_game lobbies_Some lobby_of_def game_states)
next
  case (step_cancel i g u t)
  then show ?thesis
    using lobby_step.intros(7) [of "lobbies d" i "lobby_of d g" u]
    by (auto simp: lobbies_set_game lobbies_Some lobby_of_def game_states)
next
  case (step_timeout i g u t)
  then show ?thesis
    using lobby_step.intros(8) [of "lobbies d" i "lobby_of d g" u]
    by (auto simp: lobbies_set_game lobbies_Some lobby_of_def game_states)
next
  case (step_delete i g u)
  then show ?thesis
    using lobby_step.intros(9) [of "lobbies d" i "lobby_of d g" u]
    by (auto simp: lobbies_drop_game lobbies_Some lobby_of_def)
qed

lemma lobby_run_refines:
  "row_run es d d' \<Longrightarrow> games_inv d \<Longrightarrow> lobby_run es (lobbies d) (lobbies d')"
  by (induction es arbitrary: d) (auto intro: lobby_step_refines inv.step_keeps)

lemma run_call_refines:
  assumes "games_inv (db w)" and "run_call c w = (r, w')"
  shows "\<exists>es \<in> call_events c. lobby_run es (lobbies (db w)) (lobbies (db w'))"
  using performsD [OF run_call_performs assms(2)] lobby_run_refines [OF _ assms(1)] by blast

section \<open>When a call succeeds\<close>

text \<open>
  Sequences ahead of the identifiers in use, with room left, and an unused invite token next on the
  random tape: what PostgreSQL provides until a sequence runs out.
\<close>

definition sequences_ahead :: "'z world_scheme \<Rightarrow> bool" where
  "sequences_ahead w \<longleftrightarrow>
     seq_games (seqs w) < max_int4 \<and> (\<forall>g \<in> set (d_games (db w)). g_ID g \<le> seq_games (seqs w)) \<and>
     seq_participants (seqs w) < max_int4 \<and>
     (\<forall>p \<in> set (d_participants (db w)). gp_ID p \<le> seq_participants (seqs w) \<and>
        gp_CurrentProblemIndex p < max_int4) \<and>
     rng w (rpos w) \<notin> g_InviteToken ` set (d_games (db w))"

fun game_where :: "(game \<Rightarrow> bool) \<Rightarrow> int \<Rightarrow> database \<Rightarrow> bool" where
  "game_where P i d = (case find_game i d of None \<Rightarrow> False | Some g \<Rightarrow> P g)"

definition resolvable :: "uuid \<Rightarrow> database \<Rightarrow> string \<Rightarrow> bool" where
  "resolvable u d slug \<longleftrightarrow>
     (case find_problem slug d of
        None \<Rightarrow> False
      | Some p \<Rightarrow> (p_Visibility p = ''private'' \<longrightarrow> p_OwnerUserID p = Some u) \<and>
          (case p_CurrentVersionID p of None \<Rightarrow> False | Some v \<Rightarrow> version_exists v d))"

definition may_join :: "int \<Rightarrow> uuid \<Rightarrow> database \<Rightarrow> bool" where
  "may_join i u d \<longleftrightarrow>
     game_where (\<lambda>g. g_Status g = Pending) i d \<and> \<not> is_participant i u d \<and> user_exists u d"

text \<open>The contract: who may do what, and when.\<close>

fun enabled :: "game_call \<Rightarrow> database \<Rightarrow> bool" where
  "enabled (CallCreate u slugs pub solo lim) d \<longleftrightarrow>
     slugs \<noteq> [] \<and> length slugs \<le> 20 \<and> '''' \<notin> set slugs \<and> user_exists u d \<and>
     list_all (resolvable u d) slugs"
| "enabled (CallJoin gid u) d \<longleftrightarrow> may_join (int32 gid) u d"
| "enabled (CallJoinByToken tok u) d \<longleftrightarrow>
     (case List.find (\<lambda>g. g_InviteToken g = tok) (d_games d) of
        None \<Rightarrow> False | Some g \<Rightarrow> may_join (int32 (g_ID g)) u d)"
| "enabled (CallLeave gid u) d \<longleftrightarrow>
     game_where (\<lambda>g. g_Status g = Pending \<and> g_CreatorID g \<noteq> u) (int32 gid) d \<and>
     is_participant (int32 gid) u d"
| "enabled (CallStart gid u) d \<longleftrightarrow>
     game_where (\<lambda>g. g_Status g = Pending \<and> g_CreatorID g = u \<and>
       enough_players (players (int32 gid) d) g) (int32 gid) d"
| "enabled (CallAccepted gid u) d \<longleftrightarrow>
     (case find_participant (int32 gid) u d of
        None \<Rightarrow> False
      | Some p \<Rightarrow> gp_CurrentProblemIndex p + 1 < int (length (problem_indices (int32 gid) d)) \<or>
          game_where (\<lambda>g. g_Status g = Active) (int32 gid) d)"
| "enabled (CallComplete gid c u) d \<longleftrightarrow>
     game_where (\<lambda>g. g_CreatorID g = c \<and> g_Status g = Active) (int32 gid) d \<and>
     is_participant (int32 gid) u d"
| "enabled (CallCompleteAsWinner gid u) d \<longleftrightarrow>
     game_where (\<lambda>g. g_Status g = Active) (int32 gid) d \<and> is_participant (int32 gid) u d"
| "enabled (CallCancel gid u) d \<longleftrightarrow>
     game_where (\<lambda>g. g_CreatorID g = u \<and> (g_Status g = Pending \<or> g_Status g = Active)) (int32 gid) d"
| "enabled (CallTimeout gid u) d \<longleftrightarrow>
     game_where (\<lambda>g. g_IsSolo g \<and> g_CreatorID g = u \<and> g_Status g = Active) (int32 gid) d"
| "enabled (CallDelete gid u) d \<longleftrightarrow> game_where (\<lambda>g. g_CreatorID g = u) (int32 gid) d"

lemma participant_user: "games_inv d \<Longrightarrow> is_participant i u d \<Longrightarrow> user_exists u d"
  by (auto simp: games_inv_def refs_ok_def is_participant_def)

lemma creator_user: "games_inv d \<Longrightarrow> find_game i d = Some g \<Longrightarrow> user_exists (g_CreatorID g) d"
  using lobby_creator [of d i g] participant_user [of d] by (simp add: players_is_participant)

lemma participant_game: "games_inv d \<Longrightarrow> is_participant i u d \<Longrightarrow> \<exists>g. find_game i d = Some g"
  by (auto simp: games_inv_def refs_ok_def is_participant_def find_game_exists)

lemma fresh_participant_id:
  "sequences_ahead w \<Longrightarrow> seq_participants (seqs w) + 1 \<notin> gp_ID ` set (d_participants (db w))"
  by (force simp: sequences_ahead_def)

lemmas fine_queries =
  qIsGameParticipant_def qAddGameParticipant_def qRemoveGameParticipant_def qCountGameParticipants_def
  qStartGame_def qCompleteGame_def qCancelGame_def qTimeoutGame_def qDeleteGame_def
  qCountGameProblems_def qGetGameByID_def qGetGameByInviteToken_def

lemma keeps_fine_getGameForUpdate [keeps_intro]: "keeps all_fine (getGameForUpdate gid)"
  unfolding getGameForUpdate_def qGetGameForUpdate_def by (intro keeps_intro)

lemma succeeds_getGameForUpdate [fine]:
  "all_fine w \<Longrightarrow> succeeds (bindE (getGameForUpdate gid) k) w \<longleftrightarrow>
     (case find_game (int32 gid) (db w) of None \<Rightarrow> False
      | Some g \<Rightarrow> succeeds (k g) (w\<lparr>fpos := Suc (fpos w)\<rparr>))"
  by (simp add: getGameForUpdate_def qGetGameForUpdate_def fine split: option.split)

lemma succeeds_GetGame [fine]:
  "all_fine w \<Longrightarrow> succeeds (bindE (GetGame gid) k) w \<longleftrightarrow>
     (case find_game (int32 gid) (db w) of None \<Rightarrow> False
      | Some g \<Rightarrow> succeeds (k g) (w\<lparr>fpos := Suc (fpos w)\<rparr>))"
  by (simp add: GetGame_def qGetGameByID_def fine split: option.split)

lemma succeeds_update_game [simp]:
  "(case update_game i f d of Inl _ \<Rightarrow> False | Inr _ \<Rightarrow> True) \<longleftrightarrow> find_game i d \<noteq> None"
  by (simp add: update_game_def split: option.split)

lemmas fine_run = fine succeeds_in_tx keeps_intro fine_queries

lemma JoinGame_succeeds:
  assumes "all_fine w" "sequences_ahead w"
  shows "succeeds (JoinGame gid u) w \<longleftrightarrow> enabled (CallJoin gid u) (db w)"
  using assms fresh_participant_id [OF assms(2)]
  by (auto simp: JoinGame_def fine_run find_game_ID [of "int32 gid" "db w"] may_join_def sequences_ahead_def find_game_exists
      split: option.splits if_splits)

lemma LeaveGame_succeeds:
  assumes "all_fine w"
  shows "succeeds (LeaveGame gid u) w \<longleftrightarrow> enabled (CallLeave gid u) (db w)"
  using assms
  by (auto simp: LeaveGame_def fine_run find_game_ID [of "int32 gid" "db w"] count_participant_zero split: option.split if_splits)

lemma JoinGameByToken_succeeds:
  assumes "all_fine w" "sequences_ahead w"
  shows "succeeds (JoinGameByToken tok u) w \<longleftrightarrow> enabled (CallJoinByToken tok u) (db w)"
proof -
  have "sequences_ahead (w\<lparr>fpos := n\<rparr>)" for n
    using assms by (simp add: sequences_ahead_def)
  with assms JoinGame_succeeds [of "w\<lparr>fpos := Suc (fpos w)\<rparr>"] show ?thesis
    by (simp add: JoinGameByToken_def GetGameByToken_def fine_run split: option.split)
qed

lemma StartGame_succeeds:
  assumes "all_fine w"
  shows "succeeds (StartGame gid u) w \<longleftrightarrow> enabled (CallStart gid u) (db w)"
  using assms length_players [of "int32 gid" "db w"]
  by (auto simp: StartGame_def fine_run find_game_ID [of "int32 gid" "db w"] enough_players_def split: option.split if_splits)

lemma completeGame_succeeds:
  assumes "all_fine w" "games_inv (db w)"
  shows "succeeds (completeGame gid u) w \<longleftrightarrow> enabled (CallCompleteAsWinner gid u) (db w)"
  using assms participant_user [of "db w" "int32 gid" u]
  by (auto simp: completeGame_def fine_run find_game_ID [of "int32 gid" "db w"] split: option.split if_splits)

lemma CompleteGame_succeeds:
  assumes "all_fine w" "games_inv (db w)"
  shows "succeeds (CompleteGame gid c u) w \<longleftrightarrow> enabled (CallComplete gid c u) (db w)"
  using assms completeGame_succeeds [of "w\<lparr>fpos := Suc (fpos w)\<rparr>" gid u]
  by (auto simp: CompleteGame_def fine_run find_game_ID [of "int32 gid" "db w"] split: option.split)

lemma CancelGame_succeeds:
  assumes "all_fine w"
  shows "succeeds (CancelGame gid u) w \<longleftrightarrow> enabled (CallCancel gid u) (db w)"
  using assms
  by (auto simp: CancelGame_def fine_run find_game_ID [of "int32 gid" "db w"] split: option.split if_splits intro: game_status.exhaust)

lemma TimeoutGame_succeeds:
  assumes "all_fine w"
  shows "succeeds (TimeoutGame gid u) w \<longleftrightarrow> enabled (CallTimeout gid u) (db w)"
  using assms by (auto simp: TimeoutGame_def fine_run find_game_ID [of "int32 gid" "db w"] split: option.split if_splits)

lemma count_game_zero: "count_where (\<lambda>g. g_ID g = i) (d_games d) = 0 \<longleftrightarrow> find_game i d = None"
  by (auto simp: count_where_zero find_game_def find_None_iff)

lemma DeleteGame_succeeds:
  assumes "all_fine w"
  shows "succeeds (DeleteGame gid u) w \<longleftrightarrow> enabled (CallDelete gid u) (db w)"
  using assms by (auto simp: DeleteGame_def fine_run count_game_zero split: option.split)

lemma HandleAcceptedSubmission_succeeds:
  assumes "all_fine w" "games_inv (db w)" "sequences_ahead w"
  shows "succeeds (HandleAcceptedSubmission gid u) w \<longleftrightarrow> enabled (CallAccepted gid u) (db w)"
proof (cases "find_participant (int32 gid) u (db w)")
  case None
  then show ?thesis using assms(1) by (simp add: HandleAcceptedSubmission_def fine_run
        qAdvanceParticipantProblem_def)
next
  case (Some p)
  then have player: "is_participant (int32 gid) u (db w)" and "gp_CurrentProblemIndex p < max_int4"
    using assms(3) find_participant_SomeD [of "int32 gid" u "db w" p]
    by (auto simp: is_participant_find sequences_ahead_def)
  moreover obtain g where g: "find_game (int32 gid) (db w) = Some g" "g_ID g = int32 gid"
    using participant_game [OF assms(2) player] find_game_ID by blast
  moreover have "user_exists (g_CreatorID g) (db w)" "user_exists u (db w)"
    using creator_user [OF assms(2) g(1)] participant_user [OF assms(2) player] by auto
  moreover have "count_where (\<lambda>p. gpr_GameID p = int32 gid) (d_game_problems (db w)) =
      int (length (problem_indices (int32 gid) (db w)))" "problem_indices (int32 gid) (db w) \<noteq> []"
    using assms(2) find_game_SomeD [OF g(1)]
    by (auto simp: count_where_def problem_indices_def games_inv_def lobbies_ok_def lobby_ok_def)
  ultimately show ?thesis using Some assms(1)
    by (simp add: HandleAcceptedSubmission_def fine_run qAdvanceParticipantProblem_def Let_def
        find_game_changes)
qed

text \<open>The loop of \<^verbatim>\<open>CreateGame\<close> over the problems runs to its end.\<close>

lemma resolvable_iff: "resolvable u d slug \<longleftrightarrow> (\<exists>v. resolves_to u d slug v \<and> version_exists v d)"
  by (auto simp: resolvable_def resolves_to_def split: option.split)

lemma forE_problems_succeeds:
  assumes "all_fine w" and "list_all (resolvable u (db w)) slugs" and "k + length slugs \<le> 20"
    and "game_exists i (db w)"
    and "\<And>j. k \<le> j \<Longrightarrow> (i, int j) \<notin> (\<lambda>p. (gpr_GameID p, gpr_ProblemIndex p)) ` set (d_game_problems (db w))"
  shows "\<exists>w'. forE (enumerate k slugs) (\<lambda>(idx, slug).
      bindE (resolveProblemVersion u slug) (\<lambda>ver. qAddGameProblem i (int32 (int idx)) slug ver)) w
      = (Inr (), w') \<and> all_fine w'"
  using assms
proof (induction slugs arbitrary: k w)
  case Nil
  then show ?case by (simp add: success)
next
  case (Cons s ss)
  from Cons.prems(2) obtain v where v: "resolves_to u (db w) s v" "version_exists v (db w)"
    by (auto simp: resolvable_iff)
  let ?w = "w\<lparr>fpos := Suc (Suc (fpos w)), db := (db w)\<lparr>d_game_problems := d_game_problems (db w) @
     [\<lparr>gpr_GameID = i, gpr_ProblemIndex = int k, gpr_ProblemID = s, gpr_ProblemVersionID = v\<rparr>]\<rparr>\<rparr>"
  have idx: "int32 (int k) = int k" using Cons.prems(3) by (simp add: wrap_int_id)
  have "bindE (resolveProblemVersion u s) (\<lambda>ver. qAddGameProblem i (int32 (int k)) s ver) w = (Inr (), ?w)"
    using v Cons.prems(1,3,4) Cons.prems(5) [of k]
    by (auto simp: success all_fine_def idx intro!: exI [of _ v])
  moreover have "resolvable u (db ?w) = resolvable u (db w)"
    by (simp add: fun_eq_iff resolvable_iff)
  then have "\<exists>w'. forE (enumerate (Suc k) ss) (\<lambda>(idx, slug).
      bindE (resolveProblemVersion u slug) (\<lambda>ver. qAddGameProblem i (int32 (int idx)) slug ver)) ?w
      = (Inr (), w') \<and> all_fine w'"
    using Cons.prems by (intro Cons.IH) auto
  ultimately show ?case by (auto simp: bindE_Inr)
qed

lemma create_body_fine:
  "keeps all_fine (create_body u slugs pub solo lim)"
  unfolding resolveProblemVersion_def qCreateGame_def qAddGameParticipant_def qAddGameProblem_def
    qGetProblemCatalogBySlug_def
  by (intro keeps_intro)

lemma create_body_succeeds:
  assumes "all_fine w" "games_inv (db w)" "sequences_ahead w" "user_exists u (db w)"
    "list_all (resolvable u (db w)) slugs" "length slugs \<le> 20"
  shows "succeeds (create_body u slugs pub solo lim) w"
proof -
  let ?g = "new_game (seq_games (seqs w) + 1) (rng w (rpos w)) (now w) u pub solo lim"
  let ?w1 = "w\<lparr>fpos := Suc (fpos w), seqs := (seqs w)\<lparr>seq_games := seq_games (seqs w) + 1\<rparr>,
            rpos := Suc (rpos w), db := (db w)\<lparr>d_games := d_games (db w) @ [?g]\<rparr>\<rparr>"
  have new: "\<not> game_exists (g_ID ?g) (db w)"
    using assms(3) by (force simp: sequences_ahead_def game_exists_def)
  with assms(1,3,4) have create: "qCreateGame u pub solo lim w = (Inr ?g, ?w1)"
    by (simp add: success all_fine_def sequences_ahead_def)
  have "p \<in> set (d_game_problems (db w)) \<Longrightarrow> gpr_GameID p \<noteq> g_ID ?g" for p
    using new assms(2) by (auto simp: games_inv_def refs_ok_def)
  moreover have "resolvable u (db ?w1) = resolvable u (db w)"
    by (simp add: fun_eq_iff resolvable_iff)
  ultimately obtain w2 where
    loop: "forE (enumerate 0 slugs) (\<lambda>(idx, slug). bindE (resolveProblemVersion u slug)
        (\<lambda>v. qAddGameProblem (g_ID ?g) (int32 (int idx)) slug v)) ?w1 = (Inr (), w2)" "all_fine w2"
    using assms forE_problems_succeeds [of ?w1 u slugs 0 "g_ID ?g"] by fastforce
  then obtain vers where "db w2 = (db w)\<lparr>d_games := d_games (db w) @ [?g], d_game_problems :=
       d_game_problems (db w) @ problem_rows (g_ID ?g) 0 slugs vers\<rparr>"
    "seqs w2 = (seqs w)\<lparr>seq_games := seq_games (seqs w) + 1\<rparr>"
    using forE_problems_Inr [OF loop(1)] assms(6) by auto
  moreover have "\<not> is_participant (g_ID ?g) u (db w)"
    using refs_no_game(1) [OF _ new] assms(2) by (simp add: games_inv_def flip: players_is_participant)
  ultimately obtain w3 where add: "qAddGameParticipant (g_ID ?g) u w2 = (Inr (), w3)"
    using loop(2) assms(3,4) fresh_participant_id [OF assms(3)]
    by (auto simp: qAddGameParticipant_Inr all_fine_def sequences_ahead_def)
  have "create_body u slugs pub solo lim w = (Inr ?g, w3)"
    unfolding bindE_Inr ret_iff by (intro exI conjI, rule create, rule loop(1), rule add) simp_all
  then show ?thesis by (auto simp: succeeds_iff)
qed

lemma CreateGame_succeeds:
  assumes "all_fine w" "games_inv (db w)" "sequences_ahead w"
  shows "succeeds (CreateGame u slugs pub solo lim) w \<longleftrightarrow>
    enabled (CallCreate u slugs pub solo lim) (db w)" (is "?S \<longleftrightarrow> ?E")
proof -
  have opened: "user_exists u (db w) \<and> list_all (resolvable u (db w)) slugs"
    if "succeeds (create_body u slugs pub solo lim) (w\<lparr>fpos := n\<rparr>)" "length slugs \<le> 20" for n
    using that create_body_Inr [where w = "w\<lparr>fpos := n\<rparr>"]
    by (fastforce simp: succeeds_iff maxGameProblems_def opened_def list_all2_conv_all_nth
        list_all_length resolvable_iff)
  have "sequences_ahead (w\<lparr>fpos := n\<rparr>)" for n
    using assms(3) by (simp add: sequences_ahead_def)
  with assms have closed: "succeeds (create_body u slugs pub solo lim) (w\<lparr>fpos := n\<rparr>)"
    if "user_exists u (db w)" "list_all (resolvable u (db w)) slugs" "length slugs \<le> 20" for n
    using that by (intro create_body_succeeds) simp_all
  show ?thesis
    using opened closed assms(1)
    by (auto simp: CreateGame_def fine succeeds_in_tx create_body_fine maxGameProblems_def)
qed

lemma run_call_fine: "keeps all_fine (run_call c)"
proof (cases c)
  case CallCreate
  then show ?thesis by (auto simp: CreateGame_def intro!: keeps_intro create_body_fine)
qed (auto simp: JoinGame_def JoinGameByToken_def GetGameByToken_def LeaveGame_def StartGame_def
    CompleteGame_def CompleteGameAsWinner_def completeGame_def GetGame_def CancelGame_def
    TimeoutGame_def DeleteGame_def HandleAcceptedSubmission_def qAdvanceParticipantProblem_def
    Let_def fine_queries intro!: keeps_intro)

lemma all_fine_call [simp]: "all_fine w \<Longrightarrow> all_fine (snd (run_call c w))"
  by (cases "run_call c w") (auto dest: keepsD [OF run_call_fine])

lemma run_call_succeeds:
  assumes "all_fine w" "games_inv (db w)" "sequences_ahead w"
  shows "succeeds (run_call c) w \<longleftrightarrow> enabled c (db w)"
  by (cases c) (simp_all add: assms fine CreateGame_succeeds JoinGame_succeeds LeaveGame_succeeds
      JoinGameByToken_succeeds StartGame_succeeds HandleAcceptedSubmission_succeeds
      CompleteGame_succeeds CompleteGameAsWinner_def completeGame_succeeds CancelGame_succeeds
      TimeoutGame_succeeds DeleteGame_succeeds del: enabled.simps)

section \<open>Failing calls\<close>

text \<open>Without transport faults a call that returns an error has changed no row.\<close>

definition atomic_on_error :: "('z, 'a) op \<Rightarrow> bool" where
  "atomic_on_error m \<longleftrightarrow> (\<forall>w e w'. all_fine w \<longrightarrow> m w = (Inl e, w') \<longrightarrow> db w' = db w)"

lemma atomic_in_tx: "keeps all_fine body \<Longrightarrow> atomic_on_error (in_tx body)"
  unfolding atomic_on_error_def
proof (intro allI impI)
  fix w e w' assume *: "keeps all_fine body" "all_fine w" "in_tx body w = (Inl e, w')"
  have "faults w2 (fpos w2) = Fine" if "body (w\<lparr>fpos := Suc (fpos w)\<rparr>) = (r, w2)" for r w2
    using keepsD [OF *(1) _ that] *(2) by (simp add: all_fine_def)
  with *(2,3) show "db w' = db w"
    by (auto simp: in_tx_def roundtrip_def ret_def Let_def all_fine_def
        split: fault.splits prod.splits sum.splits)
qed

lemma atomic_throw: "atomic_on_error (throw e)"
  by (auto simp: atomic_on_error_def throw_def)

lemma atomic_if: "atomic_on_error m \<Longrightarrow> atomic_on_error n \<Longrightarrow> atomic_on_error (if b then m else n)"
  by simp

lemma atomic_writes: "atomic_on_error (writes f)"
  by (auto simp: atomic_on_error_def writes_def roundtrip_def Let_def all_fine_def split: sum.splits)

lemma atomicD: "atomic_on_error m \<Longrightarrow> all_fine w \<Longrightarrow> m w = (Inl e, w') \<Longrightarrow> db w' = db w"
  unfolding atomic_on_error_def by blast

lemma atomic_bind_ret:
  assumes "atomic_on_error m"
  shows "atomic_on_error (bindE m (\<lambda>a. ret (f a)))"
  unfolding atomic_on_error_def
proof (intro allI impI)
  fix w e w' assume fine: "all_fine w" and "bindE m (\<lambda>a. ret (f a)) w = (Inl e, w')"
  then have "m w = (Inl e, w')" by (simp add: bindE_Inl ret_def)
  then show "db w' = db w" by (rule atomicD [OF assms fine])
qed

lemma atomic_bind_reads:
  assumes "\<And>a. atomic_on_error (k a)"
  shows "atomic_on_error (bindE (mapErr h (reads f)) k)"
  unfolding atomic_on_error_def
proof (intro allI impI)
  fix w e w' assume fine: "all_fine w" and run: "bindE (mapErr h (reads f)) k w = (Inl e, w')"
  consider (read) "db w' = db w" | (rest) a where "k a (w\<lparr>fpos := Suc (fpos w)\<rparr>) = (Inl e, w')"
    using run fine
    by (auto simp: bindE_Inl mapErr_Inr reads_Inr)
      (auto simp: mapErr_def tryE_def throw_def ret_def reads_def roundtrip_def Let_def all_fine_def
        split: sum.splits)
  then show "db w' = db w"
  proof cases
    case (rest a)
    from atomicD [OF assms _ rest] fine show ?thesis by simp
  qed
qed

lemmas atomic_intro = atomic_in_tx atomic_throw atomic_if atomic_writes atomic_bind_ret atomic_bind_reads

fun is_accepted :: "game_call \<Rightarrow> bool" where
  "is_accepted (CallAccepted _ _) = True"
| "is_accepted _ = False"

lemma DeleteGame_atomic: "atomic_on_error (DeleteGame gid u)"
  unfolding atomic_on_error_def
proof (intro allI impI)
  fix w e w' assume "all_fine w" "DeleteGame gid u w = (Inl e, w')"
  then show "db w' = db w"
    by (auto simp: DeleteGame_def bindE_Inl GetGame_Inr qDeleteGame_def writes_Inr all_fine_def
        count_game_zero find_game_exists throw_iff ret_iff split: if_splits)
      (auto simp: GetGame_def qGetGameByID_def mapErr_def tryE_def throw_def ret_def reads_def writes_def
        roundtrip_def Let_def all_fine_def split: sum.splits)
qed

lemma run_call_atomic: "\<not> is_accepted c \<Longrightarrow> atomic_on_error (run_call c)"
proof (cases c)
  case CallCreate
  then show ?thesis
    by (auto simp: CreateGame_def intro!: atomic_intro create_body_fine)
qed (auto simp: JoinGame_def JoinGameByToken_def GetGameByToken_def LeaveGame_def StartGame_def
    CompleteGame_def CompleteGameAsWinner_def completeGame_def GetGame_def CancelGame_def
    TimeoutGame_def fine_queries DeleteGame_atomic intro!: atomic_intro keeps_intro)

section \<open>Which game a call is about, and who may make it\<close>

fun targets :: "game_call \<Rightarrow> database \<Rightarrow> int \<Rightarrow> bool" where
  "targets (CallCreate _ _ _ _ _) d j \<longleftrightarrow> \<not> game_exists j d"
| "targets (CallJoin gid _) d j \<longleftrightarrow> int32 gid = j"
| "targets (CallJoinByToken tok _) d j \<longleftrightarrow>
     (\<exists>g \<in> set (d_games d). g_InviteToken g = tok \<and> int32 (g_ID g) = j)"
| "targets (CallLeave gid _) d j \<longleftrightarrow> int32 gid = j"
| "targets (CallStart gid _) d j \<longleftrightarrow> int32 gid = j"
| "targets (CallAccepted gid _) d j \<longleftrightarrow> int32 gid = j"
| "targets (CallComplete gid _ _) d j \<longleftrightarrow> int32 gid = j"
| "targets (CallCompleteAsWinner gid _) d j \<longleftrightarrow> int32 gid = j"
| "targets (CallCancel gid _) d j \<longleftrightarrow> int32 gid = j"
| "targets (CallTimeout gid _) d j \<longleftrightarrow> int32 gid = j"
| "targets (CallDelete gid _) d j \<longleftrightarrow> int32 gid = j"

lemma game_view_run:
  "row_run es d d' \<Longrightarrow> \<forall>e \<in> set es. event_game e \<noteq> j \<Longrightarrow> game_view j d' = game_view j d"
  by (rule frame.run_keeps) auto

lemma row_step_open_fresh: "row_step (EOpen n u slugs solo) d d' \<Longrightarrow> \<not> game_exists n d"
  by (erule row_step_openE) (auto simp: opened_def)

lemma run_call_isolated:
  assumes "\<not> targets c (db w) j"
  shows "game_view j (db (snd (run_call c w))) = game_view j (db w)"
proof -
  obtain r w' where run: "run_call c w = (r, w')" by fastforce
  have "game_view j (db w') = game_view j (db w)"
  proof (cases c)
    case (CallJoinByToken tok u)
    have "wp (run_call c) (\<lambda>_ w'. db w' = db w \<or> (\<exists>g \<in> set (d_games (db w)).
        g_InviteToken g = tok \<and> row_step (EJoin (int32 (g_ID g)) u) (db w) (db w'))) w"
      unfolding CallJoinByToken run_call.simps
      by (intro wp_bind_keeps JoinGameByToken_effect keeps_ret)
    from wpD [OF this run] assms CallJoinByToken game_view_step show ?thesis by auto
  next
    case (CallCreate u slugs pub solo lim)
    with performsD [OF run_call_performs run] consider "db w' = db w" |
      n where "row_step (EOpen n u slugs solo) (db w) (db w')" by auto
    then show ?thesis
    proof cases
      case 2
      with row_step_open_fresh assms CallCreate have "n \<noteq> j" by fastforce
      with game_view_step [OF 2] show ?thesis by simp
    qed simp
  qed (use performsD [OF run_call_performs run] assms in
        \<open>fastforce intro!: game_view_run simp del: row_run.simps\<close>)+
  with run show ?thesis by simp
qed

text \<open>The calls reserved to the creator, with the caller.\<close>

fun creator_call :: "game_call \<Rightarrow> (int \<times> uuid) option" where
  "creator_call (CallStart gid u) = Some (gid, u)"
| "creator_call (CallComplete gid u v) = Some (gid, u)"
| "creator_call (CallCancel gid u) = Some (gid, u)"
| "creator_call (CallTimeout gid u) = Some (gid, u)"
| "creator_call (CallDelete gid u) = Some (gid, u)"
| "creator_call _ = None"

inductive_cases row_step_creatorE:
  "row_step (EStart i u) d d'" "row_step (ECancel i u) d d'"
  "row_step (ETimeout i u) d d'" "row_step (EDelete i u) d d'"

lemma CompleteGame_unauthorised:
  assumes "find_game (int32 gid) (db w) = Some g" and "g_CreatorID g \<noteq> u"
  shows "db (snd (CompleteGame gid u v w)) = db w"
  using assms
  by (auto simp: CompleteGame_def GetGame_def qGetGameByID_def bindE_def mapErr_def tryE_def throw_def
      ret_def reads_def roundtrip_def Let_def split: fault.split)

lemma run_call_unauthorised:
  assumes c: "creator_call c = Some (gid, u)" and g: "find_game (int32 gid) (db w) = Some g"
    and u: "g_CreatorID g \<noteq> u"
  shows "db (snd (run_call c w)) = db w"
proof -
  obtain r w' where run: "run_call c w = (r, w')" by fastforce
  have "db w' = db w"
  proof (cases c)
    case (CallComplete gid' u' v)
    with c g u CompleteGame_unauthorised [of gid w g u v] run show ?thesis
      by (auto simp: bindE_def ret_def split: prod.splits sum.splits)
  qed (use performsD [OF run_call_performs run] c g u in \<open>auto elim!: row_step_creatorE\<close>)
  with run show ?thesis by simp
qed

section \<open>Results of the operations that read\<close>

lemma count_problems:
  "count_where (\<lambda>p. gpr_GameID p = i) (d_game_problems d) = int (length (problem_indices i d))"
  by (simp add: count_where_def problem_indices_def)

lemma participant_has_problems:
  assumes "games_inv d" and "is_participant i u d"
  shows "problem_indices i d \<noteq> []"
  using participant_game [OF assms] assms(1)
  by (auto simp: games_inv_def lobbies_ok_def lobby_ok_def dest!: find_game_SomeD)

lemma HandleAcceptedSubmission_Inr:
  assumes inv: "games_inv (db w)" and run: "HandleAcceptedSubmission gid u w = (Inr (g, won), w')"
  shows "\<exists>p. find_participant (int32 gid) u (db w) = Some p \<and>
    (won \<longleftrightarrow> int (length (problem_indices (int32 gid) (db w))) \<le> gp_CurrentProblemIndex p + 1) \<and>
    (if won
     then \<exists>g0. find_game (int32 gid) (db w) = Some g0 \<and> g_Status g0 = Active \<and>
       g = completed (now w) (Some (if g_IsSolo g0 then g_CreatorID g0 else u)) g0 \<and>
       db w' = set_game (int32 gid) (completed (now w) (Some (if g_IsSolo g0 then g_CreatorID g0 else u)))
                 (advance_participant (int32 gid) u (db w))
     else find_game (int32 gid) (db w) = Some g \<and>
       db w' = advance_participant (int32 gid) u (db w))"
proof -
  from run obtain p where p: "find_participant (int32 gid) u (db w) = Some p"
    by (auto simp: HandleAcceptedSubmission_def success qAdvanceParticipantProblem_def
        split: option.splits)
  then have "problem_indices (int32 gid) (db w) \<noteq> []"
    using participant_has_problems [OF inv] by (auto simp: is_participant_find)
  with p run show ?thesis
    by (auto simp: HandleAcceptedSubmission_def success qAdvanceParticipantProblem_def
        qCountGameProblems_def qGetGameByID_def count_problems find_game_changes Let_def
        split: if_splits)
qed

lemma append_all_filter: "append_all rows k = map snd (filter (\<lambda>r. fst r = k) rows)"
proof -
  have "foldl (\<lambda>m (k, v). m(k := m k @ [v])) f rows k = f k @ map snd (filter (\<lambda>r. fst r = k) rows)" for f
    by (induction rows arbitrary: f) auto
  then show ?thesis by (simp add: append_all_def)
qed

lemma filter_sort_key_const: "filter (\<lambda>p. f p = k) (sort_key f xs) = filter (\<lambda>p. f p = k) xs"
  by (rule sort_key_stable)

lemma filter_join_users:
  "filter (\<lambda>r. fst r = k) (join_users (\<lambda>p u. (gp_GameID p, row p u)) d ps) =
     join_users (\<lambda>p u. (gp_GameID p, row p u)) d (filter (\<lambda>p. gp_GameID p = k) ps)"
  by (induction ps) (auto simp: join_users_def filter_map comp_def)

lemma filter_sort_key_swap: "filter P (sort_key f xs) = sort_key f (filter P xs)"
  by (rule filter_sort)

lemma map_join_users: "map h (join_users row d ps) = join_users (\<lambda>p u. h (row p u)) d ps"
  by (simp add: join_users_def map_concat comp_def)

text \<open>
  The batch queries give, for every requested game, the list the query for one game gives.
\<close>

lemma batch_participants:
  assumes "GetParticipantsByGameIDs gids w = (Inr m, w1)" and "gid \<in> set gids" and "int32 gid = gid"
    and "db v = db w" and "GetParticipants gid v = (Inr ps, v1)"
  shows "m gid = ps"
proof -
  have same: "(\<lambda>x. gp_GameID x \<in> set gids \<and> gp_GameID x = gid) = (\<lambda>x. gp_GameID x = gid)"
    using assms(2) by auto
  have "m gid = map (\<lambda>(i, u, name). \<lparr>pt_ID = u, pt_Name = name\<rparr>) (filter (\<lambda>r. fst r = gid)
      (join_users (\<lambda>p u. (gp_GameID p, gp_UserID p, u_Name u)) (db w)
        (sort_key gp_GameID (sort_key gp_ID
          (filter (\<lambda>p. gp_GameID p \<in> set gids) (d_participants (db w)))))))"
    using assms(1) by (auto simp: GetParticipantsByGameIDs_def qGetParticipantsByGameIDs_def success
        append_all_filter filter_map comp_def split_beta)
  with assms(3-5) show ?thesis
    by (auto simp: GetParticipants_def qGetParticipants_def success filter_join_users map_join_users
        filter_sort_key_const filter_sort_key_swap same)
qed

lemma batch_problems:
  assumes "GetGameProblemIDsByGameIDs gids w = (Inr m, w1)" and "gid \<in> set gids"
    and "db v = db w" and "GetGameProblemIDs gid v = (Inr ps, v1)"
  shows "m gid = ps"
proof -
  have same: "(\<lambda>x. gpr_GameID x \<in> set gids \<and> gpr_GameID x = gid) = (\<lambda>x. gpr_GameID x = gid)"
    using assms(2) by auto
  show ?thesis
    using assms(1,3,4)
    by (auto simp: GetGameProblemIDsByGameIDs_def qGetGameProblemIDsByGameIDs_def GetGameProblemIDs_def
        qGetGameProblemIDs_def success append_all_filter filter_map comp_def game_problems_of_def
        filter_sort_key_const filter_sort_key_swap same)
qed

end
