(* ===== verification/Sample.thy ===== *)
theory Sample
  imports Database
begin

text \<open>
  A sample world on which properties are exercised: two users, one public problem
  \<^verbatim>\<open>two-sum-easy\<close> and one private problem of user 1, no transport faults.
\<close>

definition sample_user :: "uuid \<Rightarrow> user" where
  "sample_user i = \<lparr>u_ID = i, u_Username = ''u'', u_Email = ''u@x'', u_PasswordHash = None,
     u_EmailVerified = True, u_Rating = None, u_CreatedAt = None, u_UpdatedAt = None, u_Name = Some ''U''\<rparr>"

definition sample_problem :: "int \<Rightarrow> string \<Rightarrow> string \<Rightarrow> uuid option \<Rightarrow> problem_row" where
  "sample_problem i slug vis owner = \<lparr>p_ID = i, p_Slug = slug, p_OwnerUserID = owner,
     p_Visibility = vis, p_Status = ''published'', p_Title = slug, p_CurrentVersionID = Some i,
     p_CreatedAt = 0, p_UpdatedAt = 0\<rparr>"

definition sample_version :: "int \<Rightarrow> problem_version" where
  "sample_version i = \<lparr>pv_ID = i, pv_ProblemID = i, pv_Version = 1, pv_ArtifactPath = ''a'',
     pv_ArtifactSha256 = ''s'', pv_LimitsTimeMs = 1000, pv_LimitsMemoryKb = 262144,
     pv_CheckerType = ''exact'', pv_ReferenceLanguage = ''python'', pv_CreatedByUserID = Some 1,
     pv_CreatedAt = 0, pv_TestCaseCount = 2, pv_Difficulty = ''easy''\<rparr>"

definition sample_world :: world where
  "sample_world =
     \<lparr>db = empty_db\<lparr>d_users := [sample_user 1, sample_user 2],
        d_problems := [sample_problem 1 ''two-sum-easy'' ''public'' (Some 1),
                       sample_problem 2 ''secret'' ''private'' (Some 1)],
        d_versions := [sample_version 1, sample_version 2]\<rparr>,
      seqs = \<lparr>seq_games = 0, seq_participants = 0, seq_sessions = 0, seq_solutions = 0,
              seq_problems = 2, seq_versions = 2\<rparr>,
      now = 100, rng = (\<lambda>n. 1000 + n), rpos = 0, faults = (\<lambda>_. Fine), fpos = 0\<rparr>"

end
