(* ===== verification/Game_Props.thy ===== *)
theory Game_Props
  imports Game_Machine Sample
begin

text \<open>
  The properties of the game service, exercised on the sample world with one game that user 1
  created, user 2 joined and user 1 started.
\<close>

section \<open>A sample game\<close>

definition created_world :: world where
  "created_world = snd (run_call (CallCreate 1 [''two-sum-easy''] False False None) sample_world)"

definition joined_world :: world where
  "joined_world = snd (run_call (CallJoin 1 2) created_world)"

definition active_world :: world where
  "active_world = snd (run_call (CallStart 1 1) joined_world)"

lemma sample_inv: "games_inv (db sample_world)"
  by code_simp

lemma active_inv: "games_inv (db active_world)"
  by code_simp

lemma active_game: "map_option g_Status (find_game 1 (db active_world)) = Some Active"
  by code_simp

lemma active_fine: "all_fine active_world \<and> sequences_ahead active_world"
proof
  have "all_fine sample_world" by (simp add: all_fine_def sample_world_def)
  then show "all_fine active_world"
    by (simp add: active_world_def joined_world_def created_world_def del: run_call.simps)
qed code_simp

section \<open>Properties\<close>

text \<open>
  C1. The game tables keep their invariant (\<open>games_inv\<close>: unique keys, no dangling references,
  every game with its creator among its players, one to twenty problems with consecutive indices,
  and time stamps and winner that fit the status) through any sequence of service calls and steps
  of the environment, whatever round trips to the database fail and wherever they fail.
\<close>

theorem game_tables_invariant:
  assumes "games_inv (db w0)" and "reachable w0 w"
  shows "games_inv (db w)"
  using assms games_inv_reachable by blast

theorem game_tables_invariant_witness:
  "reachable sample_world created_world \<and> games_inv (db sample_world) \<and> games_inv (db created_world) \<and>
   length (d_games (db created_world)) = 1"
proof -
  have "reachable sample_world created_world"
    unfolding created_world_def
    by (rule reach_call [OF reach_init]) (rule prod.collapse [symmetric])
  moreover have "length (d_games (db created_world)) = 1" by code_simp
  ultimately show ?thesis using game_tables_invariant [OF sample_inv] sample_inv by blast
qed



text \<open>
  C2. Refinement: every call of the service, with any pattern of faults, is one of the few event
  sequences of the abstract machine of games that the call stands for (nothing, its event, or for
  an accepted submission an advance followed by a completion). In particular nobody but the
  caller moves, and every guard of the machine holds when its event happens.
\<close>

theorem service_refines_machine:
  assumes "games_inv (db w)"
  shows "\<exists>es \<in> call_events c. lobby_run es (lobbies (db w)) (lobbies (db (snd (run_call c w))))"
  using run_call_refines [OF assms, of c "fst (run_call c w)"] by simp

theorem service_refines_machine_witness:
  "\<exists>es \<in> call_events (CallAccepted 1 2). lobby_run es (lobbies (db active_world))
     (lobbies (db (snd (run_call (CallAccepted 1 2) active_world))))"
  using service_refines_machine [OF active_inv] by blast

text \<open>
  C3. Contract: without transport faults a call succeeds exactly when the game, the caller and the
  tables satisfy the conditions of the contract \<open>enabled\<close>.
\<close>

theorem service_contract:
  assumes "all_fine w" and "games_inv (db w)" and "sequences_ahead w"
  shows "succeeds (run_call c) w \<longleftrightarrow> enabled c (db w)"
  using run_call_succeeds [OF assms] .

theorem service_contract_witness:
  "succeeds (run_call (CallAccepted 1 2)) active_world \<and> \<not> succeeds (run_call (CallStart 1 1)) active_world"
proof -
  note contract = service_contract [OF conjunct1 [OF active_fine] active_inv conjunct2 [OF active_fine]]
  show ?thesis unfolding contract by code_simp
qed

text \<open>
  C5. A call that fails without a transport fault leaves every table as it was, for all calls
  except the handling of an accepted submission.
\<close>

theorem failed_call_changes_nothing:
  assumes "all_fine w" and "run_call c w = (Inl e, w')" and "\<not> is_accepted c"
  shows "db w' = db w"
  using atomicD [OF run_call_atomic [OF assms(3)] assms(1,2)] .

theorem failed_call_changes_nothing_witness:
  "\<exists>e w'. run_call (CallJoin 1 2) active_world = (Inl e, w') \<and> db w' = db active_world"
proof -
  have "\<not> succeeds (run_call (CallJoin 1 2)) active_world" by code_simp
  then obtain e w' where "run_call (CallJoin 1 2) active_world = (Inl e, w')"
    by (cases "run_call (CallJoin 1 2) active_world") (auto simp: succeeds_def split: sum.splits)
  with failed_call_changes_nothing [OF conjunct1 [OF active_fine]] show ?thesis by fastforce
qed

text \<open>
  A call about one game leaves every row of every other game (the game itself, its players,
  its problems, its solutions) untouched.
\<close>

lemma games_do_not_interfere:
  assumes "\<not> targets c (db w) j"
  shows "game_view j (db (snd (run_call c w))) = game_view j (db w)"
  using run_call_isolated [OF assms] .

text \<open>
  Starting, completing, cancelling, timing out and deleting a game are reserved to its
  creator: anybody else's call changes no table, whatever the faults.
\<close>

lemma only_creator_controls:
  assumes "creator_call c = Some (gid, u)" and "find_game (int32 gid) (db w) = Some g"
    and "g_CreatorID g \<noteq> u"
  shows "db (snd (run_call c w)) = db w"
  using run_call_unauthorised [OF assms] .

text \<open>
  An accepted submission moves the player exactly one problem forward. It reports a win exactly
  when that was the last problem; the game then was active and is finished, and the winner is the
  player, or the creator in a solo game. Otherwise the game row is unchanged.
\<close>

lemma accepted_submission_effect:
  assumes "games_inv (db w)" and "HandleAcceptedSubmission gid u w = (Inr (g, won), w')"
  shows "\<exists>p g0. find_participant (int32 gid) u (db w) = Some p \<and>
    find_game (int32 gid) (db w) = Some g0 \<and>
    (won \<longleftrightarrow> int (length (problem_indices (int32 gid) (db w))) \<le> gp_CurrentProblemIndex p + 1) \<and>
    find_game (int32 gid) (db w') = Some g \<and>
    g = (if won then completed (now w) (Some (if g_IsSolo g0 then g_CreatorID g0 else u)) g0 else g0) \<and>
    (won \<longrightarrow> g_Status g0 = Active) \<and>
    progress (int32 gid) (db w') =
      map (\<lambda>q. if fst q = u then (u, snd q + 1) else q) (progress (int32 gid) (db w))"
proof (cases won)
  case True
  with HandleAcceptedSubmission_Inr [OF assms] obtain p g0 where
    "find_participant (int32 gid) u (db w) = Some p" "find_game (int32 gid) (db w) = Some g0"
    "int (length (problem_indices (int32 gid) (db w))) \<le> gp_CurrentProblemIndex p + 1"
    "g_Status g0 = Active"
    "g = completed (now w) (Some (if g_IsSolo g0 then g_CreatorID g0 else u)) g0"
    "db w' = set_game (int32 gid) (completed (now w) (Some (if g_IsSolo g0 then g_CreatorID g0 else u)))
       (advance_participant (int32 gid) u (db w))"
    by auto
  with True show ?thesis
    by (simp add: progress_advance progress_changes find_game_set_game find_game_changes)
next
  case False
  with HandleAcceptedSubmission_Inr [OF assms] obtain p where
    "find_participant (int32 gid) u (db w) = Some p" "find_game (int32 gid) (db w) = Some g"
    "\<not> int (length (problem_indices (int32 gid) (db w))) \<le> gp_CurrentProblemIndex p + 1"
    "db w' = advance_participant (int32 gid) u (db w)"
    by auto
  with False show ?thesis by (simp add: progress_advance find_game_changes)
qed

text \<open>
  The batch queries used for lists of games agree with the queries for one game: for every
  requested game the same participants and the same problems in the same order.
\<close>

lemma batch_queries_agree:
  assumes "gid \<in> set gids" and "int32 gid = gid" and "db v = db w"
    and "GetParticipantsByGameIDs gids w = (Inr ps, w1)" and "GetParticipants gid v = (Inr p, v1)"
    and "GetGameProblemIDsByGameIDs gids w = (Inr qs, w2)" and "GetGameProblemIDs gid v = (Inr q, v2)"
  shows "ps gid = p \<and> qs gid = q"
  using batch_participants [OF assms(4,1,2,3,5)] batch_problems [OF assms(6,1,3,7)] by simp

text \<open>
  Listing games: whatever limit is asked for, a page has at most one hundred games; it is the
  requested window of the games the user may see (public, created or joined), newest first, and
  the total counts all of them.
\<close>

lemma list_games_page:
  assumes "ListGames limit offset u w = (Inr (gs, count), w')" and "offset < 2147483648"
  shows "gs = take (nat (clamp_limit limit)) (drop (nat offset)
      (sort_key (\<lambda>g. - g_CreatedAt g) (filter (listed_for u (db w)) (d_games (db w))))) \<and>
    1 \<le> clamp_limit limit \<and> clamp_limit limit \<le> 100 \<and> length gs \<le> 100 \<and>
    count = int (length (filter (listed_for u (db w)) (d_games (db w))))"
proof -
  have clamp: "1 \<le> clamp_limit limit" "clamp_limit limit \<le> 100"
    by (auto simp: clamp_limit_def Let_def)
  then have "int32 (clamp_limit limit) = clamp_limit limit" by (simp add: wrap_int_id)
  moreover have "int32 (if offset < 0 then 0 else offset) = (if offset < 0 then 0 else offset)"
    using assms(2) by (simp add: wrap_int_id)
  ultimately show ?thesis using assms(1) clamp
    by (auto simp: ListGames_def Let_def success qCountGamesForUser_def qListGamesForUser_def
        limit_offset_def count_where_def split: if_splits)
qed

text \<open>
  A solo game is open to others: a second user can join one, and when that user solves its last
  problem the creator is recorded as winner.
\<close>

lemma solo_game_not_closed:
  "let w1 = snd (run_call (CallCreate 1 [''two-sum-easy''] False True None) sample_world);
       w2 = snd (run_call (CallJoin 1 2) w1);
       w3 = snd (run_call (CallStart 1 1) w2);
       w4 = snd (run_call (CallAccepted 1 2) w3)
   in map_option g_IsSolo (find_game 1 (db w1)) = Some True \<and> players 1 (db w2) = [1, 2] \<and>
      map_option (\<lambda>g. (g_Status g, g_WinnerID g)) (find_game 1 (db w4)) = Some (Finished, Some 1) \<and>
      progress 1 (db w4) = [(1, 0), (2, 1)]"
  by code_simp

end
