(* ===== verification/Queries_Auth.thy ===== *)
theory Queries_Auth
  imports Queries_Games
begin

text \<open>
  The statements of \<^verbatim>\<open>users.sql\<close>, \<^verbatim>\<open>sessions.sql\<close> and \<^verbatim>\<open>verification_codes.sql\<close>, as the
  sqlc-generated methods run them.
\<close>

section \<open>users\<close>

definition find_user :: "uuid \<Rightarrow> database \<Rightarrow> user option" where
  "find_user i d = List.find (\<lambda>u. u_ID u = i) (d_users d)"

definition qGetUserByID :: "uuid \<Rightarrow> ('z, user) op" where
  "qGetUserByID i = reads (\<lambda>d. one_row (find_user i d))"

definition qGetUserByEmail :: "string \<Rightarrow> ('z, user) op" where
  "qGetUserByEmail email = reads (\<lambda>d. one_row (List.find (\<lambda>u. u_Email u = email) (d_users d)))"

definition qGetUserByUsername :: "string \<Rightarrow> ('z, user) op" where
  "qGetUserByUsername name =
     reads (\<lambda>d. one_row (List.find (\<lambda>u. u_Username u = name) (d_users d)))"

text \<open>
  The primary key of a new user is drawn by \<^verbatim>\<open>gen_random_uuid()\<close>; the length checks are those of
  VARCHAR(50) and VARCHAR(100), the unique constraints those the Go code tests by name.
\<close>

definition qCreateUserByEmail :: "string \<Rightarrow> string \<Rightarrow> ('z, user) op" where
  "qCreateUserByEmail username email = roundtrip (\<lambda>w.
     let d = db w; w1 = w\<lparr>rpos := Suc (rpos w)\<rparr>;
         u = \<lparr>u_ID = rng w (rpos w), u_Username = username, u_Email = email, u_PasswordHash = None,
              u_EmailVerified = False, u_Rating = Some 0, u_CreatedAt = Some (now w),
              u_UpdatedAt = Some (now w), u_Name = None\<rparr> in
     if 50 < length username \<or> 100 < length email then (Inl (PgError ''22001'' ''''), w1)
     else if u_ID u \<in> u_ID ` set (d_users d) then (Inl (PgError ''23505'' ''users_pkey''), w1)
     else if username \<in> u_Username ` set (d_users d)
       then (Inl (PgError ''23505'' ''users_username_key''), w1)
     else if email \<in> u_Email ` set (d_users d)
       then (Inl (PgError ''23505'' ''users_email_key''), w1)
     else (Inr u, w1\<lparr>db := d\<lparr>d_users := d_users d @ [u]\<rparr>\<rparr>))"

definition qUpdateUserName :: "uuid \<Rightarrow> string option \<Rightarrow> ('z, user) op" where
  "qUpdateUserName i name = writes (\<lambda>t d.
     case find_user i d of
       None \<Rightarrow> Inl ErrNoRows
     | Some u \<Rightarrow>
         if opt_ex (\<lambda>n. 100 < length n) name then Inl (PgError ''22001'' '''')
         else Inr (u\<lparr>u_Name := name\<rparr>,
           d\<lparr>d_users := upd_where (\<lambda>u. u_ID u = i) (\<lambda>u. u\<lparr>u_Name := name\<rparr>) (d_users d)\<rparr>))"

definition qSetEmailVerified :: "uuid \<Rightarrow> ('z, unit) op" where
  "qSetEmailVerified i = writes (\<lambda>t d. Inr ((),
     d\<lparr>d_users := upd_where (\<lambda>u. u_ID u = i) (\<lambda>u. u\<lparr>u_EmailVerified := True\<rparr>) (d_users d)\<rparr>))"

definition finished_rows :: "uuid \<Rightarrow> database \<Rightarrow> (game_participant \<times> game) list" where
  "finished_rows u d =
     [(p, g). p \<leftarrow> d_participants d, g \<leftarrow> d_games d,
        g_ID g = gp_GameID p \<and> gp_UserID p = u \<and> g_Status g = Finished]"

text \<open>\<^verbatim>\<open>wins, games_played, problems_solved\<close>; the casts to int fail beyond 32 bits.\<close>

definition qGetUserStats :: "uuid \<Rightarrow> ('z, int \<times> int \<times> int) op" where
  "qGetUserStats u = reads (\<lambda>d.
     let rows = finished_rows u d;
         wins = count_where (\<lambda>(p, g). g_WinnerID g = Some u \<and> \<not> g_IsSolo g) rows;
         played = int (length rows);
         solved = sum_list (map (\<lambda>(p, g). gp_CurrentProblemIndex p) rows) in
     if max_int4 < wins \<or> max_int4 < played \<or> max_int4 < solved \<or> solved < - max_int4 - 1
     then Inl (PgError ''22003'' '''') else Inr (wins, played, solved))"

section \<open>sessions\<close>

definition qCreateSession :: "uuid \<Rightarrow> string \<Rightarrow> time \<Rightarrow> ('z, session) op" where
  "qCreateSession u tok expires =
     inserts max_int4 seq_sessions seq_sessions_update (\<lambda>n r t d.
       let s = \<lparr>s_ID = n, s_UserID = u, s_Token = tok, s_ExpiresAt = expires,
                s_CreatedAt = t, s_UpdatedAt = t\<rparr> in
       if 512 < length tok then Inl (PgError ''22001'' '''')
       else if n \<in> s_ID ` set (d_sessions d) then Inl (PgError ''23505'' ''sessions_pkey'')
       else if tok \<in> s_Token ` set (d_sessions d) then Inl (PgError ''23505'' ''sessions_token_key'')
       else if \<not> user_exists u d then Inl (PgError ''23503'' ''sessions_user_id_fkey'')
       else Inr (s, d\<lparr>d_sessions := d_sessions d @ [s]\<rparr>))"

definition find_session :: "int \<Rightarrow> database \<Rightarrow> session option" where
  "find_session i d = List.find (\<lambda>s. s_ID s = i) (d_sessions d)"

definition session_by_token :: "string \<Rightarrow> database \<Rightarrow> session option" where
  "session_by_token tok d = List.find (\<lambda>s. s_Token s = tok) (d_sessions d)"

definition qGetSessionByID :: "int \<Rightarrow> ('z, session) op" where
  "qGetSessionByID i = reads (\<lambda>d. one_row (find_session i d))"

definition qGetSessionByToken :: "string \<Rightarrow> ('z, session) op" where
  "qGetSessionByToken tok = reads (\<lambda>d. one_row (session_by_token tok d))"

definition qGetSessionsByUserID :: "uuid \<Rightarrow> ('z, session list) op" where
  "qGetSessionsByUserID u = reads (\<lambda>d.
     Inr (sort_key (\<lambda>s. - s_CreatedAt s) (filter (\<lambda>s. s_UserID s = u) (d_sessions d))))"

definition qUpdateSessionExpiry :: "int \<Rightarrow> time \<Rightarrow> ('z, session) op" where
  "qUpdateSessionExpiry i expires = writes (\<lambda>t d.
     case find_session i d of
       None \<Rightarrow> Inl ErrNoRows
     | Some s \<Rightarrow> Inr (s\<lparr>s_ExpiresAt := expires, s_UpdatedAt := t\<rparr>,
         d\<lparr>d_sessions := upd_where (\<lambda>s. s_ID s = i)
             (\<lambda>s. s\<lparr>s_ExpiresAt := expires, s_UpdatedAt := t\<rparr>) (d_sessions d)\<rparr>))"

definition delete_sessions :: "(session \<Rightarrow> bool) \<Rightarrow> database \<Rightarrow> err + int \<times> database" where
  "delete_sessions P d =
     Inr (count_where P (d_sessions d), d\<lparr>d_sessions := del_where P (d_sessions d)\<rparr>)"

definition qDeleteSession :: "int \<Rightarrow> ('z, int) op" where
  "qDeleteSession i = writes (\<lambda>t. delete_sessions (\<lambda>s. s_ID s = i))"

definition qDeleteExpiredSessions :: "('z, int) op" where
  "qDeleteExpiredSessions = writes (\<lambda>t. delete_sessions (\<lambda>s. s_ExpiresAt s < t))"

definition qDeleteSessionsByUserID :: "uuid \<Rightarrow> ('z, int) op" where
  "qDeleteSessionsByUserID u = writes (\<lambda>t. delete_sessions (\<lambda>s. s_UserID s = u))"

section \<open>verification_codes\<close>

definition find_code :: "string \<Rightarrow> database \<Rightarrow> verification_code option" where
  "find_code email d = List.find (\<lambda>c. vc_Email c = email) (d_codes d)"

definition qUpsertVerificationCode :: "string \<Rightarrow> string \<Rightarrow> time \<Rightarrow> ('z, verification_code) op" where
  "qUpsertVerificationCode email hash expires = writes (\<lambda>t d.
     case find_code email d of
       None \<Rightarrow>
         (let c = \<lparr>vc_Email = email, vc_CodeHash = hash, vc_ExpiresAt = expires, vc_Attempts = 0,
                   vc_CreatedAt = t\<rparr>
          in Inr (c, d\<lparr>d_codes := d_codes d @ [c]\<rparr>))
     | Some c \<Rightarrow>
         Inr (c\<lparr>vc_CodeHash := hash, vc_ExpiresAt := expires, vc_Attempts := 0\<rparr>,
           d\<lparr>d_codes := upd_where (\<lambda>c. vc_Email c = email)
               (\<lambda>c. c\<lparr>vc_CodeHash := hash, vc_ExpiresAt := expires, vc_Attempts := 0\<rparr>) (d_codes d)\<rparr>))"

definition qGetVerificationCode :: "string \<Rightarrow> ('z, verification_code) op" where
  "qGetVerificationCode email = reads (\<lambda>d. one_row (find_code email d))"

definition qIncrementAttemptsIfBelowLimit :: "string \<Rightarrow> int \<Rightarrow> ('z, verification_code) op" where
  "qIncrementAttemptsIfBelowLimit email lim = writes (\<lambda>t d.
     case find_code email d of
       None \<Rightarrow> Inl ErrNoRows
     | Some c \<Rightarrow>
         if \<not> vc_Attempts c < lim then Inl ErrNoRows
         else if max_int4 < vc_Attempts c + 1 then Inl (PgError ''22003'' '''')
         else Inr (c\<lparr>vc_Attempts := vc_Attempts c + 1\<rparr>,
           d\<lparr>d_codes := upd_where (\<lambda>c. vc_Email c = email \<and> vc_Attempts c < lim)
               (\<lambda>c. c\<lparr>vc_Attempts := vc_Attempts c + 1\<rparr>) (d_codes d)\<rparr>))"

definition qDeleteVerificationCode :: "string \<Rightarrow> ('z, unit) op" where
  "qDeleteVerificationCode email = writes (\<lambda>t d.
     Inr ((), d\<lparr>d_codes := del_where (\<lambda>c. vc_Email c = email) (d_codes d)\<rparr>))"

section \<open>Facts the services rely on\<close>

lemma find_code_SomeD: "find_code e d = Some c \<Longrightarrow> c \<in> set (d_codes d) \<and> vc_Email c = e"
  by (auto simp: find_code_def dest: find_SomeD)

lemma find_user_SomeD: "find_user i d = Some u \<Longrightarrow> u \<in> set (d_users d) \<and> u_ID u = i"
  by (auto simp: find_user_def dest: find_SomeD)

lemma session_by_token_SomeD:
  "session_by_token t d = Some s \<Longrightarrow> s \<in> set (d_sessions d) \<and> s_Token s = t"
  by (auto simp: session_by_token_def dest: find_SomeD)

lemma delete_sessions_Inr [success]:
  "delete_sessions P d = Inr (n, d') \<longleftrightarrow>
     n = count_where P (d_sessions d) \<and> d' = d\<lparr>d_sessions := del_where P (d_sessions d)\<rparr>"
  by (auto simp: delete_sessions_def)

lemma roundtrip_insert_user [success]:
  "qCreateUserByEmail name email w = (Inr u, w') \<longleftrightarrow>
     faults w (fpos w) = Fine \<and> length name \<le> 50 \<and> length email \<le> 100 \<and>
     rng w (rpos w) \<notin> u_ID ` set (d_users (db w)) \<and>
     name \<notin> u_Username ` set (d_users (db w)) \<and> email \<notin> u_Email ` set (d_users (db w)) \<and>
     u = \<lparr>u_ID = rng w (rpos w), u_Username = name, u_Email = email, u_PasswordHash = None,
          u_EmailVerified = False, u_Rating = Some 0, u_CreatedAt = Some (now w),
          u_UpdatedAt = Some (now w), u_Name = None\<rparr> \<and>
     w' = w\<lparr>fpos := Suc (fpos w), rpos := Suc (rpos w),
            db := (db w)\<lparr>d_users := d_users (db w) @ [u]\<rparr>\<rparr>"
  by (auto simp: qCreateUserByEmail_def success Let_def split: if_splits)

end
