(* ===== verification/Text_Format.thy ===== *)
theory Text_Format
  imports Database "HOL-Library.Word" "HOL-Library.Sublist"
begin

text \<open>
  Text as the Go code handles it: bytes from the random source, hexadecimal and decimal output,
  \<^verbatim>\<open>strings.TrimSpace\<close>, the six-digit verification code and the e-mail syntax of
  \<^verbatim>\<open>auth_service.go\<close>. A Go string is the list of its bytes.
\<close>

unbundle bit_operations_syntax

section \<open>Definitions\<close>

text \<open>\<^verbatim>\<open>rand.Read\<close> into a slice of \<open>k\<close> bytes: the bytes are cut from one value of the random tape.\<close>

fun random_bytes :: "nat \<Rightarrow> nat \<Rightarrow> 8 word list" where
  "random_bytes 0 r = []"
| "random_bytes (Suc k) r = of_nat (r mod 256) # random_bytes k (r div 256)"

definition hexdigit :: "nat \<Rightarrow> char" where
  "hexdigit n = ''0123456789abcdef'' ! n"

definition hex_encode :: "8 word list \<Rightarrow> string" where
  "hex_encode bs = concat (map (\<lambda>b. [hexdigit (unat b div 16), hexdigit (unat b mod 16)]) bs)"

fun itoa :: "nat \<Rightarrow> string" where
  "itoa n = (if n < 10 then [hexdigit n] else itoa (n div 10) @ [hexdigit (n mod 10)])"

declare itoa.simps [simp del]

text \<open>\<^verbatim>\<open>fmt.Sprintf("%06d", n)\<close>\<close>

definition sprintf_06d :: "nat \<Rightarrow> string" where
  "sprintf_06d n = replicate (6 - length (itoa n)) CHR ''0'' @ itoa n"

definition generateVerificationCode :: "('z, string) op" where
  "generateVerificationCode = bindE random (\<lambda>r.
     let b = random_bytes 4 r;
         num = (push_bit 24 (ucast (b ! 0)) OR push_bit 16 (ucast (b ! 1)) OR
                push_bit 8 (ucast (b ! 2)) OR ucast (b ! 3) :: 32 word) mod 1000000 in
     ret (sprintf_06d (unat num)))"

definition is_alpha :: "char \<Rightarrow> bool" where
  "is_alpha c \<longleftrightarrow> (97 \<le> (of_char c :: nat) \<and> of_char c \<le> (122 :: nat)) \<or>
     (65 \<le> (of_char c :: nat) \<and> of_char c \<le> (90 :: nat))"

definition is_digit :: "char \<Rightarrow> bool" where
  "is_digit c \<longleftrightarrow> 48 \<le> (of_char c :: nat) \<and> of_char c \<le> (57 :: nat)"

definition local_char :: "char \<Rightarrow> bool" where
  "local_char c \<longleftrightarrow> is_alpha c \<or> is_digit c \<or> c \<in> set ''._%+-''"

definition domain_char :: "char \<Rightarrow> bool" where
  "domain_char c \<longleftrightarrow> is_alpha c \<or> is_digit c \<or> c \<in> set ''.-''"

text \<open>
  The match of \<^verbatim>\<open>emailRegex\<close>: the first \<open>@\<close> ends the local part, and some dot of the rest is
  followed by at least two letters up to the end.
\<close>

definition isValidEmail :: "string \<Rightarrow> bool" where
  "isValidEmail s =
     (let l = takeWhile (\<lambda>c. c \<noteq> CHR ''@'') s; d = drop (Suc (length l)) s in
      length l < length s \<and> l \<noteq> [] \<and> list_all local_char l \<and>
      list_ex (\<lambda>i. d ! i = CHR ''.'' \<and> list_all domain_char (take i d) \<and>
                 2 \<le> length (drop (Suc i) d) \<and> list_all is_alpha (drop (Suc i) d))
        [1..<length d])"

text \<open>
  \<^verbatim>\<open>unicode.IsSpace\<close> in UTF-8: the six ASCII spaces, U+0085, U+00A0, U+1680, U+2000 to U+200A,
  U+2028, U+2029, U+202F, U+205F and U+3000.
\<close>

definition go_spaces :: "string list" where
  "go_spaces = map (map char_of)
     ([[9], [10], [11], [12], [13], [32], [0xC2, 0x85], [0xC2, 0xA0], [0xE1, 0x9A, 0x80]] @
      map (\<lambda>b. [0xE2, 0x80, b]) ([0x80..<0x8B] @ [0xA8, 0xA9, 0xAF]) @
      [[0xE2, 0x81, 0x9F], [0xE3, 0x80, 0x80 :: nat]])"

function trim_prefixes :: "string list \<Rightarrow> string \<Rightarrow> string" where
  "trim_prefixes ps s =
     (case List.find (\<lambda>p. p \<noteq> [] \<and> prefix p s) ps of
        None \<Rightarrow> s
      | Some p \<Rightarrow> trim_prefixes ps (drop (length p) s))"
  by pat_completeness auto
termination
proof (relation "measure (\<lambda>(ps, s). length s)")
  fix ps :: "string list" and s p
  assume "List.find (\<lambda>p. p \<noteq> [] \<and> prefix p s) ps = Some p"
  then have "p \<noteq> []" "prefix p s" by (auto dest: find_SomeD)
  then show "((ps, drop (length p) s), ps, s) \<in> measure (\<lambda>(ps, s). length s)"
    using prefix_length_le [of p s] by (cases p) auto
qed simp

declare trim_prefixes.simps [simp del]

definition TrimSpace :: "string \<Rightarrow> string" where
  "TrimSpace s = rev (trim_prefixes (map rev go_spaces) (rev (trim_prefixes go_spaces s)))"

section \<open>Facts\<close>

lemma length_random_bytes [simp]: "length (random_bytes k r) = k"
  by (induction k arbitrary: r) auto

lemma length_hex_encode [simp]: "length (hex_encode bs) = 2 * length bs"
  by (induction bs) (auto simp: hex_encode_def)

lemma hexdigit_inj: "a < 16 \<Longrightarrow> b < 16 \<Longrightarrow> hexdigit a = hexdigit b \<Longrightarrow> a = b"
proof -
  have "distinct ''0123456789abcdef''" by simp
  moreover assume "a < 16" "b < 16" "hexdigit a = hexdigit b"
  ultimately show "a = b"
    using nth_eq_iff_index_eq [of "''0123456789abcdef''" a b] by (simp add: hexdigit_def)
qed

lemma hex_encode_inj: "hex_encode a = hex_encode b \<Longrightarrow> a = b"
proof (induction a arbitrary: b)
  case Nil
  then show ?case by (cases b) (auto simp: hex_encode_def)
next
  case (Cons x a)
  then obtain y c where b: "b = y # c" by (cases b) (auto simp: hex_encode_def)
  have lt: "unat v div 16 < 16" for v :: "8 word"
    using unsigned_less [of v, where 'a = nat] by simp
  from Cons.prems b have "hexdigit (unat x div 16) = hexdigit (unat y div 16)"
    "hexdigit (unat x mod 16) = hexdigit (unat y mod 16)" "hex_encode a = hex_encode c"
    by (simp_all add: hex_encode_def)
  with hexdigit_inj [OF lt lt] hexdigit_inj [of "unat x mod 16" "unat y mod 16"]
  have "unat x div 16 = unat y div 16" "unat x mod 16 = unat y mod 16" by auto
  then have "unat x = unat y" by (metis div_mult_mod_eq)
  with Cons.IH [OF \<open>hex_encode a = hex_encode c\<close>] b show ?case by (simp add: word_unat_eq_iff)
qed

lemma itoa_length: "n < 10 ^ k \<Longrightarrow> 0 < k \<Longrightarrow> length (itoa n) \<le> k"
proof (induction k arbitrary: n)
  case (Suc k)
  show ?case
  proof (cases "n < 10")
    case False
    then have "0 < k" using Suc.prems by (cases k) auto
    with Suc show ?thesis by (subst itoa.simps) (auto simp: False less_mult_imp_div_less mult.commute)
  qed (simp add: itoa.simps)
qed simp

lemma hexdigit_is_digit: "n < 10 \<Longrightarrow> is_digit (hexdigit n)"
proof -
  have "\<forall>n \<in> set [0..<10]. is_digit (hexdigit n)" by code_simp
  then show "n < 10 \<Longrightarrow> is_digit (hexdigit n)" by simp
qed

lemma itoa_digits: "list_all is_digit (itoa n)"
  by (induction n rule: itoa.induct)
    (subst itoa.simps, auto simp: hexdigit_is_digit)

text \<open>A verification code is six decimal digits.\<close>

lemma sprintf_06d_shape:
  assumes "n < 1000000"
  shows "length (sprintf_06d n) = 6" and "list_all is_digit (sprintf_06d n)"
proof -
  have "length (itoa n) \<le> 6" using itoa_length [of n 6] assms by simp
  then show "length (sprintf_06d n) = 6" by (simp add: sprintf_06d_def)
  show "list_all is_digit (sprintf_06d n)"
    using itoa_digits [of n] by (auto simp: sprintf_06d_def list_all_iff is_digit_def)
qed

lemma generateVerificationCode_shape:
  assumes "generateVerificationCode w = (r, w')"
  shows "\<exists>code. r = Inr code \<and> length code = 6 \<and> list_all is_digit code \<and> db w' = db w"
proof -
  have "unat (x mod 1000000 :: 32 word) < 1000000" for x
    by (simp add: unat_mod_distrib)
  with assms show ?thesis
    by (auto simp: generateVerificationCode_def bindE_def random_def ret_def Let_def sprintf_06d_shape)
qed

text \<open>The e-mail check against the regular expression read as a language.\<close>

definition email_language :: "string \<Rightarrow> bool" where
  "email_language s \<longleftrightarrow>
     (\<exists>l d t. s = l @ CHR ''@'' # d @ CHR ''.'' # t \<and> l \<noteq> [] \<and> list_all local_char l \<and>
        d \<noteq> [] \<and> list_all domain_char d \<and> 2 \<le> length t \<and> list_all is_alpha t)"

lemma local_char_not_at: "local_char c \<Longrightarrow> c \<noteq> CHR ''@''"
  by (auto simp: local_char_def is_alpha_def is_digit_def)

lemma isValidEmail_language: "isValidEmail s \<longleftrightarrow> email_language s"
proof
  assume v: "isValidEmail s"
  define l where "l = takeWhile (\<lambda>c. c \<noteq> CHR ''@'') s"
  define d where "d = drop (Suc (length l)) s"
  from v obtain i where i: "1 \<le> i" "i < length d" "d ! i = CHR ''.''" "list_all domain_char (take i d)"
    "2 \<le> length (drop (Suc i) d)" "list_all is_alpha (drop (Suc i) d)"
    and l: "length l < length s" "l \<noteq> []" "list_all local_char l"
    by (auto simp: isValidEmail_def Let_def list_ex_iff l_def d_def)
  have "s ! length l = CHR ''@''"
    using nth_length_takeWhile [of "\<lambda>c. c \<noteq> CHR ''@''" s] l(1) by (simp add: l_def)
  then have "s = l @ CHR ''@'' # d"
    using l(1) id_take_nth_drop [of "length l" s] takeWhile_eq_take [of _ s]
    by (metis d_def l_def)
  moreover have "d = take i d @ CHR ''.'' # drop (Suc i) d"
    using id_take_nth_drop [OF i(2)] i(3) by simp
  ultimately show "email_language s"
    unfolding email_language_def using i l
    by (intro exI [of _ l] exI [of _ "take i d"] exI [of _ "drop (Suc i) d"]) auto
next
  assume "email_language s"
  then obtain l d t where s: "s = l @ CHR ''@'' # d @ CHR ''.'' # t" and l: "l \<noteq> []" "list_all local_char l"
    and d: "d \<noteq> []" "list_all domain_char d" and t: "2 \<le> length t" "list_all is_alpha t"
    by (auto simp: email_language_def)
  have "takeWhile (\<lambda>c. c \<noteq> CHR ''@'') s = l"
    using l(2) local_char_not_at by (auto simp: s takeWhile_append2 list_all_iff)
  then show "isValidEmail s"
    using l d t by (auto simp: isValidEmail_def s list_ex_iff intro!: bexI [of _ "length d"])
      (cases d; simp)
qed

text \<open>Trimming removes every space at both ends and is idempotent.\<close>

lemma trim_prefixes_none:
  "List.find (\<lambda>p. p \<noteq> [] \<and> prefix p (trim_prefixes ps s)) ps = None"
proof (induction ps s rule: trim_prefixes.induct)
  case (1 ps s)
  then show ?case
    by (cases "List.find (\<lambda>p. p \<noteq> [] \<and> prefix p s) ps")
      (simp_all add: trim_prefixes.simps [of ps s])
qed

lemma trim_prefixes_fixed: "trim_prefixes ps (trim_prefixes ps s) = trim_prefixes ps s"
  by (subst trim_prefixes.simps) (simp add: trim_prefixes_none)

lemma trim_prefixes_drop: "\<exists>k. trim_prefixes ps s = drop k s"
proof (induction ps s rule: trim_prefixes.induct)
  case (1 ps s)
  show ?case
  proof (cases "List.find (\<lambda>p. p \<noteq> [] \<and> prefix p s) ps")
    case None
    then show ?thesis by (intro exI [of _ 0]) (simp add: trim_prefixes.simps [of ps s])
  next
    case (Some p)
    with 1 obtain k where "trim_prefixes ps (drop (length p) s) = drop k (drop (length p) s)" by blast
    with Some show ?thesis
      by (intro exI [of _ "k + length p"]) (simp add: trim_prefixes.simps [of ps s])
  qed
qed

lemma trim_prefixes_length: "length (trim_prefixes ps s) \<le> length s"
  using trim_prefixes_drop [of ps s] by auto

lemma TrimSpace_length: "length (TrimSpace s) \<le> length s"
  using trim_prefixes_length [of go_spaces s]
    trim_prefixes_length [of "map rev go_spaces" "rev (trim_prefixes go_spaces s)"]
  by (simp add: TrimSpace_def)

text \<open>The result neither starts nor ends with a space.\<close>

lemma trim_prefixes_no_prefix: "p \<in> set ps \<Longrightarrow> p \<noteq> [] \<Longrightarrow> \<not> prefix p (trim_prefixes ps s)"
  using trim_prefixes_none [of ps s] by (auto simp: find_None_iff)

lemma TrimSpace_no_trailing: "p \<in> set go_spaces \<Longrightarrow> p \<noteq> [] \<Longrightarrow> \<not> suffix p (TrimSpace s)"
  using trim_prefixes_no_prefix [of "rev p" "map rev go_spaces"]
  by (simp add: TrimSpace_def suffix_to_prefix)

lemma TrimSpace_prefix: "\<exists>k. TrimSpace s = take k (trim_prefixes go_spaces s)"
proof -
  obtain k where "trim_prefixes (map rev go_spaces) (rev (trim_prefixes go_spaces s)) =
      drop k (rev (trim_prefixes go_spaces s))"
    using trim_prefixes_drop by blast
  then show ?thesis by (auto simp: TrimSpace_def rev_drop)
qed

lemma TrimSpace_no_leading: "p \<in> set go_spaces \<Longrightarrow> p \<noteq> [] \<Longrightarrow> \<not> prefix p (TrimSpace s)"
  using TrimSpace_prefix [of s] trim_prefixes_no_prefix [of p go_spaces s]
  by (metis append_take_drop_id prefix_prefix)

lemma trim_prefixes_id: "(\<And>p. p \<in> set ps \<Longrightarrow> p \<noteq> [] \<Longrightarrow> \<not> prefix p s) \<Longrightarrow> trim_prefixes ps s = s"
proof -
  assume "\<And>p. p \<in> set ps \<Longrightarrow> p \<noteq> [] \<Longrightarrow> \<not> prefix p s"
  then have "List.find (\<lambda>p. p \<noteq> [] \<and> prefix p s) ps = None" by (auto simp: find_None_iff)
  then show ?thesis by (subst trim_prefixes.simps) simp
qed

lemma TrimSpace_idem: "TrimSpace (TrimSpace s) = TrimSpace s"
proof -
  have "trim_prefixes go_spaces (TrimSpace s) = TrimSpace s"
    using TrimSpace_no_leading by (intro trim_prefixes_id) auto
  moreover have "trim_prefixes (map rev go_spaces) (rev (TrimSpace s)) = rev (TrimSpace s)"
    by (rule trim_prefixes_id) (auto simp: TrimSpace_no_trailing simp flip: suffix_to_prefix)
  ultimately show ?thesis by (simp add: TrimSpace_def [of "TrimSpace s"])
qed

end
