(* ===== verification/Session_Service.thy ===== *)
theory Session_Service
  imports Queries_Auth Text_Format Sample
begin

text \<open>
  \<^verbatim>\<open>internal/service/session_service.go\<close> and \<^verbatim>\<open>user_service.go\<close>. The configuration of the session
  service is its duration. \<^verbatim>\<open>time.Now\<close> reads the clock of the world, which is also the clock of the
  database. The contract of a token store, as the rest of the program relies on it, is the locale
  \<open>token_store\<close>, interpreted on the methods of the service.
\<close>

section \<open>Session service\<close>

definition DefaultSessionDuration :: time where
  "DefaultSessionDuration = 24 * 60 * 60"

record SessionService =
  sessionDuration :: time

definition NewSessionService :: "(SessionService \<Rightarrow> SessionService) list \<Rightarrow> SessionService" where
  "NewSessionService opts = foldl (\<lambda>s opt. opt s) \<lparr>sessionDuration = DefaultSessionDuration\<rparr> opts"

definition WithSessionDuration :: "time \<Rightarrow> SessionService \<Rightarrow> SessionService" where
  "WithSessionDuration d s = s\<lparr>sessionDuration := d\<rparr>"

definition clock :: "('z, time) op" where
  "clock = (\<lambda>w. (Inr (now w), w))"

definition generateToken :: "('z, string) op" where
  "generateToken = bindE random (\<lambda>r. ret (hex_encode (random_bytes 32 r)))"

definition createSession :: "uuid \<Rightarrow> time \<Rightarrow> ('z, session) op" where
  "createSession userID duration =
     bindE generateToken (\<lambda>token.
     bindE clock (\<lambda>t.
     qCreateSession userID token (t + duration)))"

definition CreateSession :: "SessionService \<Rightarrow> uuid \<Rightarrow> ('z, session) op" where
  "CreateSession s userID = createSession userID (sessionDuration s)"

definition GetSession :: "int \<Rightarrow> ('z, session) op" where
  "GetSession i =
     mapErr (no_rows_to (New ErrSessionNotFound ''session not found'')) (qGetSessionByID (int32 i))"

definition ValidateToken :: "string \<Rightarrow> ('z, session) op" where
  "ValidateToken token =
     (if token = '''' then throw (New ErrInvalidToken ''token is required'')
      else
        bindE (mapErr (no_rows_to (New ErrInvalidToken ''token not found'')) (qGetSessionByToken token))
        (\<lambda>session.
        bindE clock (\<lambda>t.
        if t > s_ExpiresAt session then throw (New ErrSessionExpired ''session expired'')
        else ret session)))"

definition GetUserSessions :: "uuid \<Rightarrow> ('z, session list) op" where
  "GetUserSessions userID = qGetSessionsByUserID userID"

definition RefreshSession :: "SessionService \<Rightarrow> int \<Rightarrow> ('z, session) op" where
  "RefreshSession s i =
     bindE clock (\<lambda>t.
     mapErr (no_rows_to (New ErrSessionNotFound ''session not found''))
       (qUpdateSessionExpiry (int32 i) (t + sessionDuration s)))"

text \<open>Go's \<^verbatim>\<open>/\<close> on a duration truncates toward zero. The result of the refresh is dropped.\<close>

definition half :: "time \<Rightarrow> time" where
  "half d = (if d < 0 then - (- d div 2) else d div 2)"

definition TryRefresh :: "SessionService \<Rightarrow> session \<Rightarrow> ('z, unit) op" where
  "TryRefresh s session =
     bindE clock (\<lambda>t.
     if s_ExpiresAt session - t > half (sessionDuration s) then ret ()
     else tryE (RefreshSession s (s_ID session)) (\<lambda>_. ret ()))"

definition EndSession :: "int \<Rightarrow> ('z, unit) op" where
  "EndSession i =
     bindE (qDeleteSession (int32 i)) (\<lambda>n.
     if n = 0 then throw (New ErrSessionNotFound ''session not found'') else ret ())"

definition EndAllUserSessions :: "uuid \<Rightarrow> ('z, int) op" where
  "EndAllUserSessions userID = qDeleteSessionsByUserID userID"

definition CleanupExpired :: "('z, int) op" where
  "CleanupExpired = qDeleteExpiredSessions"

section \<open>User service\<close>

definition GetByID :: "uuid \<Rightarrow> ('z, user) op" where
  "GetByID i = qGetUserByID i"

definition GetStats :: "uuid \<Rightarrow> ('z, int \<times> int \<times> int) op" where
  "GetStats i = qGetUserStats i"

definition UpdateName :: "uuid \<Rightarrow> string \<Rightarrow> ('z, user) op" where
  "UpdateName i name =
     (let trimmed = TrimSpace name in
      if trimmed = '''' \<or> length trimmed > 100 then throw SvcErrInvalidName
      else qUpdateUserName i (Some trimmed))"

section \<open>Facts\<close>

lemma clock_Inr [success]: "clock w = (r, w') \<longleftrightarrow> r = Inr (now w) \<and> w' = w"
  by (auto simp: clock_def)

lemma wp_clock [wps]: "wp clock Q w \<longleftrightarrow> Q (Inr (now w)) w"
  by (simp add: wp_def clock_def)

lemma keeps_clock [keeps_intro]: "keeps I clock"
  by (simp add: keeps_def clock_def)

definition sessions_inv :: "database \<Rightarrow> bool" where
  "sessions_inv d \<longleftrightarrow> distinct (map s_ID (d_sessions d)) \<and> distinct (map s_Token (d_sessions d)) \<and>
     (\<forall>s \<in> set (d_sessions d). user_exists (s_UserID s) d)"

lemma ValidateToken_Inr [success]:
  "ValidateToken tok w = (Inr s, w') \<longleftrightarrow>
     faults w (fpos w) = Fine \<and> tok \<noteq> '''' \<and> session_by_token tok (db w) = Some s \<and>
     now w \<le> s_ExpiresAt s \<and> w' = w\<lparr>fpos := Suc (fpos w)\<rparr>"
  by (auto simp: ValidateToken_def qGetSessionByToken_def success split: if_splits intro!: exI [of _ s])

lemma CreateSession_Inr [success]:
  "CreateSession c u w = (Inr s, w') \<longleftrightarrow>
     faults w (fpos w) = Fine \<and> seq_sessions (seqs w) + 1 \<le> max_int4 \<and>
     seq_sessions (seqs w) + 1 \<notin> s_ID ` set (d_sessions (db w)) \<and>
     s_Token s \<notin> s_Token ` set (d_sessions (db w)) \<and> user_exists u (db w) \<and>
     s = \<lparr>s_ID = seq_sessions (seqs w) + 1, s_UserID = u,
          s_Token = hex_encode (random_bytes 32 (rng w (rpos w))),
          s_ExpiresAt = now w + sessionDuration c, s_CreatedAt = now w, s_UpdatedAt = now w\<rparr> \<and>
     w' = w\<lparr>fpos := Suc (fpos w), seqs := (seqs w)\<lparr>seq_sessions := seq_sessions (seqs w) + 1\<rparr>,
            rpos := Suc (Suc (rpos w)), db := (db w)\<lparr>d_sessions := d_sessions (db w) @ [s]\<rparr>\<rparr>"
  by (auto simp: CreateSession_def createSession_def generateToken_def qCreateSession_def success
      Let_def split: if_splits)

lemma session_by_token_append:
  "session_by_token tok (d\<lparr>d_sessions := d_sessions d @ [s]\<rparr>) =
     (case session_by_token tok d of Some t \<Rightarrow> Some t | None \<Rightarrow> if s_Token s = tok then Some s else None)"
  by (auto simp: session_by_token_def find_append split: option.split)

lemma session_by_token_del:
  assumes "distinct (map s_Token (d_sessions d))"
  shows "session_by_token tok (d\<lparr>d_sessions := del_where P (d_sessions d)\<rparr>) =
     (case session_by_token tok d of Some s \<Rightarrow> if P s then None else Some s | None \<Rightarrow> None)"
proof -
  have "distinct (map s_Token xs) \<Longrightarrow> List.find (\<lambda>s. s_Token s = tok) (filter (\<lambda>s. \<not> P s) xs) =
      (case List.find (\<lambda>s. s_Token s = tok) xs of Some s \<Rightarrow> if P s then None else Some s | None \<Rightarrow> None)"
    for xs
    by (induction xs) (auto simp: image_iff split: option.split dest!: find_SomeD)
  with assms show ?thesis by (simp add: session_by_token_def del_where_def)
qed


lemma sessions_inv_del: "sessions_inv d \<Longrightarrow> sessions_inv (d\<lparr>d_sessions := del_where P (d_sessions d)\<rparr>)"
  by (auto simp: sessions_inv_def distinct_map_del_where user_exists_def)

lemma sessions_inv_upd:
  assumes "sessions_inv d" and "\<And>s. s_ID (f s) = s_ID s \<and> s_Token (f s) = s_Token s \<and> s_UserID (f s) = s_UserID s"
  shows "sessions_inv (d\<lparr>d_sessions := upd_where P f (d_sessions d)\<rparr>)"
  using assms by (auto simp: sessions_inv_def map_upd_where user_exists_def)

lemma keeps_createSession: "keeps_db sessions_inv (createSession u dur)"
  unfolding createSession_def generateToken_def qCreateSession_def
  by (intro keeps_intro keeps_inserts)
    (auto simp: Let_def sessions_inv_def user_exists_def split: if_splits)

lemma keeps_RefreshSession: "keeps_db sessions_inv (RefreshSession c i)"
  unfolding RefreshSession_def qUpdateSessionExpiry_def
  by (intro keeps_intro keeps_writes) (auto split: option.splits intro!: sessions_inv_upd)

lemma keeps_delete_sessions: "keeps_db sessions_inv (writes (\<lambda>t. delete_sessions (P t)))"
  by (rule keeps_writes) (auto simp: success intro: sessions_inv_del)

lemmas session_service_defs =
  CreateSession_def TryRefresh_def EndSession_def EndAllUserSessions_def CleanupExpired_def
  qDeleteSession_def qDeleteSessionsByUserID_def qDeleteExpiredSessions_def

lemmas session_service_keeps = keeps_createSession keeps_RefreshSession keeps_delete_sessions

section \<open>What creates sessions for other services\<close>

text \<open>
  \<^verbatim>\<open>sessionCreator\<close> of \<^verbatim>\<open>auth_service.go\<close>: a new session belongs to the user it was asked for, is found
  under its token, was not there before, and nothing else changes.
\<close>

locale session_creator =
  fixes create :: "uuid \<Rightarrow> ('z, session) op"
  assumes create_issues: "create u w = (Inr s, w') \<Longrightarrow>
      s_UserID s = u \<and> s \<notin> set (d_sessions (db w)) \<and> session_by_token (s_Token s) (db w') = Some s"
    and create_frame: "create u w = (r, w') \<Longrightarrow>
      d_users (db w') = d_users (db w) \<and> d_codes (db w') = d_codes (db w) \<and> now w' = now w \<and>
      faults w' = faults w"

lemma CreateSession_frame:
  assumes "CreateSession c u w = (r, w')"
  shows "d_users (db w') = d_users (db w) \<and> d_codes (db w') = d_codes (db w) \<and> now w' = now w \<and>
      faults w' = faults w"
  using assms
  by (auto simp: CreateSession_def createSession_def generateToken_def clock_def random_def
      qCreateSession_def inserts_def roundtrip_def bindE_def ret_def Let_def
      split: fault.splits if_splits sum.splits)

interpretation sessions: session_creator "CreateSession c" for c
proof
  fix u w s w' assume run: "CreateSession c u w = (Inr s, w')"
  then have new: "s_Token s \<notin> s_Token ` set (d_sessions (db w))"
    unfolding CreateSession_Inr by blast
  then have "session_by_token (s_Token s) (db w) = None"
    by (auto simp: session_by_token_def find_None_iff) (metis image_eqI)
  with run new show "s_UserID s = u \<and> s \<notin> set (d_sessions (db w)) \<and>
      session_by_token (s_Token s) (db w') = Some s"
    by (auto simp: CreateSession_Inr session_by_token_append intro: rev_image_eqI)
qed (rule CreateSession_frame)

section \<open>Properties\<close>

lemma find_session_unique:
  "sessions_inv d \<Longrightarrow> session_by_token tok d = Some s \<Longrightarrow> x \<in> set (d_sessions d) \<Longrightarrow> s_ID x = s_ID s \<Longrightarrow> x = s"
  by (auto simp: sessions_inv_def distinct_map dest!: session_by_token_SomeD dest: inj_onD)

lemma EndSession_Inr [success]:
  "EndSession i w = (Inr (), w') \<longleftrightarrow>
     faults w (fpos w) = Fine \<and> (\<exists>s \<in> set (d_sessions (db w)). s_ID s = int32 i) \<and>
     w' = w\<lparr>fpos := Suc (fpos w), db := (db w)\<lparr>d_sessions :=
        del_where (\<lambda>s. s_ID s = int32 i) (d_sessions (db w))\<rparr>\<rparr>"
  by (auto simp: EndSession_def qDeleteSession_def success count_where_zero split: if_splits)


text \<open>
  C12. A token is accepted from its creation until it expires: sixty-four characters, and validation
  returns the session of the user it was created for, as long as the session table is unchanged.
\<close>

theorem session_round_trip:
  assumes "CreateSession c u w = (Inr s, w1)" and "d_sessions (db v) = d_sessions (db w1)"
    and "faults v (fpos v) = Fine" and "now v \<le> now w + sessionDuration c"
  shows "fst (ValidateToken (s_Token s) v) = Inr s \<and> s_UserID s = u \<and> length (s_Token s) = 64"
proof -
  have tok: "s_UserID s = u" "session_by_token (s_Token s) (db v) = Some s"
    using sessions.create_issues [OF assms(1)] assms(2) by (auto simp: session_by_token_def)
  have s: "length (s_Token s) = 64" "s_ExpiresAt s = now w + sessionDuration c"
    using assms(1) by (simp_all add: CreateSession_Inr)
  then have "ValidateToken (s_Token s) v = (Inr s, v\<lparr>fpos := Suc (fpos v)\<rparr>)"
    unfolding ValidateToken_Inr using tok assms(3,4) by auto
  with s tok show ?thesis by simp
qed

definition sample_session :: session where
  "sample_session = \<lparr>s_ID = 1, s_UserID = 1, s_Token = hex_encode (random_bytes 32 1000),
     s_ExpiresAt = 3700, s_CreatedAt = 100, s_UpdatedAt = 100\<rparr>"

definition session_world :: world where
  "session_world = sample_world\<lparr>fpos := 1, seqs := (seqs sample_world)\<lparr>seq_sessions := 1\<rparr>,
     rpos := 2, db := (db sample_world)\<lparr>d_sessions := [sample_session]\<rparr>\<rparr>"

lemma sample_session_created:
  "CreateSession \<lparr>sessionDuration = 3600\<rparr> 1 sample_world = (Inr sample_session, session_world)"
  unfolding CreateSession_Inr
  by (simp add: sample_world_def sample_session_def session_world_def empty_db_def user_exists_def
      sample_user_def max_int4_def)

lemma session_world_facts:
  "sessions_inv (db session_world)" "session_by_token (s_Token sample_session) (db session_world) = Some sample_session"
  "faults session_world (fpos session_world) = Fine" "now session_world = 100"
  "s_ID sample_session = 1" "s_ExpiresAt sample_session = 3700"
  "d_sessions (db session_world) = [sample_session]"
  by (simp_all add: session_world_def sessions_inv_def sample_session_def session_by_token_def
      sample_world_def user_exists_def sample_user_def)

lemma sample_token_nonempty: "s_Token sample_session \<noteq> []"
proof -
  have "length (s_Token sample_session) = 64"
    unfolding sample_session_def session.simps length_hex_encode length_random_bytes by simp
  then show ?thesis by auto
qed

theorem session_round_trip_witness:
  "fst (ValidateToken (s_Token sample_session) session_world) = Inr sample_session \<and>
   length (s_Token sample_session) = 64"
  using session_round_trip [OF sample_session_created, of session_world] session_world_facts
  by (simp add: sample_world_def)

text \<open>
  A session that was ended is refused: after \<^verbatim>\<open>EndSession\<close> of a session its token is unknown.
\<close>

lemma ended_session_refused:
  assumes "sessions_inv (db w)" and "session_by_token tok (db w) = Some s" and "int32 (s_ID s) = s_ID s"
    and "EndSession (s_ID s) w = (Inr (), w1)" and "d_sessions (db v) = d_sessions (db w1)"
    and "faults v (fpos v) = Fine" and "tok \<noteq> ''''"
  shows "fst (ValidateToken tok v) = Inl (New ErrInvalidToken ''token not found'')"
proof -
  have "session_by_token tok (db v) = session_by_token tok (db w1)"
    using assms(5) by (simp add: session_by_token_def)
  also have "\<dots> = None"
    using assms(1-4) by (auto simp: EndSession_Inr session_by_token_del sessions_inv_def)
  finally have none: "session_by_token tok (db v) = None" .
  then show ?thesis
    using assms(6,7) by (simp add: ValidateToken_def qGetSessionByToken_def bindE_def mapErr_def
        tryE_def throw_def reads_def roundtrip_def)
qed

text \<open>
  Cleaning up removes exactly the sessions that validation would refuse as expired: every
  token keeps its answer.
\<close>

lemma cleanup_keeps_valid_tokens:
  assumes "sessions_inv (db w)" and "CleanupExpired w = (Inr n, w')"
  shows "session_by_token tok (db w') =
      (case session_by_token tok (db w) of
         Some s \<Rightarrow> if s_ExpiresAt s < now w then None else Some s | None \<Rightarrow> None) \<and>
    int (length (d_sessions (db w'))) + n = int (length (d_sessions (db w)))"
proof -
  have "db w' = (db w)\<lparr>d_sessions := del_where (\<lambda>s. s_ExpiresAt s < now w) (d_sessions (db w))\<rparr>"
    "n = count_where (\<lambda>s. s_ExpiresAt s < now w) (d_sessions (db w))"
    using assms(2) by (auto simp: CleanupExpired_def qDeleteExpiredSessions_def success)
  moreover have "int (length (del_where P xs)) + count_where P xs = int (length xs)" for P and xs :: "session list"
    by (induction xs) (auto simp: del_where_def)
  ultimately show ?thesis
    using assms(1) by (simp add: session_by_token_del sessions_inv_def)
qed

text \<open>
  A refresh on access never fails, never shortens a session, and touches no other session.
\<close>

lemma refresh_extends:
  assumes "sessions_inv (db w)" and "session_by_token tok (db w) = Some s"
    and "int32 (s_ID s) = s_ID s" and "0 \<le> sessionDuration c" and "TryRefresh c s w = (r, w')"
  shows "r = Inr () \<and> (\<exists>s'. session_by_token tok (db w') = Some s' \<and> s_ExpiresAt s \<le> s_ExpiresAt s' \<and>
      s_ID s' = s_ID s \<and> s_UserID s' = s_UserID s) \<and>
    filter (\<lambda>x. s_ID x \<noteq> s_ID s) (d_sessions (db w')) = filter (\<lambda>x. s_ID x \<noteq> s_ID s) (d_sessions (db w))"
proof -
  let ?f = "\<lambda>x. x\<lparr>s_ExpiresAt := now w + sessionDuration c, s_UpdatedAt := now w\<rparr>"
  have w': "r = Inr () \<and> (d_sessions (db w') = d_sessions (db w) \<or>
      (s_ExpiresAt s - now w \<le> half (sessionDuration c) \<and>
       d_sessions (db w') = upd_where (\<lambda>x. s_ID x = s_ID s) ?f (d_sessions (db w))))"
    using assms(3,5)
    by (auto simp: TryRefresh_def RefreshSession_def qUpdateSessionExpiry_def clock_def bindE_def ret_def
        tryE_def mapErr_def throw_def writes_def roundtrip_def Let_def
        split: if_splits fault.splits option.splits sum.splits)
  then show ?thesis
  proof (elim conjE disjE)
    assume *: "s_ExpiresAt s - now w \<le> half (sessionDuration c)"
      and upd: "d_sessions (db w') = upd_where (\<lambda>x. s_ID x = s_ID s) ?f (d_sessions (db w))"
    from * assms(4) have "s_ExpiresAt s \<le> now w + sessionDuration c" by (simp add: half_def)
    moreover have "session_by_token tok (db w') = Some (?f s)"
      using assms(2) by (simp add: session_by_token_def upd find_upd_where)
    moreover have "filter (\<lambda>x. s_ID x \<noteq> s_ID s) (d_sessions (db w')) =
        filter (\<lambda>x. s_ID x \<noteq> s_ID s) (d_sessions (db w))"
      by (simp add: upd filter_upd_where_other)
    ultimately show ?thesis using w' by auto
  qed (use assms(2) in \<open>auto simp: session_by_token_def\<close>)
qed

text \<open>
  A stored display name is trimmed, non-empty and at most one hundred bytes long; any other
  name is refused without touching the database.
\<close>

lemma updated_name_valid:
  assumes "UpdateName i name w = (r, w')"
  shows "case r of
      Inr u \<Rightarrow> u_Name u = Some (TrimSpace name) \<and> 0 < length (TrimSpace name) \<and>
        length (TrimSpace name) \<le> 100 \<and> TrimSpace (TrimSpace name) = TrimSpace name
    | Inl e \<Rightarrow> e = SvcErrInvalidName \<longrightarrow> w' = w"
  using assms
  by (auto simp: UpdateName_def Let_def qUpdateUserName_def throw_def writes_def roundtrip_def
      TrimSpace_idem split: if_splits fault.splits option.splits sum.splits prod.splits)

end
