(* ===== verification/Entrance.thy ===== *)
theory Entrance
  imports Session_Service
begin

text \<open>
  \<^verbatim>\<open>internal/service/auth_service.go\<close> and \<^verbatim>\<open>mailer.go\<close>: registration and login by e-mail codes. As
  in the Go struct, the service carries its session creator, its mailer, its configuration and the
  bcrypt functions of \<^verbatim>\<open>golang.org/x/crypto\<close>; what is needed of the first two are the locales
  \<open>session_creator\<close> and \<open>mailer\<close>, what is needed of bcrypt is a hypothesis of the theorems that
  use it. The development mailer prints to the log, which is the field \<open>outbox\<close> of the world.
\<close>

section \<open>The service\<close>

record EntranceConfig =
  ResendAPIKey :: string
  FromEmail :: string
  CodeTTL :: time
  MaxAttempts :: int
  BcryptCost :: int
  SessionTTL :: time

record bcrypt_lib =
  GenerateFromPassword :: "string \<Rightarrow> int \<Rightarrow> nat \<Rightarrow> err + string"
  CompareHashAndPassword :: "string \<Rightarrow> string \<Rightarrow> bool"

record 'w entranceService =
  es_session :: "uuid \<Rightarrow> ('w, err, session) sem"
  es_mailer :: "string \<Rightarrow> string \<Rightarrow> ('w, err, unit) sem"
  es_cfg :: EntranceConfig
  es_bcrypt :: bcrypt_lib

definition sendCooldown :: time where
  "sendCooldown = 60"

definition lift :: "err + 'a \<Rightarrow> ('z, 'a) op" where
  "lift r = (case r of Inl e \<Rightarrow> throw e | Inr a \<Rightarrow> ret a)"

definition SendCode :: "'z world_scheme entranceService \<Rightarrow> string \<Rightarrow> ('z, unit) op" where
  "SendCode s email =
     (if \<not> isValidEmail email then throw SvcErrInvalidEmail
      else
        tryE (qGetVerificationCode email) (\<lambda>existing.
        bindE clock (\<lambda>t.
        let cooldownThreshold = CodeTTL (es_cfg s) - sendCooldown;
            cooldownThreshold = (if cooldownThreshold < 0 then 0 else cooldownThreshold) in
        if (case existing of Inr vc \<Rightarrow> vc_ExpiresAt vc - t > cooldownThreshold | Inl _ \<Rightarrow> False)
        then throw SvcErrCodeRecentlySent
        else
          bindE (mapErr (ErrWrap ''generate code'') generateVerificationCode) (\<lambda>code.
          bindE random (\<lambda>salt.
          bindE (mapErr (ErrWrap ''hash code'')
                   (lift (GenerateFromPassword (es_bcrypt s) code (BcryptCost (es_cfg s)) salt))) (\<lambda>codeHash.
          bindE clock (\<lambda>t2.
          bindE (mapErr (ErrWrap ''save verification code'')
                   (qUpsertVerificationCode email codeHash (t2 + CodeTTL (es_cfg s)))) (\<lambda>_.
          tryE (es_mailer s email code) (\<lambda>sent.
          case sent of
            Inl e \<Rightarrow> tryE (qDeleteVerificationCode email) (\<lambda>_. throw (ErrWrap ''send email'' e))
          | Inr _ \<Rightarrow> ret ())))))))))"

fun usernameLoop :: "nat \<Rightarrow> ('z, string) op" where
  "usernameLoop 0 = throw (ErrText ''failed to generate unique username'')"
| "usernameLoop (Suc n) =
     bindE random (\<lambda>r.
     let username = ''user_'' @ hex_encode (random_bytes 4 r) in
     tryE (qGetUserByUsername username) (\<lambda>res.
     case res of
       Inl e \<Rightarrow> if errors_is e ErrNoRows then ret username else usernameLoop n
     | Inr _ \<Rightarrow> usernameLoop n))"

definition generateUniqueUsername :: "('z, string) op" where
  "generateUniqueUsername = usernameLoop 10"

fun createUserLoop :: "nat \<Rightarrow> string \<Rightarrow> ('z, user) op" where
  "createUserLoop 0 email =
     throw (ErrText ''failed to create user after repeated username conflicts'')"
| "createUserLoop (Suc n) email =
     bindE (mapErr (ErrWrap ''generate username'') generateUniqueUsername) (\<lambda>username.
     tryE (qCreateUserByEmail username email) (\<lambda>res.
     case res of
       Inr user \<Rightarrow> ret user
     | Inl e \<Rightarrow>
         (case errors_as_pg e of
            None \<Rightarrow> throw (ErrWrap ''create user'' e)
          | Some (code, constraint) \<Rightarrow>
              if code \<noteq> ''23505'' then throw (ErrWrap ''create user'' e)
              else if constraint = ''users_email_key''
                then mapErr (ErrWrap ''get user after email conflict'') (qGetUserByEmail email)
              else if constraint = ''users_username_key'' then createUserLoop n email
              else throw (ErrWrap ''create user'' e))))"

definition getOrCreateUser :: "string \<Rightarrow> ('z, user) op" where
  "getOrCreateUser email =
     tryE (qGetUserByEmail email) (\<lambda>res.
     case res of
       Inr user \<Rightarrow> ret user
     | Inl e \<Rightarrow>
         if \<not> errors_is e ErrNoRows then throw (ErrWrap ''get user'' e)
         else createUserLoop 10 email)"

definition wrap_unless_no_rows :: "err \<Rightarrow> string \<Rightarrow> err \<Rightarrow> err" where
  "wrap_unless_no_rows target msg e = (if errors_is e ErrNoRows then target else ErrWrap msg e)"

definition VerifyCode ::
  "'z world_scheme entranceService \<Rightarrow> string \<Rightarrow> string \<Rightarrow> ('z, session) op" where
  "VerifyCode s email code =
     bindE (mapErr (wrap_unless_no_rows SvcErrInvalidCode ''get verification code'')
              (qGetVerificationCode email)) (\<lambda>vc.
     bindE clock (\<lambda>t.
     if t > vc_ExpiresAt vc then throw SvcErrInvalidCode
     else
       bindE (mapErr (wrap_unless_no_rows SvcErrTooManyAttempts ''increment attempts'')
                (qIncrementAttemptsIfBelowLimit email (int32 (MaxAttempts (es_cfg s))))) (\<lambda>vc.
       if \<not> CompareHashAndPassword (es_bcrypt s) (vc_CodeHash vc) code then throw SvcErrInvalidCode
       else
         bindE (getOrCreateUser email) (\<lambda>user.
         bindE (mapErr (ErrWrap ''set email verified'') (qSetEmailVerified (u_ID user))) (\<lambda>_.
         tryE (qDeleteVerificationCode email) (\<lambda>_.
         mapErr (ErrWrap ''create session'') (es_session s (u_ID user))))))))"

section \<open>Mailers\<close>

record mail_world = world +
  outbox :: "(string \<times> string) list"

definition devMailer :: "string \<Rightarrow> string \<Rightarrow> ('z mail_world_scheme, err, unit) sem" where
  "devMailer to code = (\<lambda>w. (Inr (), w\<lparr>outbox := outbox w @ [(to, code)]\<rparr>))"

text \<open>What the service relies on: sending mail touches neither the tables nor the tapes nor the clock.\<close>

locale mailer =
  fixes send :: "string \<Rightarrow> string \<Rightarrow> ('z, unit) op"
  assumes send_frame: "send to code w = (r, w') \<Longrightarrow>
    db w' = db w \<and> now w' = now w \<and> faults w' = faults w \<and> fpos w' = fpos w \<and> seqs w' = seqs w \<and>
    rng w' = rng w \<and> rpos w' = rpos w"

interpretation dev: mailer "devMailer :: string \<Rightarrow> string \<Rightarrow> ('z mail_world_scheme, err, unit) sem"
  by unfold_locales (auto simp: devMailer_def)

section \<open>Users\<close>

lemma keeps_usernameLoop [keeps_intro]: "keeps_db I (usernameLoop n)"
  by (induction n) (auto simp: qGetUserByUsername_def Let_def intro!: keeps_intro split: sum.split)

lemma qCreateUserByEmail_Inl:
  assumes "qCreateUserByEmail name email w = (Inl (PgError ''23505'' con), w')"
  shows "db w' = db w \<and> (con = ''users_email_key'' \<longrightarrow> email \<in> u_Email ` set (d_users (db w)))"
  using assms
  by (auto simp: qCreateUserByEmail_def roundtrip_def Let_def split: fault.splits if_splits)

lemma qCreateUserByEmail_no_wrap:
  "qCreateUserByEmail name email w = (Inl e, w') \<Longrightarrow> errors_as_pg e = Some (c, con) \<Longrightarrow> e = PgError c con"
  by (auto simp: qCreateUserByEmail_def roundtrip_def Let_def split: fault.splits if_splits)

lemma createUserLoop_Inr:
  assumes "createUserLoop n email w = (Inr u, w')" and "email \<notin> u_Email ` set (d_users (db w))"
  shows "u_Email u = email \<and> u_ID u \<notin> u_ID ` set (d_users (db w)) \<and>
    u_Username u \<notin> u_Username ` set (d_users (db w)) \<and>
    db w' = (db w)\<lparr>d_users := d_users (db w) @ [u]\<rparr>"
  using assms
proof (induction n arbitrary: w)
  case 0
  then show ?case by (simp add: success)
next
  case (Suc n)
  from Suc.prems(1) obtain name w1 where gen: "generateUniqueUsername w = (Inr name, w1)"
    by (auto simp: success)
  have db1: "db w1 = db w"
    using keepsD [OF keeps_usernameLoop [where I = "\<lambda>d. d = db w"] _ gen [unfolded generateUniqueUsername_def]]
    by simp
  obtain r w2 where create: "qCreateUserByEmail name email w1 = (r, w2)" by fastforce
  show ?case
  proof (cases r)
    case (Inr v)
    with Suc.prems(1) gen create have "v = u" "w2 = w'" by (auto simp: success)
    with create Inr db1 show ?thesis by (auto simp: roundtrip_insert_user)
  next
    case (Inl e)
    with Suc.prems(1) gen create obtain c con where
      e: "errors_as_pg e = Some (c, con)" "c = ''23505''"
      and rest: "con = ''users_email_key'' \<or> createUserLoop n email w2 = (Inr u, w')"
      by (auto simp: success split: option.splits if_splits)
    from qCreateUserByEmail_no_wrap [OF create [unfolded Inl] e(1)] e(2)
      qCreateUserByEmail_Inl [of name email w1 con w2] create Inl Suc.prems(2) db1 rest
    have "db w2 = db w" "createUserLoop n email w2 = (Inr u, w')" by auto
    with Suc.IH [of w2] Suc.prems(2) show ?thesis by simp
  qed
qed

definition users_inv :: "database \<Rightarrow> bool" where
  "users_inv d \<longleftrightarrow> distinct (map u_ID (d_users d)) \<and> distinct (map u_Email (d_users d)) \<and>
     distinct (map u_Username (d_users d))"

definition user_of_email :: "string \<Rightarrow> database \<Rightarrow> user option" where
  "user_of_email email d = List.find (\<lambda>u. u_Email u = email) (d_users d)"

lemma getOrCreateUser_Inr:
  assumes "getOrCreateUser email w = (Inr u, w')"
  shows "u_Email u = email \<and>
    (case user_of_email email (db w) of
       Some v \<Rightarrow> u = v \<and> db w' = db w
     | None \<Rightarrow> u_ID u \<notin> u_ID ` set (d_users (db w)) \<and> u_Username u \<notin> u_Username ` set (d_users (db w)) \<and>
         db w' = (db w)\<lparr>d_users := d_users (db w) @ [u]\<rparr>)"
proof -
  obtain r w1 where first: "qGetUserByEmail email w = (r, w1)" by fastforce
  then have r: "db w1 = db w" "case r of Inr v \<Rightarrow> user_of_email email (db w) = Some v
      | Inl e \<Rightarrow> errors_is e ErrNoRows \<longrightarrow> user_of_email email (db w) = None"
    by (auto simp: qGetUserByEmail_def reads_def roundtrip_def Let_def one_row_def user_of_email_def
        split: fault.splits option.splits)
  show ?thesis
  proof (cases r)
    case (Inr v)
    with r first assms show ?thesis
      by (auto simp: getOrCreateUser_def success user_of_email_def dest: find_SomeD)
  next
    case (Inl e)
    with first assms have nr: "errors_is e ErrNoRows" and "createUserLoop 10 email w1 = (Inr u, w')"
      by (auto simp: getOrCreateUser_def success split: if_splits)
    moreover from nr r Inl have "email \<notin> u_Email ` set (d_users (db w))"
      "user_of_email email (db w) = None"
      by (auto simp: user_of_email_def find_None_iff)
    ultimately show ?thesis using createUserLoop_Inr [of 10 email w1 u w'] r by simp
  qed
qed

section \<open>Attempts\<close>

definition limit :: "'z world_scheme entranceService \<Rightarrow> int" where
  "limit s = int32 (MaxAttempts (es_cfg s))"

definition count_attempt :: "string \<Rightarrow> int \<Rightarrow> database \<Rightarrow> database" where
  "count_attempt email lim d = d\<lparr>d_codes := upd_where (\<lambda>c. vc_Email c = email \<and> vc_Attempts c < lim)
     (\<lambda>c. c\<lparr>vc_Attempts := vc_Attempts c + 1\<rparr>) (d_codes d)\<rparr>"

lemma find_code_count_attempt:
  "find_code email d = Some c \<Longrightarrow> vc_Attempts c < lim \<Longrightarrow>
     find_code email (count_attempt email lim d) = Some (c\<lparr>vc_Attempts := vc_Attempts c + 1\<rparr>)"
  by (auto simp: find_code_def count_attempt_def find_upd_where dest: find_SomeD)

lemma limit_int4: "limit s \<le> max_int4"
  using wrap_int_range [of 31 "MaxAttempts (es_cfg s)"] by (simp add: limit_def max_int4_def)

lemma VerifyCode_expired:
  assumes "all_fine w" "find_code email (db w) = Some c" "vc_ExpiresAt c < now w"
  shows "VerifyCode s email code w = (Inl SvcErrInvalidCode, w\<lparr>fpos := Suc (fpos w)\<rparr>)"
  using assms
  by (simp add: VerifyCode_def qGetVerificationCode_def clock_def bindE_def mapErr_def tryE_def
      throw_def ret_def reads_def roundtrip_def all_fine_def)

lemma VerifyCode_exhausted:
  assumes "all_fine w" "find_code email (db w) = Some c" "now w \<le> vc_ExpiresAt c" "limit s \<le> vc_Attempts c"
  shows "VerifyCode s email code w = (Inl SvcErrTooManyAttempts, w\<lparr>fpos := Suc (Suc (fpos w))\<rparr>)"
  using assms
  by (simp add: VerifyCode_def qGetVerificationCode_def qIncrementAttemptsIfBelowLimit_def clock_def
      bindE_def mapErr_def tryE_def throw_def ret_def reads_def writes_def roundtrip_def all_fine_def
      limit_def wrap_unless_no_rows_def)

lemma VerifyCode_wrong:
  assumes "all_fine w" "find_code email (db w) = Some c" "now w \<le> vc_ExpiresAt c" "vc_Attempts c < limit s"
    "\<not> CompareHashAndPassword (es_bcrypt s) (vc_CodeHash c) code"
  shows "VerifyCode s email code w = (Inl SvcErrInvalidCode,
    w\<lparr>fpos := Suc (Suc (fpos w)), db := count_attempt email (limit s) (db w)\<rparr>)"
  using assms limit_int4 [of s]
  by (simp add: VerifyCode_def qGetVerificationCode_def qIncrementAttemptsIfBelowLimit_def clock_def
      bindE_def mapErr_def tryE_def throw_def ret_def reads_def writes_def roundtrip_def all_fine_def
      limit_def count_attempt_def)

text \<open>A sequence of guesses for one address at arbitrary times.\<close>

fun guesses ::
  "'z world_scheme entranceService \<Rightarrow> string \<Rightarrow> (time \<times> string) list \<Rightarrow> 'z world_scheme \<Rightarrow> (err + session) list" where
  "guesses s email [] w = []"
| "guesses s email ((t, g) # gs) w =
     (case VerifyCode s email g (w\<lparr>now := t\<rparr>) of (r, w') \<Rightarrow> r # guesses s email gs w')"

lemma guesses_bounded:
  assumes "all_fine w" "find_code email (db w) = Some c"
    "\<And>t g. (t, g) \<in> set (take (nat (limit s - vc_Attempts c)) (filter (\<lambda>(t, g). t \<le> vc_ExpiresAt c) gs)) \<Longrightarrow>
       \<not> CompareHashAndPassword (es_bcrypt s) (vc_CodeHash c) g"
  shows "list_all (\<lambda>r. \<exists>e. r = Inl e) (guesses s email gs w)"
  using assms
proof (induction gs arbitrary: w c)
  case (Cons tg gs)
  obtain t g where tg: "tg = (t, g)" by fastforce
  let ?w = "w\<lparr>now := t\<rparr>"
  have fine: "all_fine ?w" "find_code email (db ?w) = Some c"
    using Cons.prems by (simp_all add: all_fine_def)
  consider (expired) "vc_ExpiresAt c < t" | (exhausted) "t \<le> vc_ExpiresAt c" "limit s \<le> vc_Attempts c"
    | (wrong) "t \<le> vc_ExpiresAt c" "vc_Attempts c < limit s" by linarith
  then show ?case
  proof cases
    case expired
    with fine VerifyCode_expired [of ?w email c s g]
    have "VerifyCode s email g ?w = (Inl SvcErrInvalidCode, ?w\<lparr>fpos := Suc (fpos w)\<rparr>)" by simp
    moreover have "list_all (\<lambda>r. \<exists>e. r = Inl e) (guesses s email gs (?w\<lparr>fpos := Suc (fpos w)\<rparr>))"
      using fine expired Cons.prems(3) by (intro Cons.IH [of _ c]) (auto simp: tg)
    ultimately show ?thesis by (simp add: tg)
  next
    case exhausted
    with fine VerifyCode_exhausted [of ?w email c s g]
    have "VerifyCode s email g ?w = (Inl SvcErrTooManyAttempts, ?w\<lparr>fpos := Suc (Suc (fpos w))\<rparr>)" by simp
    moreover have "list_all (\<lambda>r. \<exists>e. r = Inl e) (guesses s email gs (?w\<lparr>fpos := Suc (Suc (fpos w))\<rparr>))"
      using fine exhausted by (intro Cons.IH [of _ c]) auto
    ultimately show ?thesis by (simp add: tg)
  next
    case wrong
    let ?w1 = "?w\<lparr>fpos := Suc (Suc (fpos w)), db := count_attempt email (limit s) (db w)\<rparr>"
    have n: "nat (limit s - vc_Attempts c) = Suc (nat (limit s - (vc_Attempts c + 1)))"
      using wrong by simp
    then have "\<not> CompareHashAndPassword (es_bcrypt s) (vc_CodeHash c) g"
      using Cons.prems(3) [of t g] wrong by (simp add: tg)
    with wrong fine VerifyCode_wrong [of ?w email c s g]
    have "VerifyCode s email g ?w = (Inl SvcErrInvalidCode, ?w1)" by simp
    moreover have "list_all (\<lambda>r. \<exists>e. r = Inl e) (guesses s email gs ?w1)"
    proof (rule Cons.IH [of _ "c\<lparr>vc_Attempts := vc_Attempts c + 1\<rparr>"])
      show "\<not> CompareHashAndPassword (es_bcrypt s) (vc_CodeHash (c\<lparr>vc_Attempts := vc_Attempts c + 1\<rparr>)) g'"
        if "(t', g') \<in> set (take (nat (limit s - vc_Attempts (c\<lparr>vc_Attempts := vc_Attempts c + 1\<rparr>)))
          (filter (\<lambda>(t, g). t \<le> vc_ExpiresAt (c\<lparr>vc_Attempts := vc_Attempts c + 1\<rparr>)) gs))" for t' g'
        using that wrong Cons.prems(3) [of t' g'] by (simp add: n tg)
    qed (use fine wrong find_code_count_attempt [of email "db w" c] in auto)
    ultimately show ?thesis by (simp add: tg)
  qed
qed simp

section \<open>What a successful login and a successful request for a code did\<close>

lemma qDeleteVerificationCode_frame:
  "qDeleteVerificationCode email w = (r, w') \<Longrightarrow>
     d_users (db w') = d_users (db w) \<and> d_sessions (db w') = d_sessions (db w)"
  by (auto simp: qDeleteVerificationCode_def writes_def roundtrip_def Let_def split: fault.splits)

lemma SendCode_Inr:
  assumes "SendCode s email w = (Inr (), w')"
  shows "isValidEmail email \<and> (\<exists>code salt hash v. length code = 6 \<and> list_all is_digit code \<and>
    GenerateFromPassword (es_bcrypt s) code (BcryptCost (es_cfg s)) salt = Inr hash \<and>
    (\<exists>c. find_code email (db v) = Some c \<and> vc_CodeHash c = hash \<and> vc_Attempts c = 0 \<and>
       vc_ExpiresAt c = now w + CodeTTL (es_cfg s)) \<and>
    es_mailer s email code v = (Inr (), w'))"
proof -
  obtain r w1 where get: "qGetVerificationCode email w = (r, w1)" by fastforce
  then have w1: "now w1 = now w"
    by (auto simp: qGetVerificationCode_def reads_def roundtrip_def Let_def split: fault.splits)
  obtain rc w2 where gen: "generateVerificationCode w1 = (rc, w2)" by fastforce
  with generateVerificationCode_shape [OF gen] obtain code where
    code: "rc = Inr code" "length code = 6" "list_all is_digit code" by blast
  from gen have w2: "now w2 = now w1"
    by (auto simp: generateVerificationCode_def bindE_def random_def ret_def Let_def)
  from assms get gen code have valid: "isValidEmail email"
    by (auto simp: SendCode_def success split: if_splits)
  from assms get gen code obtain hash c v where
    h: "GenerateFromPassword (es_bcrypt s) code (BcryptCost (es_cfg s)) (rng w2 (rpos w2)) = Inr hash"
    "qUpsertVerificationCode email hash (now w2 + CodeTTL (es_cfg s)) (w2\<lparr>rpos := Suc (rpos w2)\<rparr>) = (Inr c, v)"
    "es_mailer s email code v = (Inr (), w')"
    by (auto simp: SendCode_def success lift_def Let_def split: if_splits sum.splits)
  from h(2) have "\<exists>c. find_code email (db v) = Some c \<and> vc_CodeHash c = hash \<and> vc_Attempts c = 0 \<and>
      vc_ExpiresAt c = now w2 + CodeTTL (es_cfg s)"
    by (auto simp: qUpsertVerificationCode_def success Let_def find_code_def find_append find_upd_where
        split: option.splits dest: find_SomeD)
  with h valid code w1 w2 show ?thesis by fastforce
qed

lemma SendCode_cooldown:
  assumes "isValidEmail email" and "find_code email (db w) = Some c" and "faults w (fpos w) = Fine"
    and "vc_ExpiresAt c - now w > CodeTTL (es_cfg s) - sendCooldown" and "vc_ExpiresAt c > now w"
  shows "SendCode s email w = (Inl SvcErrCodeRecentlySent, w\<lparr>fpos := Suc (fpos w)\<rparr>)"
  using assms
  by (simp add: SendCode_def qGetVerificationCode_def tryE_def bindE_def clock_def throw_def reads_def
      roundtrip_def Let_def)

context session_creator
begin

lemma VerifyCode_Inr:
  assumes s: "es_session s = create" and run: "VerifyCode s email code w = (Inr sess, w')"
  shows "\<exists>c u. find_code email (db w) = Some c \<and> now w \<le> vc_ExpiresAt c \<and> vc_Attempts c < limit s \<and>
    CompareHashAndPassword (es_bcrypt s) (vc_CodeHash c) code \<and>
    u_Email u = email \<and> s_UserID sess = u_ID u \<and>
    sess \<notin> set (d_sessions (db w)) \<and> session_by_token (s_Token sess) (db w') = Some sess \<and>
    (case user_of_email email (db w) of
       Some v \<Rightarrow> u = v \<and>
         d_users (db w') = upd_where (\<lambda>x. u_ID x = u_ID u) (\<lambda>x. x\<lparr>u_EmailVerified := True\<rparr>) (d_users (db w))
     | None \<Rightarrow> u_ID u \<notin> u_ID ` set (d_users (db w)) \<and> u_Username u \<notin> u_Username ` set (d_users (db w)) \<and>
         d_users (db w') = upd_where (\<lambda>x. u_ID x = u_ID u) (\<lambda>x. x\<lparr>u_EmailVerified := True\<rparr>)
           (d_users (db w) @ [u]))"
proof -
  let ?w1 = "w\<lparr>fpos := Suc (Suc (fpos w)), db := count_attempt email (limit s) (db w)\<rparr>"
  from run s obtain c u w2 rd w3 w4 where
    c: "find_code email (db w) = Some c" "now w \<le> vc_ExpiresAt c" "vc_Attempts c < limit s"
      "CompareHashAndPassword (es_bcrypt s) (vc_CodeHash c) code"
    and u: "getOrCreateUser email ?w1 = (Inr u, w2)"
    and v: "qSetEmailVerified (u_ID u) w2 = (Inr (), w3)"
    and d: "qDeleteVerificationCode email w3 = (rd, w4)"
    and last: "create (u_ID u) w4 = (Inr sess, w')"
    by (fastforce simp: VerifyCode_def success qGetVerificationCode_def qIncrementAttemptsIfBelowLimit_def
        limit_def count_attempt_def split: if_splits)
  have w3: "db w3 = (db w2)\<lparr>d_users :=
      upd_where (\<lambda>x. u_ID x = u_ID u) (\<lambda>x. x\<lparr>u_EmailVerified := True\<rparr>) (d_users (db w2))\<rparr>"
    using v by (auto simp: qSetEmailVerified_def success)
  have "user_of_email email (count_attempt email (limit s) (db w)) = user_of_email email (db w)"
    "d_users (count_attempt email (limit s) (db w)) = d_users (db w)"
    "d_sessions (count_attempt email (limit s) (db w)) = d_sessions (db w)"
    by (simp_all add: user_of_email_def count_attempt_def)
  with getOrCreateUser_Inr [OF u] w3 qDeleteVerificationCode_frame [OF d]
    create_issues [OF last] create_frame [OF last] c show ?thesis
    by (intro exI [of _ c] exI [of _ u]) (auto split: option.splits)
qed

end

lemma keeps_qCreateUserByEmail: "keeps_db users_inv (qCreateUserByEmail name email)"
  unfolding qCreateUserByEmail_def
  by (rule keeps_roundtrip) (auto simp: keeps_def Let_def users_inv_def)

lemma keeps_createUserLoop: "keeps_db users_inv (createUserLoop n email)"
  by (induction n) (auto simp: generateUniqueUsername_def qGetUserByEmail_def
      intro!: keeps_intro keeps_qCreateUserByEmail split: sum.split option.split)

lemma keeps_getOrCreateUser: "keeps_db users_inv (getOrCreateUser email)"
  unfolding getOrCreateUser_def qGetUserByEmail_def
  by (intro keeps_intro keeps_createUserLoop)

lemma keeps_users_codes:
  "keeps_db users_inv (qIncrementAttemptsIfBelowLimit email n)"
  "keeps_db users_inv (qSetEmailVerified i)" "keeps_db users_inv (qDeleteVerificationCode email)"
  unfolding qIncrementAttemptsIfBelowLimit_def qSetEmailVerified_def qDeleteVerificationCode_def
  by (rule keeps_writes; auto simp: users_inv_def map_upd_where split: option.splits if_splits)+

context session_creator
begin

lemma keeps_create_users: "keeps_db users_inv (create u)"
  unfolding keeps_def using create_frame by (metis prod.collapse users_inv_def)

lemma keeps_VerifyCode_users:
  assumes "es_session s = create"
  shows "keeps_db users_inv (VerifyCode s email code)"
  unfolding VerifyCode_def qGetVerificationCode_def assms
  by (intro keeps_intro keeps_users_codes keeps_getOrCreateUser keeps_create_users)

end

text \<open>A first request for a code, without transport faults.\<close>

lemma SendCode_fresh:
  assumes "all_fine w" and "isValidEmail email" and "find_code email (db w) = None"
    and "\<And>p cost salt. \<exists>h. GenerateFromPassword (es_bcrypt s) p cost salt = Inr h"
    and "es_mailer s = devMailer"
  shows "\<exists>code c w'. SendCode s email w = (Inr (), w') \<and> last (outbox w') = (email, code) \<and>
     db w' = (db w)\<lparr>d_codes := d_codes (db w) @ [c]\<rparr>"
proof -
  have get: "qGetVerificationCode email w = (Inl ErrNoRows, w\<lparr>fpos := Suc (fpos w)\<rparr>)"
    using assms(1,3) by (simp add: qGetVerificationCode_def reads_def roundtrip_def all_fine_def)
  obtain rc w2 where gen: "generateVerificationCode (w\<lparr>fpos := Suc (fpos w)\<rparr>) = (rc, w2)" by fastforce
  then have w2: "db w2 = db w" "all_fine w2"
    using assms(1) by (auto simp: generateVerificationCode_def bindE_def random_def ret_def Let_def)
  from generateVerificationCode_shape [OF gen] obtain code where code: "rc = Inr code" by blast
  obtain h where h: "GenerateFromPassword (es_bcrypt s) code (BcryptCost (es_cfg s)) (rng w2 (rpos w2)) = Inr h"
    using assms(4) by blast
  let ?c = "\<lparr>vc_Email = email, vc_CodeHash = h, vc_ExpiresAt = now w2 + CodeTTL (es_cfg s), vc_Attempts = 0,
     vc_CreatedAt = now w2\<rparr>"
  have "qUpsertVerificationCode email h (now w2 + CodeTTL (es_cfg s)) (w2\<lparr>rpos := Suc (rpos w2)\<rparr>) =
      (Inr ?c, w2\<lparr>fpos := Suc (fpos w2), rpos := Suc (rpos w2), db := (db w)\<lparr>d_codes := d_codes (db w) @ [?c]\<rparr>\<rparr>)"
    using w2 assms(3) by (simp add: qUpsertVerificationCode_def writes_def roundtrip_def all_fine_def Let_def)
  then show ?thesis
    using assms(2,5) get gen code h
    by (simp add: SendCode_def tryE_def bindE_def mapErr_def clock_def random_def ret_def lift_def
        devMailer_def Let_def) blast
qed

text \<open>The login of an existing user, without transport faults.\<close>

definition session_ready :: "'z world_scheme \<Rightarrow> bool" where
  "session_ready w \<longleftrightarrow> seq_sessions (seqs w) < max_int4 \<and>
     (\<forall>x \<in> set (d_sessions (db w)). s_ID x \<le> seq_sessions (seqs w)) \<and>
     hex_encode (random_bytes 32 (rng w (rpos w))) \<notin> s_Token ` set (d_sessions (db w))"

lemma CreateSession_ready:
  assumes "all_fine w" and "session_ready w" and "user_exists u (db w)"
  shows "\<exists>sess w'. CreateSession c u w = (Inr sess, w')"
proof -
  have "seq_sessions (seqs w) + 1 \<notin> s_ID ` set (d_sessions (db w))"
    using assms(2) by (force simp: session_ready_def)
  with assms show ?thesis
    by (simp add: CreateSession_Inr all_fine_def session_ready_def)
qed

lemma VerifyCode_existing:
  assumes fine: "all_fine w" and c: "find_code email (db w) = Some c" "now w \<le> vc_ExpiresAt c"
      "vc_Attempts c < limit s" "CompareHashAndPassword (es_bcrypt s) (vc_CodeHash c) code"
    and u: "user_of_email email (db w) = Some u" and s: "es_session s = CreateSession c0"
    and ready: "session_ready w"
  shows "\<exists>sess w'. VerifyCode s email code w = (Inr sess, w') \<and> s_UserID sess = u_ID u \<and>
     find_code email (db w') = None"
proof -
  let ?d1 = "count_attempt email (limit s) (db w)"
  let ?d2 = "?d1\<lparr>d_users := upd_where (\<lambda>x. u_ID x = u_ID u) (\<lambda>x. x\<lparr>u_EmailVerified := True\<rparr>) (d_users ?d1)\<rparr>"
  let ?d3 = "?d2\<lparr>d_codes := del_where (\<lambda>c. vc_Email c = email) (d_codes ?d2)\<rparr>"
  let ?w = "w\<lparr>fpos := fpos w + 5, db := ?d3\<rparr>"
  have frame: "d_sessions ?d3 = d_sessions (db w)" "d_users ?d1 = d_users (db w)"
    by (simp_all add: count_attempt_def)
  have "u \<in> set (d_users (db w))" using u by (auto simp: user_of_email_def dest: find_SomeD)
  moreover have "map u_ID (d_users (db ?w)) = map u_ID (d_users (db w))"
    by (simp add: map_upd_where frame)
  ultimately have "user_exists (u_ID u) (db ?w)"
    unfolding user_exists_def by (metis image_eqI list.set_map)
  moreover have "session_ready ?w" using ready by (simp add: session_ready_def count_attempt_def)
  ultimately obtain sess w' where create: "CreateSession c0 (u_ID u) ?w = (Inr sess, w')"
    using fine CreateSession_ready [of ?w "u_ID u" c0] by auto
  then have made: "d_codes (db w') = d_codes ?d3" "s_UserID sess = u_ID u"
    using CreateSession_frame [OF create] sessions.create_issues [OF create] by auto
  have "VerifyCode s email code w = (Inr sess, w')"
  proof -
    have "qGetVerificationCode email w = (Inr c, w\<lparr>fpos := Suc (fpos w)\<rparr>)"
      using fine c by (simp add: qGetVerificationCode_def reads_def roundtrip_def all_fine_def)
    moreover have "qIncrementAttemptsIfBelowLimit email (int32 (MaxAttempts (es_cfg s))) (w\<lparr>fpos := Suc (fpos w)\<rparr>) =
        (Inr (c\<lparr>vc_Attempts := vc_Attempts c + 1\<rparr>), w\<lparr>fpos := fpos w + 2, db := ?d1\<rparr>)"
      using fine c limit_int4 [of s]
      by (simp add: qIncrementAttemptsIfBelowLimit_def writes_def roundtrip_def all_fine_def limit_def
          count_attempt_def)
    moreover have "getOrCreateUser email (w\<lparr>fpos := fpos w + 2, db := ?d1\<rparr>) =
        (Inr u, w\<lparr>fpos := fpos w + 3, db := ?d1\<rparr>)"
      using fine u by (simp add: getOrCreateUser_def qGetUserByEmail_def tryE_def reads_def roundtrip_def
          all_fine_def ret_def user_of_email_def frame)
    moreover have "qSetEmailVerified (u_ID u) (w\<lparr>fpos := fpos w + 3, db := ?d1\<rparr>) =
        (Inr (), w\<lparr>fpos := fpos w + 4, db := ?d2\<rparr>)"
      using fine by (simp add: qSetEmailVerified_def writes_def roundtrip_def all_fine_def)
    moreover have "qDeleteVerificationCode email (w\<lparr>fpos := fpos w + 4, db := ?d2\<rparr>) = (Inr (), ?w)"
      using fine by (simp add: qDeleteVerificationCode_def writes_def roundtrip_def all_fine_def)
    ultimately show ?thesis
      using c create s by (simp add: VerifyCode_def bindE_def mapErr_def tryE_def clock_def ret_def throw_def)
  qed
  with made show ?thesis by (auto simp: find_code_def find_None_iff)
qed

section \<open>Properties\<close>

text \<open>
  C6. Brute force: if none of the guesses that arrive in time while attempts are left matches the
  stored hash, then no guess of the whole sequence, however long, opens a session: a code can be
  tried at most \<^verbatim>\<open>MaxAttempts\<close> times.
\<close>

theorem code_guessing_bounded:
  assumes "all_fine w" and "find_code email (db w) = Some c"
    and "\<And>t g. (t, g) \<in> set (take (nat (limit s - vc_Attempts c))
           (filter (\<lambda>(t, g). t \<le> vc_ExpiresAt c) gs)) \<Longrightarrow>
       \<not> CompareHashAndPassword (es_bcrypt s) (vc_CodeHash c) g"
  shows "list_all (\<lambda>r. \<exists>e. r = Inl e) (guesses s email gs w)"
  using guesses_bounded [OF assms] .

definition plain_bcrypt :: bcrypt_lib where
  "plain_bcrypt = \<lparr>GenerateFromPassword = (\<lambda>p cost salt. Inr p), CompareHashAndPassword = (\<lambda>h p. h = p)\<rparr>"

definition sample_entrance :: "'z mail_world_scheme entranceService" where
  "sample_entrance = \<lparr>es_session = CreateSession \<lparr>sessionDuration = 3600\<rparr>, es_mailer = devMailer,
     es_cfg = \<lparr>ResendAPIKey = '''', FromEmail = ''x'', CodeTTL = 900, MaxAttempts = 2, BcryptCost = 10,
               SessionTTL = 3600\<rparr>,
     es_bcrypt = plain_bcrypt\<rparr>"

definition sample_mail_world :: "mail_world" where
  "sample_mail_world = world.extend sample_world \<lparr>outbox = []\<rparr>"

definition code_world :: "mail_world" where
  "code_world = sample_mail_world\<lparr>db := (db sample_mail_world)\<lparr>
     d_users := [(sample_user 1)\<lparr>u_Email := ''a@b.co''\<rparr>],
     d_codes := [\<lparr>vc_Email = ''a@b.co'', vc_CodeHash = ''123456'', vc_ExpiresAt = 1000,
       vc_Attempts = 0, vc_CreatedAt = 100\<rparr>]\<rparr>\<rparr>"

lemma code_world_facts:
  "all_fine code_world"
  "find_code ''a@b.co'' (db code_world) = Some \<lparr>vc_Email = ''a@b.co'', vc_CodeHash = ''123456'',
     vc_ExpiresAt = 1000, vc_Attempts = 0, vc_CreatedAt = 100\<rparr>"
  "limit sample_entrance = 2" "es_bcrypt sample_entrance = plain_bcrypt"
  "user_of_email ''a@b.co'' (db code_world) = Some ((sample_user 1)\<lparr>u_Email := ''a@b.co''\<rparr>)"
  "es_session sample_entrance = CreateSession \<lparr>sessionDuration = 3600\<rparr>" "users_inv (db code_world)"
  "es_mailer sample_entrance = devMailer" "now code_world = 100" "session_ready code_world"
  "CodeTTL (es_cfg sample_entrance) = 900"
  by (simp_all add: code_world_def sample_mail_world_def world.defs all_fine_def sample_world_def
      find_code_def limit_def sample_entrance_def wrap_int_def user_of_email_def users_inv_def
      session_ready_def empty_db_def max_int4_def)

theorem code_guessing_bounded_witness:
  "list_all (\<lambda>r. \<exists>e. r = Inl e)
     (guesses sample_entrance ''a@b.co'' [(200, ''000000''), (300, ''000001''), (400, ''123456'')] code_world)"
  by (rule code_guessing_bounded [OF code_world_facts(1,2)])
    (auto simp: code_world_facts plain_bcrypt_def numeral_eq_Suc)

text \<open>
  C7. A login with a code succeeds only for an unexpired code with attempts left whose hash matches.
  The session is new, is found under its token and belongs to the account of the address: the
  existing one, which keeps its identity, or exactly one new account; that account is verified.
\<close>

theorem login_sound:
  assumes "es_session s = CreateSession c0" and "VerifyCode s email code w = (Inr sess, w')"
  shows "\<exists>c u. find_code email (db w) = Some c \<and> now w \<le> vc_ExpiresAt c \<and> vc_Attempts c < limit s \<and>
    CompareHashAndPassword (es_bcrypt s) (vc_CodeHash c) code \<and>
    u_Email u = email \<and> s_UserID sess = u_ID u \<and>
    sess \<notin> set (d_sessions (db w)) \<and> session_by_token (s_Token sess) (db w') = Some sess \<and>
    (case user_of_email email (db w) of
       Some v \<Rightarrow> u = v \<and>
         d_users (db w') = upd_where (\<lambda>x. u_ID x = u_ID u) (\<lambda>x. x\<lparr>u_EmailVerified := True\<rparr>) (d_users (db w))
     | None \<Rightarrow> u_ID u \<notin> u_ID ` set (d_users (db w)) \<and> u_Username u \<notin> u_Username ` set (d_users (db w)) \<and>
         d_users (db w') = upd_where (\<lambda>x. u_ID x = u_ID u) (\<lambda>x. x\<lparr>u_EmailVerified := True\<rparr>)
           (d_users (db w) @ [u]))"
  using sessions.VerifyCode_Inr [OF assms] .

lemma sample_login:
  "\<exists>sess w'. VerifyCode sample_entrance ''a@b.co'' ''123456'' code_world = (Inr sess, w')"
  using VerifyCode_existing [OF code_world_facts(1,2) _ _ _ code_world_facts(5,6,10), of "''123456''"]
  by (auto simp: code_world_facts plain_bcrypt_def)

theorem login_sound_witness:
  "\<exists>sess w'. VerifyCode sample_entrance ''a@b.co'' ''123456'' code_world = (Inr sess, w') \<and>
     s_UserID sess = 1 \<and> session_by_token (s_Token sess) (db w') = Some sess"
proof -
  from sample_login obtain sess w' where
    run: "VerifyCode sample_entrance ''a@b.co'' ''123456'' code_world = (Inr sess, w')" by blast
  with login_sound [OF code_world_facts(6) run] show ?thesis
    by (auto simp: code_world_facts sample_user_def)
qed



text \<open>
  A request for a code that succeeds has stored the hash of a six-digit code, with no attempts
  used and the configured lifetime, and has sent exactly that code to the address, which is valid.
\<close>

lemma sent_code_stored:
  assumes "es_mailer s = devMailer" and "SendCode s email w = (Inr (), w')"
  shows "\<exists>code salt hash c. isValidEmail email \<and> length code = 6 \<and> list_all is_digit code \<and>
    last (outbox w') = (email, code) \<and>
    GenerateFromPassword (es_bcrypt s) code (BcryptCost (es_cfg s)) salt = Inr hash \<and>
    find_code email (db w') = Some c \<and> vc_CodeHash c = hash \<and> vc_Attempts c = 0 \<and>
    vc_ExpiresAt c = now w + CodeTTL (es_cfg s)"
proof -
  from SendCode_Inr [OF assms(2)] obtain code salt hash v c where
    *: "isValidEmail email" "length code = 6" "list_all is_digit code"
    "GenerateFromPassword (es_bcrypt s) code (BcryptCost (es_cfg s)) salt = Inr hash"
    "find_code email (db v) = Some c" "vc_CodeHash c = hash" "vc_Attempts c = 0"
    "vc_ExpiresAt c = now w + CodeTTL (es_cfg s)" and sent: "devMailer email code v = (Inr (), w')"
    by (auto simp: assms(1))
  have "last (outbox w') = (email, code)" "db w' = db v"
    using sent dev.send_frame [OF sent] by (auto simp: devMailer_def)
  with * show ?thesis by auto
qed

definition fresh_world :: "mail_world" where
  "fresh_world = code_world\<lparr>db := (db code_world)\<lparr>d_codes := []\<rparr>\<rparr>"

lemma fresh_world_send:
  "\<exists>code c w1. SendCode sample_entrance ''a@b.co'' fresh_world = (Inr (), w1) \<and>
     last (outbox w1) = (''a@b.co'', code) \<and>
     db w1 = (db fresh_world)\<lparr>d_codes := d_codes (db fresh_world) @ [c]\<rparr>"
proof (rule SendCode_fresh)
  show "isValidEmail ''a@b.co''" by code_simp
qed (simp_all add: code_world_facts fresh_world_def find_code_def plain_bcrypt_def)

text \<open>
  While a code is younger than the cooldown no new one is issued: the request fails and neither
  the tables nor the attempts already counted change.
\<close>

lemma code_cooldown:
  assumes "isValidEmail email" and "find_code email (db w) = Some c" and "faults w (fpos w) = Fine"
    and "vc_ExpiresAt c - now w > CodeTTL (es_cfg s) - sendCooldown" and "vc_ExpiresAt c > now w"
  shows "fst (SendCode s email w) = Inl SvcErrCodeRecentlySent \<and> db (snd (SendCode s email w)) = db w"
  using SendCode_cooldown [OF assms] by simp



text \<open>
  C8. Login round trip: if the mailed code is presented in time by the owner of an existing account,
  with at least one attempt allowed and no transport fault, the login succeeds for that account,
  and the code is gone afterwards. The hypothesis on bcrypt is that a hash matches the password it
  was made from.
\<close>

theorem login_round_trip:
  assumes bcrypt: "\<And>p cost salt h. GenerateFromPassword (es_bcrypt s) p cost salt = Inr h \<Longrightarrow>
      CompareHashAndPassword (es_bcrypt s) h p"
    and s: "es_mailer s = devMailer" "es_session s = CreateSession c0" "0 < limit s"
    and send: "SendCode s email w = (Inr (), w1)" and mail: "last (outbox w1) = (email, code)"
    and v: "db v = db w1" "now v \<le> now w + CodeTTL (es_cfg s)" "all_fine v" "session_ready v"
    and u: "user_of_email email (db v) = Some u"
  shows "\<exists>sess v1. VerifyCode s email code v = (Inr sess, v1) \<and> s_UserID sess = u_ID u \<and>
    (\<exists>v2. VerifyCode s email code (v1\<lparr>faults := \<lambda>_. Fine\<rparr>) = (Inl SvcErrInvalidCode, v2))"
proof -
  from SendCode_Inr [OF send] obtain code' salt hash c x where
    "GenerateFromPassword (es_bcrypt s) code' (BcryptCost (es_cfg s)) salt = Inr hash"
    "find_code email (db x) = Some c" "vc_CodeHash c = hash" "vc_Attempts c = 0"
    "vc_ExpiresAt c = now w + CodeTTL (es_cfg s)" and sent: "devMailer email code' x = (Inr (), w1)"
    unfolding s(1) by blast
  moreover have "db w1 = db x" "code' = code"
    using sent mail dev.send_frame [OF sent] by (auto simp: devMailer_def)
  ultimately obtain sess v1 where v1: "VerifyCode s email code v = (Inr sess, v1)" "s_UserID sess = u_ID u"
    "find_code email (db v1) = None"
    using VerifyCode_existing [OF v(3), of email c s code u c0] bcrypt s v u by auto
  moreover from v1(3) have "VerifyCode s email code (v1\<lparr>faults := \<lambda>_. Fine\<rparr>) =
      (Inl SvcErrInvalidCode, v1\<lparr>faults := \<lambda>_. Fine, fpos := Suc (fpos v1)\<rparr>)"
    by (simp add: VerifyCode_def qGetVerificationCode_def bindE_def mapErr_def tryE_def throw_def
        reads_def roundtrip_def wrap_unless_no_rows_def)
  ultimately show ?thesis by blast
qed

theorem login_round_trip_witness:
  "\<exists>code w1 sess v1. SendCode sample_entrance ''a@b.co'' fresh_world = (Inr (), w1) \<and>
     VerifyCode sample_entrance ''a@b.co'' code (fresh_world\<lparr>db := db w1\<rparr>) = (Inr sess, v1) \<and> s_UserID sess = 1"
proof -
  from fresh_world_send obtain code c w1 where
    run: "SendCode sample_entrance ''a@b.co'' fresh_world = (Inr (), w1)" "last (outbox w1) = (''a@b.co'', code)"
    and d: "db w1 = (db fresh_world)\<lparr>d_codes := d_codes (db fresh_world) @ [c]\<rparr>" by blast
  let ?v = "fresh_world\<lparr>db := db w1\<rparr>"
  have v: "all_fine ?v" "session_ready ?v"
    "user_of_email ''a@b.co'' (db ?v) = Some ((sample_user 1)\<lparr>u_Email := ''a@b.co''\<rparr>)"
    using code_world_facts by (simp_all add: d fresh_world_def session_ready_def user_of_email_def)
  have "\<exists>sess v1. VerifyCode sample_entrance ''a@b.co'' code ?v = (Inr sess, v1) \<and>
      s_UserID sess = u_ID ((sample_user 1)\<lparr>u_Email := ''a@b.co''\<rparr>) \<and>
      (\<exists>v2. VerifyCode sample_entrance ''a@b.co'' code (v1\<lparr>faults := \<lambda>_. Fine\<rparr>) = (Inl SvcErrInvalidCode, v2))"
    by (rule login_round_trip [OF _ code_world_facts(8,6) _ run _ _ v])
      (simp_all add: code_world_facts plain_bcrypt_def)
  with run show ?thesis by (auto simp: sample_user_def)
qed

end
