(* ===== verification/Paths.thy ===== *)
theory Paths
  imports Text_Format
begin

text \<open>
  \<^verbatim>\<open>strings.Split\<close>, \<^verbatim>\<open>strings.Join\<close> and trimming by a set of bytes, and the slash-separated paths of
  \<^verbatim>\<open>path/filepath\<close> on Unix: \<^verbatim>\<open>Clean\<close>, \<^verbatim>\<open>Join\<close>, \<^verbatim>\<open>Dir\<close> and \<^verbatim>\<open>Ext\<close>.
\<close>

section \<open>Splitting and joining\<close>

fun split_on :: "char \<Rightarrow> string \<Rightarrow> string list" where
  "split_on c [] = [[]]"
| "split_on c (x # xs) =
     (if x = c then [] # split_on c xs
      else (case split_on c xs of [] \<Rightarrow> [[x]] | l # ls \<Rightarrow> (x # l) # ls))"

fun join_with :: "string \<Rightarrow> string list \<Rightarrow> string" where
  "join_with sep [] = []"
| "join_with sep [l] = l"
| "join_with sep (l # l' # ls) = l @ sep @ join_with sep (l' # ls)"

definition trim_right :: "string \<Rightarrow> string \<Rightarrow> string" where
  "trim_right cutset s = rev (dropWhile (\<lambda>c. c \<in> set cutset) (rev s))"

definition trim_left :: "string \<Rightarrow> string \<Rightarrow> string" where
  "trim_left cutset s = dropWhile (\<lambda>c. c \<in> set cutset) s"

definition HasPrefix :: "string \<Rightarrow> string \<Rightarrow> bool" where
  "HasPrefix s p \<longleftrightarrow> take (length p) s = p"

definition HasSuffix :: "string \<Rightarrow> string \<Rightarrow> bool" where
  "HasSuffix s p \<longleftrightarrow> length p \<le> length s \<and> drop (length s - length p) s = p"

definition TrimSuffix :: "string \<Rightarrow> string \<Rightarrow> string" where
  "TrimSuffix s p = (if HasSuffix s p then take (length s - length p) s else s)"

section \<open>Paths\<close>

definition path_elems :: "string \<Rightarrow> string list" where
  "path_elems s = filter (\<lambda>e. e \<noteq> [] \<and> e \<noteq> ''.'') (split_on CHR ''/'' s)"

fun resolve :: "bool \<Rightarrow> string list \<Rightarrow> string list \<Rightarrow> string list" where
  "resolve rooted stack [] = rev stack"
| "resolve rooted stack (e # es) =
     (if e = ''..'' then
        (case stack of
           [] \<Rightarrow> if rooted then resolve rooted [] es else resolve rooted [''..''] es
         | x # rest \<Rightarrow>
             if x = ''..'' then resolve rooted (''..'' # stack) es else resolve rooted rest es)
      else resolve rooted (e # stack) es)"

definition is_rooted :: "string \<Rightarrow> bool" where
  "is_rooted s \<longleftrightarrow> HasPrefix s ''/''"

definition render :: "bool \<Rightarrow> string list \<Rightarrow> string" where
  "render rooted es =
     (if rooted then ''/'' @ join_with ''/'' es else if es = [] then ''.'' else join_with ''/'' es)"

definition Clean :: "string \<Rightarrow> string" where
  "Clean s = render (is_rooted s) (resolve (is_rooted s) [] (path_elems s))"

definition JoinPath :: "string list \<Rightarrow> string" where
  "JoinPath es =
     (case filter (\<lambda>e. e \<noteq> []) es of
        [] \<Rightarrow> []
      | es' \<Rightarrow> Clean (join_with ''/'' es'))"

text \<open>\<^verbatim>\<open>filepath.Ext\<close>: from the last dot after the last slash.\<close>

definition Ext :: "string \<Rightarrow> string" where
  "Ext s = (let base = last (split_on CHR ''/'' s); r = rev base in
            if CHR ''.'' \<in> set base then CHR ''.'' # rev (takeWhile (\<lambda>c. c \<noteq> CHR ''.'') r) else [])"

definition ToLower :: "string \<Rightarrow> string" where
  "ToLower s = map (\<lambda>c. if 65 \<le> (of_char c :: nat) \<and> of_char c \<le> (90 :: nat)
                        then char_of ((of_char c :: nat) + 32) else c) s"

section \<open>Facts\<close>

lemma split_on_nonempty [simp]: "split_on c s \<noteq> []"
  by (induction s) (auto split: list.split)

lemma split_on_no_sep: "l \<in> set (split_on c s) \<Longrightarrow> c \<notin> set l"
  by (induction s arbitrary: l) (auto split: list.splits if_splits)

lemma join_split: "join_with [c] (split_on c s) = s"
proof (induction s)
  case (Cons x s)
  then show ?case by (cases "split_on c s"; cases "tl (split_on c s)") auto
qed simp

lemma split_single: "c \<notin> set l \<Longrightarrow> split_on c l = [l]"
  by (induction l) auto

lemma split_append: "c \<notin> set l \<Longrightarrow> split_on c (l @ c # s) = l # split_on c s"
  by (induction l) auto

lemma split_join:
  "ls \<noteq> [] \<Longrightarrow> (\<And>l. l \<in> set ls \<Longrightarrow> c \<notin> set l) \<Longrightarrow> split_on c (join_with [c] ls) = ls"
  by (induction "[c]" ls rule: join_with.induct) (auto simp: split_single split_append)

lemma trim_right_suffix: "\<exists>t. s = trim_right cs s @ t \<and> set t \<subseteq> set cs"
proof -
  have "rev s = takeWhile (\<lambda>c. c \<in> set cs) (rev s) @ dropWhile (\<lambda>c. c \<in> set cs) (rev s)" by simp
  then have "s = trim_right cs s @ rev (takeWhile (\<lambda>c. c \<in> set cs) (rev s))"
    unfolding trim_right_def by (metis rev_append rev_rev_ident)
  then show ?thesis by (metis set_rev set_takeWhileD subsetI)
qed

lemma trim_right_empty: "trim_right cs s = [] \<longleftrightarrow> set s \<subseteq> set cs"
  by (auto simp: trim_right_def)

lemma trim_right_last: "trim_right cs s = [] \<or> last (trim_right cs s) \<notin> set cs"
  using hd_dropWhile [of "\<lambda>c. c \<in> set cs" "rev s"] by (auto simp: trim_right_def last_rev)

lemma trim_right_set: "set (trim_right cs s) \<subseteq> set s"
  using trim_right_suffix [of s cs] by (metis Un_iff set_append subsetI)

lemma trim_right_fixed: "s = [] \<or> last s \<notin> set cs \<Longrightarrow> trim_right cs s = s"
  by (cases s rule: rev_cases) (auto simp: trim_right_def)

lemma trim_right_append: "set t \<subseteq> set cs \<Longrightarrow> trim_right cs (s @ t) = trim_right cs s"
  by (simp add: trim_right_def, subst dropWhile_append2) auto

lemma trim_right_idem [simp]: "trim_right cs (trim_right cs s) = trim_right cs s"
  by (rule trim_right_fixed [OF trim_right_last])

subsection \<open>Clean paths\<close>

definition plain :: "string \<Rightarrow> bool" where
  "plain e \<longleftrightarrow> e \<noteq> [] \<and> e \<noteq> ''.'' \<and> e \<noteq> ''..'' \<and> CHR ''/'' \<notin> set e"

lemma split_on_append: "split_on c (xs @ c # ys) = split_on c xs @ split_on c ys"
proof (induction xs)
  case (Cons x xs)
  then show ?case by (auto split: list.split)
qed simp

lemma path_elems_append: "path_elems (p @ ''/'' @ q) = path_elems p @ path_elems q"
  by (simp add: path_elems_def split_on_append)

lemma path_elems_plain: "e \<in> set (path_elems p) \<Longrightarrow> plain e \<or> e = ''..''"
  by (auto simp: path_elems_def plain_def dest: split_on_no_sep)

lemma path_elems_join: "list_all plain es \<Longrightarrow> path_elems (join_with ''/'' es) = es"
proof (cases "es = []")
  case True
  then show ?thesis by (simp add: path_elems_def)
next
  case False
  assume plain: "list_all plain es"
  with False have "split_on CHR ''/'' (join_with ''/'' es) = es"
    by (intro split_join) (auto simp: list_all_iff plain_def)
  with plain show ?thesis
    by (simp add: path_elems_def filter_id_conv list_all_iff plain_def)
qed

lemma path_elems_render: "list_all plain es \<Longrightarrow> path_elems (render r es) = es"
  using path_elems_append [of "[]" "join_with ''/'' es"] path_elems_join [of es]
  by (auto simp: render_def path_elems_def [of "[]"]) (simp add: path_elems_def)

lemma resolve_plain: "list_all plain es \<Longrightarrow> resolve r stack es = rev stack @ es"
  by (induction es arbitrary: stack) (auto simp: plain_def)

lemma resolve_append_plain: "list_all plain es \<Longrightarrow> resolve r [] (es @ fs) = resolve r (rev es) fs"
proof -
  have "list_all plain es \<Longrightarrow> resolve r stack (es @ fs) = resolve r (rev es @ stack) fs" for stack
    by (induction es arbitrary: stack) (auto simp: plain_def)
  then show "list_all plain es \<Longrightarrow> ?thesis" by simp
qed

lemma resolve_rooted_plain:
  "list_all (\<lambda>e. plain e \<or> e = ''..'') es \<Longrightarrow> list_all plain stack \<Longrightarrow> list_all plain (resolve True stack es)"
  by (induction es arbitrary: stack) (auto simp: plain_def split: list.splits)

text \<open>Without a root, going up past the start stays at the front of the result.\<close>

lemma resolve_relative:
  "list_all (\<lambda>e. plain e \<or> e = ''..'') es \<Longrightarrow> list_all plain s \<Longrightarrow>
     \<exists>k fs. resolve False (s @ replicate n ''..'') es = replicate k ''..'' @ fs \<and> list_all plain fs"
proof (induction es arbitrary: s n)
  case Nil
  then show ?case by (intro exI [of _ n] exI [of _ "rev s"]) simp
next
  case (Cons e es)
  show ?case
  proof (cases "e = ''..''")
    case True
    show ?thesis
    proof (cases s)
      case Nil
      with Cons.IH [of "[]" "Suc n"] Cons.prems True show ?thesis
        by (cases n) simp_all
    next
      case (Cons x s')
      with Cons.prems Cons.IH [of s' n] True show ?thesis by (simp add: plain_def)
    qed
  next
    case False
    with Cons.IH [of "e # s" n] Cons.prems show ?thesis by simp
  qed
qed

lemma is_rooted_simps [simp]: "is_rooted (CHR ''/'' # p)" "\<not> is_rooted []"
  by (simp_all add: is_rooted_def HasPrefix_def)

lemma Clean_plain:
  assumes "\<not> HasPrefix (Clean p) ''..''"
  shows "list_all plain (path_elems (Clean p)) \<and> Clean p = render (is_rooted p) (path_elems (Clean p))"
proof -
  have elems: "list_all (\<lambda>e. plain e \<or> e = ''..'') (path_elems p)"
    by (auto simp: list_all_iff dest: path_elems_plain)
  have "list_all plain (resolve (is_rooted p) [] (path_elems p))"
  proof (cases "is_rooted p")
    case True
    with resolve_rooted_plain [OF elems, of "[]"] show ?thesis by simp
  next
    case False
    from resolve_relative [OF elems, of "[]" 0] obtain k fs where
      res: "resolve False [] (path_elems p) = replicate k ''..'' @ fs" "list_all plain fs" by auto
    have "k = 0"
    proof (cases k)
      case (Suc j)
      have "HasPrefix (join_with ''/'' (''..'' # gs)) ''..''" for gs
        by (cases gs) (simp_all add: HasPrefix_def)
      with assms False res Suc show ?thesis by (simp add: Clean_def render_def)
    qed
    with False res show ?thesis by simp
  qed
  then show ?thesis by (simp add: Clean_def path_elems_render)
qed

lemma join_with_append:
  "es \<noteq> [] \<Longrightarrow> fs \<noteq> [] \<Longrightarrow> join_with sep (es @ fs) = join_with sep es @ sep @ join_with sep fs"
  by (induction sep es rule: join_with.induct) (auto simp: neq_Nil_conv)

lemma render_append:
  "es \<noteq> [] \<Longrightarrow> fs \<noteq> [] \<Longrightarrow> render r (es @ fs) = render r es @ ''/'' @ join_with ''/'' fs"
  by (simp add: render_def join_with_append)

lemma JoinPath_render:
  assumes "list_all plain ds" and "ds \<noteq> []" and "list_all plain es" and "p = render r es"
  shows "JoinPath [render True ds, p] = render True (ds @ es)"
proof -
  have "path_elems (render True ds @ ''/'' @ p) = ds @ es"
    using assms by (simp add: path_elems_append path_elems_render del: append_Cons)
  moreover have "is_rooted (render True ds @ ''/'' @ p)" by (simp add: render_def)
  moreover have "resolve True [] (ds @ es) = ds @ es"
    using assms by (simp add: resolve_plain)
  ultimately have "Clean (render True ds @ ''/'' @ p) = render True (ds @ es)"
    by (simp add: Clean_def del: append_Cons append.simps)
  moreover have "join_with ''/'' es \<noteq> []" if "es \<noteq> []"
    using that assms(3) by (cases es; cases "tl es") (auto simp: plain_def)
  then have "p \<noteq> []" using assms(4) by (auto simp: render_def split: if_splits)
  moreover have "render True ds \<noteq> []" by (simp add: render_def)
  ultimately show ?thesis by (simp add: JoinPath_def)
qed

end
