(* ===== verification/Store.thy ===== *)
theory Store
  imports Paths Sample "HOL-Library.List_Lexorder" "HOL-Library.Char_ord"
begin

text \<open>
  \<^verbatim>\<open>internal/problems/store.go\<close>: loading a problem directory, the cache of loaded problems and the
  comparison of program output. The file system is the part the code sees: nodes by path, and the
  paths on which the operating system reports an input/output error. \<^verbatim>\<open>encoding/json\<close> is the argument
  \<open>unmarshal\<close> of the functions that decode a manifest. Locks are left out here: one request at a time
  reads or writes the cache.
\<close>

section \<open>The file system\<close>

datatype node = File string | Dir

record filesystem =
  f_nodes :: "(string \<times> node) list"
  f_bad :: "string list"

definition ErrNotExist :: err where
  "ErrNotExist = ErrText ''file does not exist''"

definition ErrIO :: err where
  "ErrIO = ErrText ''input/output error''"

definition Stat :: "filesystem \<Rightarrow> string \<Rightarrow> err + node" where
  "Stat fs p =
     (if p \<in> set (f_bad fs) then Inl ErrIO
      else case map_of (f_nodes fs) p of None \<Rightarrow> Inl ErrNotExist | Some n \<Rightarrow> Inr n)"

definition ReadFile :: "filesystem \<Rightarrow> string \<Rightarrow> err + string" where
  "ReadFile fs p =
     (case Stat fs p of
        Inl e \<Rightarrow> Inl e
      | Inr Dir \<Rightarrow> Inl (ErrText ''is a directory'')
      | Inr (File s) \<Rightarrow> Inr s)"

text \<open>\<^verbatim>\<open>os.ReadDir\<close>: the direct children, sorted by name, with \<^verbatim>\<open>IsDir\<close>.\<close>

definition child_name :: "string \<Rightarrow> string \<Rightarrow> string option" where
  "child_name dir p =
     (let pre = dir @ ''/'' in
      if HasPrefix p pre \<and> drop (length pre) p \<noteq> [] \<and> CHR ''/'' \<notin> set (drop (length pre) p)
      then Some (drop (length pre) p) else None)"

definition ReadDir :: "filesystem \<Rightarrow> string \<Rightarrow> err + (string \<times> bool) list" where
  "ReadDir fs dir =
     (case Stat fs dir of
        Inl e \<Rightarrow> Inl e
      | Inr (File _) \<Rightarrow> Inl (ErrText ''not a directory'')
      | Inr Dir \<Rightarrow>
          Inr (sort_key fst
            (concat (map (\<lambda>(p, n). case child_name dir p of
                            None \<Rightarrow> [] | Some c \<Rightarrow> [(c, case n of Dir \<Rightarrow> True | File _ \<Rightarrow> False)])
                       (f_nodes fs)))))"

section \<open>Problems\<close>

record Manifest =
  m_Slug :: string
  m_Title :: string
  m_Difficulty :: string
  m_TimeLimitMs :: int
  m_MemoryLimitMb :: int

record TestCase =
  tc_Name :: string
  tc_Input :: string
  tc_Expected :: string

record Problem =
  pr_Slug :: string
  pr_Statement :: string
  pr_Manifest :: Manifest
  pr_TestCases :: "TestCase list"

definition wrap :: "string \<Rightarrow> err + 'a \<Rightarrow> err + 'a" where
  "wrap msg r = (case r of Inl e \<Rightarrow> Inl (ErrWrap msg e) | Inr a \<Rightarrow> Inr a)"

definition andThen :: "err + 'a \<Rightarrow> ('a \<Rightarrow> err + 'b) \<Rightarrow> err + 'b" where
  "andThen r f = (case r of Inl e \<Rightarrow> Inl e | Inr a \<Rightarrow> f a)"

fun readCases :: "filesystem \<Rightarrow> string \<Rightarrow> string list \<Rightarrow> err + TestCase list" where
  "readCases fs dir [] = Inr []"
| "readCases fs dir (inFile # rest) =
     (let base = TrimSuffix inFile ''.in'' in
      andThen (ReadFile fs (JoinPath [dir, inFile])) (\<lambda>inputData.
      andThen (wrap (''reading '' @ base @ ''.out'') (ReadFile fs (JoinPath [dir, base @ ''.out''])))
        (\<lambda>expectedData.
      andThen (readCases fs dir rest) (\<lambda>cases.
      Inr (\<lparr>tc_Name = base, tc_Input = inputData, tc_Expected = expectedData\<rparr> # cases)))))"

definition loadTestCases :: "filesystem \<Rightarrow> string \<Rightarrow> err + TestCase list" where
  "loadTestCases fs dir =
     (case Stat fs dir of
        Inl e \<Rightarrow> if errors_is e ErrNotExist then Inr [] else Inl e
      | Inr _ \<Rightarrow>
          andThen (ReadDir fs dir) (\<lambda>entries.
          let inNames = sort (map fst (filter (\<lambda>(name, isDir). \<not> isDir \<and> HasSuffix name ''.in'') entries))
          in readCases fs dir inNames))"

definition loadProblemFromDir ::
  "(string \<Rightarrow> err + Manifest) \<Rightarrow> filesystem \<Rightarrow> string \<Rightarrow> string \<Rightarrow> err + Problem" where
  "loadProblemFromDir unmarshal fs artifactPath dir =
     andThen (wrap ''reading manifest.json'' (ReadFile fs (JoinPath [dir, ''manifest.json'']))) (\<lambda>data.
     andThen (wrap ''parsing manifest.json'' (unmarshal data)) (\<lambda>manifest.
     if m_Title manifest = '''' then Inl (ErrText ''manifest.json: title is required'')
     else
       andThen (wrap ''reading statement.md'' (ReadFile fs (JoinPath [dir, ''statement.md'']))) (\<lambda>stmt.
       andThen (wrap ''loading tests'' (loadTestCases fs (JoinPath [dir, ''tests'']))) (\<lambda>tests.
       if tests = [] then Inl (ErrText ''problem has no test cases'')
       else Inr \<lparr>pr_Slug = hd (split_on CHR ''/'' artifactPath), pr_Statement = stmt,
                 pr_Manifest = manifest, pr_TestCases = tests\<rparr>))))"

record fs_world = world +
  files :: filesystem
  baseDir :: string
  cache :: "string \<rightharpoonup> Problem"

definition GetByPath ::
  "(string \<Rightarrow> err + Manifest) \<Rightarrow> string \<Rightarrow> ('z fs_world_scheme, err, Problem) sem" where
  "GetByPath unmarshal artifactPath = (\<lambda>w.
     case cache w artifactPath of
       Some p \<Rightarrow> (Inr p, w)
     | None \<Rightarrow>
         (case loadProblemFromDir unmarshal (files w) artifactPath (JoinPath [baseDir w, artifactPath]) of
            Inl e \<Rightarrow> (Inl (ErrWrap (''load problem '' @ artifactPath) e), w)
          | Inr p \<Rightarrow> (Inr p, w\<lparr>cache := (cache w)(artifactPath \<mapsto> p)\<rparr>)))"

section \<open>Output comparison\<close>

definition newline :: char where
  "newline = char_of (10 :: nat)"

definition blanks :: string where
  "blanks = [CHR '' '', char_of (9 :: nat), char_of (13 :: nat)]"

definition NormalizeOutput :: "string \<Rightarrow> string" where
  "NormalizeOutput s =
     (let lines = map (trim_right blanks) (split_on newline s)
      in trim_right [newline] (join_with [newline] lines))"

definition Match :: "string \<Rightarrow> string \<Rightarrow> bool" where
  "Match actual expected \<longleftrightarrow> NormalizeOutput actual = NormalizeOutput expected"

section \<open>Facts\<close>

lemma andThen_Inr [success]: "andThen r f = Inr b \<longleftrightarrow> (\<exists>a. r = Inr a \<and> f a = Inr b)"
  by (auto simp: andThen_def split: sum.splits)

lemma wrap_Inr [success]: "wrap msg r = Inr a \<longleftrightarrow> r = Inr a"
  by (auto simp: wrap_def split: sum.splits)

text \<open>The lines of an output, without trailing blanks and without blank lines at the end.\<close>

definition drop_blank_end :: "string list \<Rightarrow> string list" where
  "drop_blank_end ls = rev (dropWhile (\<lambda>l. l = []) (rev ls))"

definition output_lines :: "string \<Rightarrow> string list" where
  "output_lines s = drop_blank_end (map (trim_right blanks) (split_on newline s))"

lemma join_snoc: "ls \<noteq> [] \<Longrightarrow> join_with sep (ls @ [l]) = join_with sep ls @ sep @ l"
  by (induction sep ls rule: join_with.induct) auto

lemma drop_blank_end_snoc [simp]:
  "drop_blank_end [] = []" "drop_blank_end (ls @ [[]]) = drop_blank_end ls"
  "l \<noteq> [] \<Longrightarrow> drop_blank_end (ls @ [l]) = ls @ [l]"
  by (auto simp: drop_blank_end_def)

lemma drop_blank_end_subset: "set (drop_blank_end ls) \<subseteq> set ls"
  by (auto simp: drop_blank_end_def dest: set_dropWhileD)

lemma drop_blank_end_last: "drop_blank_end ls = [] \<or> last (drop_blank_end ls) \<noteq> []"
  using hd_dropWhile [of "\<lambda>l. l = []" "rev ls"] by (auto simp: drop_blank_end_def last_rev)

lemma trim_join:
  "(\<And>l. l \<in> set ls \<Longrightarrow> c \<notin> set l) \<Longrightarrow>
   trim_right [c] (join_with [c] ls) = join_with [c] (drop_blank_end ls)"
proof (induction ls rule: rev_induct)
  case (snoc l ls)
  show ?case
  proof (cases "l = []")
    case True
    with snoc show ?thesis
      by (cases "ls = []") (auto simp: join_snoc trim_right_append trim_right_def drop_blank_end_def)
  next
    case False
    with snoc.prems have "last l \<noteq> c" by (metis in_set_conv_decomp last_in_set)
    with False have "trim_right [c] (join_with [c] (ls @ [l])) = join_with [c] (ls @ [l])"
      by (cases "ls = []") (auto simp: join_snoc intro!: trim_right_fixed)
    with False show ?thesis by simp
  qed
qed (simp add: trim_right_def)

lemma join_last_nonempty: "ls \<noteq> [] \<Longrightarrow> last ls \<noteq> [] \<Longrightarrow> join_with sep ls \<noteq> []"
  by (induction sep ls rule: join_with.induct) auto

lemma join_inj:
  assumes "\<And>l. l \<in> set xs \<union> set ys \<Longrightarrow> c \<notin> set l" and "xs = [] \<or> last xs \<noteq> []" and "ys = [] \<or> last ys \<noteq> []"
    and "join_with [c] xs = join_with [c] ys"
  shows "xs = ys"
proof (cases "xs = [] \<or> ys = []")
  case True
  with assms(2-4) join_last_nonempty [of xs "[c]"] join_last_nonempty [of ys "[c]"] show ?thesis
    by (metis join_with.simps(1))
next
  case False
  then have "split_on c (join_with [c] xs) = xs" "split_on c (join_with [c] ys) = ys"
    using assms(1) by (auto intro!: split_join)
  with assms(4) show ?thesis by metis
qed

lemma trimmed_lines_no_newline:
  "l \<in> set (map (trim_right blanks) (split_on newline s)) \<Longrightarrow> newline \<notin> set l"
  using trim_right_set split_on_no_sep by fastforce

lemma NormalizeOutput_lines: "NormalizeOutput s = join_with [newline] (output_lines s)"
  unfolding NormalizeOutput_def Let_def output_lines_def
  by (rule trim_join) (rule trimmed_lines_no_newline)

lemma Match_lines: "Match a b \<longleftrightarrow> output_lines a = output_lines b"
proof
  assume "Match a b"
  then show "output_lines a = output_lines b"
    unfolding Match_def NormalizeOutput_lines
  proof (rule join_inj [rotated 3])
    show "newline \<notin> set l" if "l \<in> set (output_lines a) \<union> set (output_lines b)" for l
      using that drop_blank_end_subset trimmed_lines_no_newline unfolding output_lines_def by blast
  qed (auto simp: output_lines_def drop_blank_end_last)
qed (simp add: Match_def NormalizeOutput_lines)

lemma NormalizeOutput_idem: "NormalizeOutput (NormalizeOutput s) = NormalizeOutput s"
proof -
  let ?ls = "output_lines s"
  have no: "newline \<notin> set l" if "l \<in> set ?ls" for l
    using that drop_blank_end_subset trimmed_lines_no_newline unfolding output_lines_def by blast
  have trimmed: "map (trim_right blanks) ?ls = ?ls"
    using drop_blank_end_subset [of "map (trim_right blanks) (split_on newline s)"]
    by (intro map_idI) (auto simp: output_lines_def)
  have "output_lines (join_with [newline] ?ls) = ?ls"
  proof (cases "?ls = []")
    case True
    moreover have "output_lines [] = []" by (simp add: output_lines_def trim_right_def drop_blank_end_def)
    ultimately show ?thesis by simp
  next
    case False
    with drop_blank_end_last have "last ?ls \<noteq> []" by (auto simp: output_lines_def)
    with False have "drop_blank_end ?ls = ?ls"
      by (metis append_butlast_last_id drop_blank_end_snoc(3))
    with False no trimmed show ?thesis
      by (simp add: output_lines_def [of "join_with [newline] ?ls"] split_join)
  qed
  then show ?thesis by (simp add: NormalizeOutput_lines)
qed


text \<open>The cache: every entry is what loading the directory gives.\<close>

definition cache_ok :: "(string \<Rightarrow> err + Manifest) \<Rightarrow> 'z fs_world_scheme \<Rightarrow> bool" where
  "cache_ok unmarshal w \<longleftrightarrow> (\<forall>a p. cache w a = Some p \<longrightarrow>
     loadProblemFromDir unmarshal (files w) a (JoinPath [baseDir w, a]) = Inr p)"

lemma GetByPath_transparent:
  assumes "cache_ok unmarshal w" and "GetByPath unmarshal a w = (r, w')"
  shows "r = wrap (''load problem '' @ a) (loadProblemFromDir unmarshal (files w) a (JoinPath [baseDir w, a])) \<and>
    cache_ok unmarshal w' \<and> files w' = files w \<and> db w' = db w"
  using assms
  by (auto simp: GetByPath_def cache_ok_def wrap_def split: option.splits sum.splits if_splits)

lemma keeps_db_GetByPath [keeps_intro]: "keeps_db I (GetByPath unmarshal a)"
  by (auto simp: keeps_def GetByPath_def split: option.split sum.split)

text \<open>Every test case of a loaded directory has the contents of its two files.\<close>

lemma readCases_Inr:
  "readCases fs dir names = Inr cs \<Longrightarrow>
     map tc_Name cs = map (\<lambda>n. TrimSuffix n ''.in'') names \<and>
     list_all2 (\<lambda>n c. ReadFile fs (JoinPath [dir, n]) = Inr (tc_Input c) \<and>
        ReadFile fs (JoinPath [dir, TrimSuffix n ''.in'' @ ''.out'']) = Inr (tc_Expected c)) names cs"
  by (induction names arbitrary: cs) (auto simp: Let_def success)

lemma loadProblemFromDir_Inr:
  assumes "loadProblemFromDir unmarshal fs a dir = Inr p"
  shows "pr_TestCases p \<noteq> [] \<and> m_Title (pr_Manifest p) \<noteq> [] \<and>
    loadTestCases fs (JoinPath [dir, ''tests'']) = Inr (pr_TestCases p) \<and>
    ReadFile fs (JoinPath [dir, ''statement.md'']) = Inr (pr_Statement p)"
  using assms by (auto simp: loadProblemFromDir_def success split: if_splits)

section \<open>Properties\<close>

text \<open>
  C13. Two outputs match exactly when they have the same lines after removing blanks, tabs and
  carriage returns at the end of every line and empty lines at the end of the text.
\<close>

theorem match_compares_lines: "Match actual expected \<longleftrightarrow> output_lines actual = output_lines expected"
  by (rule Match_lines)

text \<open>
  Normalising an output is idempotent, so matching is an equivalence on outputs.
\<close>

lemma normalize_idempotent:
  "NormalizeOutput (NormalizeOutput s) = NormalizeOutput s \<and> Match s (NormalizeOutput s)"
  by (simp add: Match_def NormalizeOutput_idem)

text \<open>
  C14. The cache of problems is transparent: while the files do not change, a problem is what loading
  its directory gives, from the cache or not, and the cache stays coherent.
\<close>

theorem problem_cache_transparent:
  assumes "cache_ok unmarshal w" and "GetByPath unmarshal a w = (r, w')"
  shows "r = wrap (''load problem '' @ a) (loadProblemFromDir unmarshal (files w) a (JoinPath [baseDir w, a])) \<and>
    cache_ok unmarshal w' \<and> files w' = files w \<and> db w' = db w"
  using GetByPath_transparent [OF assms] .

definition sample_files :: filesystem where
  "sample_files = \<lparr>f_nodes =
     [(''p'', Dir), (''p/a'', Dir), (''p/a/manifest.json'', File ''M''),
      (''p/a/statement.md'', File ''Add.''), (''p/a/tests'', Dir),
      (''p/a/tests/2.in'', File ''3''), (''p/a/tests/2.out'', File ''6''),
      (''p/a/tests/1.in'', File ''1''), (''p/a/tests/1.out'', File ''2'')], f_bad = []\<rparr>"

definition sample_unmarshal :: "string \<Rightarrow> err + Manifest" where
  "sample_unmarshal s = Inr \<lparr>m_Slug = [], m_Title = ''Two'', m_Difficulty = ''easy'', m_TimeLimitMs = 1000,
     m_MemoryLimitMb = 64\<rparr>"

definition sample_fs_world :: fs_world where
  "sample_fs_world = world.extend sample_world \<lparr>files = sample_files, baseDir = ''p'', cache = Map.empty\<rparr>"

theorem problem_cache_transparent_witness:
  "\<exists>p w'. GetByPath sample_unmarshal ''a'' sample_fs_world = (Inr p, w') \<and>
     map tc_Expected (pr_TestCases p) = [''2'', ''6''] \<and> cache_ok sample_unmarshal w'"
proof -
  have "map_sum id (\<lambda>p. map tc_Expected (pr_TestCases p))
      (loadProblemFromDir sample_unmarshal sample_files ''a'' (JoinPath [''p'', ''a''])) = Inr [''2'', ''6'']"
    by code_simp
  then obtain p where p: "loadProblemFromDir sample_unmarshal sample_files ''a''
      (JoinPath [''p'', ''a'']) = Inr p" "map tc_Expected (pr_TestCases p) = [''2'', ''6'']"
    by (auto split: sum.splits simp: map_sum_def)
  obtain r w' where run: "GetByPath sample_unmarshal ''a'' sample_fs_world = (r, w')" by fastforce
  have "cache_ok sample_unmarshal sample_fs_world"
    by (simp add: cache_ok_def sample_fs_world_def world.defs)
  from problem_cache_transparent [OF this run] p run show ?thesis
    by (auto simp: sample_fs_world_def world.defs wrap_def)
qed

end
