(* ===== verification/Execution_Service.thy ===== *)
theory Execution_Service
  imports Store Complex_Main
begin

text \<open>
  \<^verbatim>\<open>internal/service/execution_service.go\<close>: the per-user rate limiter and the per-user, per-kind
  execution slot. The token bucket of \<^verbatim>\<open>golang.org/x/time/rate\<close> is a record of functions over a
  type of limiters, the executor a function \<open>run\<close> of the number of the run and of the request.
  A slot is a Go channel of capacity one: first as its length, which is enough for one request at
  a time, then as an object on a heap, shared by the threads of an interleaving machine with the
  atomic steps of \<^verbatim>\<open>TryAcquireSlot\<close>, \<^verbatim>\<open>ReleaseSlot\<close> and \<^verbatim>\<open>runCleanup\<close>.
\<close>

section \<open>State\<close>

type_synonym Language = string

record ExecutionRequest =
  er_Code :: string
  er_Language :: Language
  er_Stdin :: string
  er_TimeLimit :: int
  er_MemoryLimit :: int

record ExecutionResult =
  xr_Stdout :: string
  xr_Stderr :: string
  xr_ExitCode :: int
  xr_TimeUsed :: int
  xr_MemoryUsed :: int
  xr_Error :: "err option"

record RateLimitConfig =
  rl_Rate :: rat
  rl_Burst :: int

record 'l limiter_api =
  NewLimiter :: "rat \<Rightarrow> int \<Rightarrow> 'l"
  Allow :: "time \<Rightarrow> 'l \<Rightarrow> bool \<times> 'l"
  Tokens :: "time \<Rightarrow> 'l \<Rightarrow> rat"

record slotKey =
  sk_userID :: uuid
  sk_kind :: string

record 'l exec_world = fs_world +
  rl :: RateLimitConfig
  limiters :: "uuid \<rightharpoonup> 'l"
  slots :: "slotKey \<rightharpoonup> nat"
  runs :: nat

type_synonym runner = "nat \<Rightarrow> ExecutionRequest \<Rightarrow> ExecutionResult \<times> err option"

section \<open>Operations\<close>

definition DefaultRateLimitConfig :: RateLimitConfig where
  "DefaultRateLimitConfig = \<lparr>rl_Rate = 1 / 5, rl_Burst = 10\<rparr>"

definition limiter :: "'l limiter_api \<Rightarrow> uuid \<Rightarrow> ('l, 'z) exec_world_scheme \<Rightarrow> 'l" where
  "limiter api userID w =
     (case limiters w userID of
        None \<Rightarrow> NewLimiter api (rl_Rate (rl w)) (rl_Burst (rl w))
      | Some l \<Rightarrow> l)"

definition CheckRateLimit :: "'l limiter_api \<Rightarrow> uuid \<Rightarrow> (('l, 'z) exec_world_scheme, err, unit) sem" where
  "CheckRateLimit api userID = (\<lambda>w.
     case Allow api (now w) (limiter api userID w) of
       (ok, l') \<Rightarrow>
         (if ok then Inr () else Inl (New ErrExecutionRateLimited ''execution rate limit exceeded''),
          w\<lparr>limiters := (limiters w)(userID \<mapsto> l')\<rparr>))"

definition runCleanup :: "'l limiter_api \<Rightarrow> ('l, 'z) exec_world_scheme \<Rightarrow> ('l, 'z) exec_world_scheme" where
  "runCleanup api w =
     (let keep = (\<lambda>u. case limiters w u of
                        None \<Rightarrow> None
                      | Some l \<Rightarrow> if of_int (rl_Burst (rl w)) \<le> Tokens api (now w) l then None else Some l)
      in w\<lparr>limiters := keep,
           slots := (\<lambda>k. case slots w k of
                           None \<Rightarrow> None
                         | Some n \<Rightarrow> if keep (sk_userID k) = None \<and> n = 0 then None else Some n)\<rparr>)"

definition Execute ::
  "runner \<Rightarrow> ExecutionRequest \<Rightarrow> ('l, 'z) exec_world_scheme \<Rightarrow>
   (ExecutionResult \<times> err option) \<times> ('l, 'z) exec_world_scheme" where
  "Execute run req w = (run (runs w) req, w\<lparr>runs := Suc (runs w)\<rparr>)"

definition slot_len :: "slotKey \<Rightarrow> ('l, 'z) exec_world_scheme \<Rightarrow> nat" where
  "slot_len k w = (case slots w k of None \<Rightarrow> 0 | Some n \<Rightarrow> n)"

definition TryAcquireSlot ::
  "uuid \<Rightarrow> string \<Rightarrow> ('l, 'z) exec_world_scheme \<Rightarrow> bool \<times> ('l, 'z) exec_world_scheme" where
  "TryAcquireSlot userID kind w =
     (let k = \<lparr>sk_userID = userID, sk_kind = kind\<rparr>; n = slot_len k w in
      if n < 1 then (True, w\<lparr>slots := (slots w)(k \<mapsto> n + 1)\<rparr>)
      else (False, w\<lparr>slots := (slots w)(k \<mapsto> n)\<rparr>))"

text \<open>A receive from an empty channel blocks for ever: the call then has no result.\<close>

definition ReleaseSlot ::
  "uuid \<Rightarrow> string \<Rightarrow> ('l, 'z) exec_world_scheme \<Rightarrow> ('l, 'z) exec_world_scheme option" where
  "ReleaseSlot userID kind w =
     (let k = \<lparr>sk_userID = userID, sk_kind = kind\<rparr> in
      case slots w k of
        None \<Rightarrow> Some w
      | Some 0 \<Rightarrow> None
      | Some (Suc n) \<Rightarrow> Some (w\<lparr>slots := (slots w)(k \<mapsto> n)\<rparr>))"

section \<open>Rate limiting with and without cleanup\<close>

text \<open>The answers of one limiter at given times, and the contract of the token bucket.\<close>

fun allow_seq :: "'l limiter_api \<Rightarrow> 'l \<Rightarrow> time list \<Rightarrow> bool list" where
  "allow_seq api l [] = []"
| "allow_seq api l (t # ts) = (case Allow api t l of (ok, l') \<Rightarrow> ok # allow_seq api l' ts)"

text \<open>
  The documented law of the package: a bucket is created full, so one that has all its tokens at
  some time answers from then on like a new one.
\<close>

definition full_like_new :: "'l limiter_api \<Rightarrow> RateLimitConfig \<Rightarrow> bool" where
  "full_like_new api c \<longleftrightarrow> (\<forall>l t ts. of_int (rl_Burst c) \<le> Tokens api t l \<longrightarrow> sorted (t # ts) \<longrightarrow>
     allow_seq api l ts = allow_seq api (NewLimiter api (rl_Rate c) (rl_Burst c)) ts)"

text \<open>A history of checks and cleanups, and the same history without the cleanups.\<close>

datatype limiter_event = Check time uuid | Cleanup time

fun event_time :: "limiter_event \<Rightarrow> time" where
  "event_time (Check t u) = t"
| "event_time (Cleanup t) = t"

fun play :: "'l limiter_api \<Rightarrow> limiter_event list \<Rightarrow> ('l, 'z) exec_world_scheme \<Rightarrow> bool list" where
  "play api [] w = []"
| "play api (Check t u # es) w =
     (case CheckRateLimit api u (w\<lparr>now := t\<rparr>) of
        (Inl _, w') \<Rightarrow> False # play api es w'
      | (Inr _, w') \<Rightarrow> True # play api es w')"
| "play api (Cleanup t # es) w = play api es (runCleanup api (w\<lparr>now := t\<rparr>))"

definition checks_of :: "uuid \<Rightarrow> limiter_event list \<Rightarrow> time list" where
  "checks_of u es = concat (map (\<lambda>e. case e of Check t v \<Rightarrow> if v = u then [t] else [] | Cleanup t \<Rightarrow> []) es)"

fun is_check :: "limiter_event \<Rightarrow> bool" where
  "is_check (Check t u) = True"
| "is_check (Cleanup t) = False"

lemma checks_of_simps [simp]:
  "checks_of u [] = []"
  "checks_of u (Check t v # es) = (if v = u then t # checks_of u es else checks_of u es)"
  "checks_of u (Cleanup t # es) = checks_of u es"
  by (simp_all add: checks_of_def)

lemma checks_of_times: "set (checks_of u es) \<subseteq> event_time ` set es"
  by (auto simp: checks_of_def split: limiter_event.splits if_splits) force

lemma sorted_checks: "sorted (map event_time es) \<Longrightarrow> sorted (checks_of u es)"
proof (induction es)
  case (Cons e es)
  then show ?case using checks_of_times [of u es] by (cases e) auto
qed simp

lemma limiter_update:
  "limiter api u (w\<lparr>limiters := (limiters w)(v \<mapsto> l)\<rparr>) = (if u = v then l else limiter api u w)"
  "limiter api u (w\<lparr>now := t\<rparr>) = limiter api u w"
  by (auto simp: limiter_def split: option.split)

lemma limiter_cleanup:
  "limiter api u (runCleanup api w) =
     (if of_int (rl_Burst (rl w)) \<le> Tokens api (now w) (limiter api u w)
      then NewLimiter api (rl_Rate (rl w)) (rl_Burst (rl w)) else limiter api u w)"
  by (auto simp: limiter_def runCleanup_def Let_def split: option.split)

lemma rl_cleanup [simp]: "rl (runCleanup api w) = rl w"
  by (simp add: runCleanup_def Let_def)

text \<open>
  The answers a user gets from two worlds agree if every user's limiter answers alike in both.
\<close>

definition alike :: "'l limiter_api \<Rightarrow> limiter_event list \<Rightarrow> ('l, 'y) exec_world_scheme \<Rightarrow>
    ('l, 'z) exec_world_scheme \<Rightarrow> bool" where
  "alike api es v w \<longleftrightarrow>
     (\<forall>u. allow_seq api (limiter api u v) (checks_of u es) = allow_seq api (limiter api u w) (checks_of u es))"

lemma play_alike:
  assumes "full_like_new api (rl v)" and "sorted (map event_time es)" and "alike api es v w"
    and "rl w = rl v"
  shows "play api es v = play api (filter is_check es) w"
  using assms
proof (induction es arbitrary: v w)
  case (Cons e es)
  show ?case
  proof (cases e)
    case (Check t u)
    obtain ok l where a: "Allow api t (limiter api u v) = (ok, l)" by fastforce
    obtain ok' l' where b: "Allow api t (limiter api u w) = (ok', l')" by fastforce
    from Cons.prems(3) have here: "allow_seq api (limiter api x v) (checks_of x (e # es)) =
        allow_seq api (limiter api x w) (checks_of x (e # es))" for x by (simp add: alike_def)
    from here [of u] a b have ok: "ok' = ok" and l: "allow_seq api l (checks_of u es) = allow_seq api l' (checks_of u es)"
      by (simp_all add: Check)
    let ?v = "w\<lparr>now := t, limiters := (limiters w)(u \<mapsto> l')\<rparr>"
    have "alike api es (v\<lparr>now := t, limiters := (limiters v)(u \<mapsto> l)\<rparr>) (w\<lparr>now := t, limiters := (limiters w)(u \<mapsto> l')\<rparr>)"
      unfolding alike_def
    proof
      fix x show "allow_seq api (limiter api x (v\<lparr>now := t, limiters := (limiters v)(u \<mapsto> l)\<rparr>)) (checks_of x es) =
          allow_seq api (limiter api x (w\<lparr>now := t, limiters := (limiters w)(u \<mapsto> l')\<rparr>)) (checks_of x es)"
        using l here [of x] by (cases "x = u") (simp_all add: limiter_def Check cong: option.case_cong)
    qed
    with Cons.IH [of "v\<lparr>now := t, limiters := (limiters v)(u \<mapsto> l)\<rparr>" ?v] Cons.prems(1,2,4)
    have "play api es (v\<lparr>now := t, limiters := (limiters v)(u \<mapsto> l)\<rparr>) = play api (filter is_check es) ?v"
      by simp
    then show ?thesis
      using a b ok by (simp add: Check CheckRateLimit_def limiter_update)
  next
    case (Cleanup t)
    have "alike api es (runCleanup api (v\<lparr>now := t\<rparr>)) w"
      unfolding alike_def
    proof
      fix x
      have sorted: "sorted (t # checks_of x es)"
        using Cons.prems(2) sorted_checks [of es x] checks_of_times [of x es] by (auto simp: Cleanup)
      have "allow_seq api (limiter api x v) (checks_of x es) = allow_seq api (limiter api x w) (checks_of x es)"
        using Cons.prems(3) by (simp add: alike_def Cleanup)
      then show "allow_seq api (limiter api x (runCleanup api (v\<lparr>now := t\<rparr>))) (checks_of x es) =
          allow_seq api (limiter api x w) (checks_of x es)"
        using Cons.prems(1) sorted by (auto simp: limiter_cleanup limiter_update full_like_new_def)
    qed
    with Cons.IH Cons.prems show ?thesis by (simp add: Cleanup)
  qed
qed simp

section \<open>Slots under concurrency\<close>

text \<open>
  Channels are objects: \<open>sm_len\<close> is the number of elements of every channel, \<open>sm_slots\<close> the map the
  service keeps, \<open>sm_next\<close> the next fresh channel. A thread has loaded the channel of a key and not
  yet tried to send, or holds the slot, or has loaded the channel from which it will receive. The
  cleanup goroutine has picked an entry of the map, or has found its channel empty and is about to
  delete the entry.
\<close>

datatype thread_pc = Idle | Loaded slotKey nat | Holding slotKey | Releasing slotKey nat

datatype cleaner_pc = Resting | Picked slotKey nat | Deleting slotKey

record slot_state =
  sm_len :: "nat \<Rightarrow> nat"
  sm_next :: nat
  sm_slots :: "slotKey \<rightharpoonup> nat"
  sm_thread :: "nat \<Rightarrow> thread_pc"
  sm_cleaner :: cleaner_pc

definition goto :: "nat \<Rightarrow> thread_pc \<Rightarrow> slot_state \<Rightarrow> slot_state" where
  "goto i pc s = s\<lparr>sm_thread := (sm_thread s)(i := pc)\<rparr>"

inductive slot_step :: "slot_state \<Rightarrow> slot_state \<Rightarrow> bool" where
  acquire_load: "sm_thread s i = Idle \<Longrightarrow> sm_slots s k = Some c \<Longrightarrow> slot_step s (goto i (Loaded k c) s)"
| acquire_store: "sm_thread s i = Idle \<Longrightarrow> sm_slots s k = None \<Longrightarrow>
    slot_step s (goto i (Loaded k (sm_next s))
      (s\<lparr>sm_slots := (sm_slots s)(k \<mapsto> sm_next s), sm_len := (sm_len s)(sm_next s := 0),
         sm_next := Suc (sm_next s)\<rparr>))"
| acquire_send: "sm_thread s i = Loaded k c \<Longrightarrow> sm_len s c < 1 \<Longrightarrow>
    slot_step s (goto i (Holding k) (s\<lparr>sm_len := (sm_len s)(c := Suc (sm_len s c))\<rparr>))"
| acquire_full: "sm_thread s i = Loaded k c \<Longrightarrow> \<not> sm_len s c < 1 \<Longrightarrow> slot_step s (goto i Idle s)"
| release_load: "sm_thread s i = Holding k \<Longrightarrow> sm_slots s k = Some c \<Longrightarrow>
    slot_step s (goto i (Releasing k c) s)"
| release_gone: "sm_thread s i = Holding k \<Longrightarrow> sm_slots s k = None \<Longrightarrow> slot_step s (goto i Idle s)"
| release_receive: "sm_thread s i = Releasing k c \<Longrightarrow> 0 < sm_len s c \<Longrightarrow>
    slot_step s (goto i Idle (s\<lparr>sm_len := (sm_len s)(c := sm_len s c - 1)\<rparr>))"

inductive cleanup_step :: "slot_state \<Rightarrow> slot_state \<Rightarrow> bool" where
  cleanup_pick: "sm_cleaner s = Resting \<Longrightarrow> sm_slots s k = Some c \<Longrightarrow>
    cleanup_step s (s\<lparr>sm_cleaner := Picked k c\<rparr>)"
| cleanup_keep: "sm_cleaner s = Picked k c \<Longrightarrow> cleanup_step s (s\<lparr>sm_cleaner := Resting\<rparr>)"
| cleanup_decide: "sm_cleaner s = Picked k c \<Longrightarrow> sm_len s c = 0 \<Longrightarrow>
    cleanup_step s (s\<lparr>sm_cleaner := Deleting k\<rparr>)"
| cleanup_delete: "sm_cleaner s = Deleting k \<Longrightarrow>
    cleanup_step s (s\<lparr>sm_slots := (sm_slots s)(k := None), sm_cleaner := Resting\<rparr>)"

inductive_cases slot_stepE: "slot_step s s'"

definition slots_initial :: slot_state where
  "slots_initial = \<lparr>sm_len = (\<lambda>_. 0), sm_next = 0, sm_slots = Map.empty, sm_thread = (\<lambda>_. Idle),
     sm_cleaner = Resting\<rparr>"

fun holds :: "slotKey \<Rightarrow> thread_pc \<Rightarrow> bool" where
  "holds k (Holding k') = (k' = k)"
| "holds k (Releasing k' c) = (k' = k)"
| "holds k _ = False"

text \<open>
  Without a cleanup in between, the channel of a key is full exactly while one thread holds it.
\<close>

definition channels_ok :: "slot_state \<Rightarrow> bool" where
  "channels_ok s \<longleftrightarrow>
     (\<forall>k c. sm_slots s k = Some c \<longrightarrow> c < sm_next s) \<and>
     (\<forall>k k' c. sm_slots s k = Some c \<longrightarrow> sm_slots s k' = Some c \<longrightarrow> k = k')"

fun thread_ok :: "slot_state \<Rightarrow> thread_pc \<Rightarrow> bool" where
  "thread_ok s Idle = True"
| "thread_ok s (Loaded k c) = (sm_slots s k = Some c)"
| "thread_ok s (Holding k) = (\<exists>c. sm_slots s k = Some c \<and> 0 < sm_len s c)"
| "thread_ok s (Releasing k c) = (sm_slots s k = Some c \<and> 0 < sm_len s c)"

definition exclusive :: "(nat \<Rightarrow> thread_pc) \<Rightarrow> bool" where
  "exclusive ts \<longleftrightarrow> (\<forall>i j k. holds k (ts i) \<longrightarrow> holds k (ts j) \<longrightarrow> i = j)"

definition slots_inv :: "slot_state \<Rightarrow> bool" where
  "slots_inv s \<longleftrightarrow> channels_ok s \<and> (\<forall>i. thread_ok s (sm_thread s i)) \<and> exclusive (sm_thread s)"

lemma slots_inv_initial: "slots_inv slots_initial"
  by (simp add: slots_inv_def slots_initial_def channels_ok_def exclusive_def)

lemma holds_full: "thread_ok s pc \<Longrightarrow> holds k pc \<Longrightarrow> \<exists>c. sm_slots s k = Some c \<and> 0 < sm_len s c"
  by (cases pc) auto

lemma exclusive_upd:
  assumes "exclusive ts" and "\<And>k j. holds k pc \<Longrightarrow> holds k (ts j) \<Longrightarrow> j = i"
  shows "exclusive (ts(i := pc))"
  using assms by (auto simp: exclusive_def)

lemma slots_invI:
  assumes "slots_inv s" and "channels_ok s'" and "thread_ok s' pc"
    and "\<And>j. j \<noteq> i \<Longrightarrow> thread_ok s' (sm_thread s j)"
    and "\<And>k j. holds k pc \<Longrightarrow> holds k (sm_thread s j) \<Longrightarrow> j = i" and "sm_thread s' = sm_thread s"
  shows "slots_inv (goto i pc s')"
proof -
  have "thread_ok (goto i pc s') q = thread_ok s' q" for q
    by (cases q) (simp_all add: goto_def)
  moreover have "channels_ok (goto i pc s') = channels_ok s'"
    by (simp add: channels_ok_def goto_def)
  ultimately show ?thesis
    using assms by (auto simp: slots_inv_def goto_def intro!: exclusive_upd)
qed

lemma thread_ok_cong:
  assumes "thread_ok s q" and "\<And>k c. sm_slots s k = Some c \<Longrightarrow> sm_slots s' k = Some c"
    and "\<And>k c. holds k q \<Longrightarrow> sm_slots s k = Some c \<Longrightarrow> 0 < sm_len s c \<Longrightarrow> 0 < sm_len s' c"
  shows "thread_ok s' q"
  using assms by (cases q) auto

lemma slots_invD:
  assumes "slots_inv s"
  shows "channels_ok s" and "thread_ok s (sm_thread s j)"
    and "holds k (sm_thread s i) \<Longrightarrow> holds k (sm_thread s j) \<Longrightarrow> i = j"
  using assms by (auto simp: slots_inv_def exclusive_def)

lemma channels_okD:
  assumes "channels_ok s" and "sm_slots s k = Some c"
  shows "c < sm_next s" and "sm_slots s k' = Some c \<Longrightarrow> k' = k"
  using assms by (auto simp: channels_ok_def)

lemma slots_inv_step: "slot_step s s' \<Longrightarrow> slots_inv s \<Longrightarrow> slots_inv s'"
proof (induction rule: slot_step.induct)
  case (acquire_load s i k c)
  then show ?case by (intro slots_invI [of s]) (simp_all add: slots_invD)
next
  case (acquire_store s i k)
  note D = slots_invD(1,2) [OF acquire_store(3)] and C = channels_okD [OF slots_invD(1) [OF acquire_store(3)]]
  let ?s = "s\<lparr>sm_slots := (sm_slots s)(k \<mapsto> sm_next s), sm_len := (sm_len s)(sm_next s := 0),
    sm_next := Suc (sm_next s)\<rparr>"
  have "thread_ok ?s (sm_thread s j)" for j
    by (rule thread_ok_cong [OF D(2)]) (use acquire_store(2) C(1) in \<open>fastforce+\<close>)
  moreover have "channels_ok ?s"
    unfolding channels_ok_def using acquire_store(2) C by (auto simp: less_Suc_eq)
  ultimately show ?case by (intro slots_invI [OF acquire_store(3)]) auto
next
  case (acquire_send s i k c)
  note D = slots_invD(1,2) [OF acquire_send(3)]
  let ?s = "s\<lparr>sm_len := (sm_len s)(c := Suc (sm_len s c))\<rparr>"
  have c: "sm_slots s k = Some c" using acquire_send(1) D(2) by (metis thread_ok.simps(2))
  then have "\<not> holds k (sm_thread s j)" for j
    using holds_full [OF D(2), of k] acquire_send(2) by fastforce
  moreover have "thread_ok ?s (sm_thread s j)" for j
    by (rule thread_ok_cong [OF D(2)]) auto
  moreover have "channels_ok ?s" using D(1) by (simp add: channels_ok_def)
  ultimately show ?case using c by (intro slots_invI [OF acquire_send(3)]) auto
next
  case (acquire_full s i k c)
  then show ?case by (intro slots_invI [of s]) (simp_all add: slots_invD)
next
  case (release_load s i k c)
  then have "thread_ok s (Releasing k c)"
    using slots_invD(2) [OF release_load(3), of i] by auto
  then show ?case
    using slots_invD(3) [OF release_load(3), of _ _ i] release_load
    by (intro slots_invI [of s]) (auto simp: slots_invD(1,2))
next
  case (release_gone s i k)
  then show ?case by (intro slots_invI [of s]) (simp_all add: slots_invD)
next
  case (release_receive s i k c)
  note D = slots_invD [OF release_receive(3)]
  let ?s = "s\<lparr>sm_len := (sm_len s)(c := sm_len s c - 1)\<rparr>"
  have c: "sm_slots s k = Some c" using release_receive(1) D(2) by (metis thread_ok.simps(4))
  have "thread_ok ?s (sm_thread s j)" if "j \<noteq> i" for j
  proof (rule thread_ok_cong [OF D(2)])
    fix k' c' assume k': "holds k' (sm_thread s j)" "sm_slots s k' = Some c'" "0 < sm_len s c'"
    have "k' \<noteq> k" using D(3) [of k i j] k'(1) release_receive(1) that by auto
    with c k' channels_okD(2) [OF D(1)] show "0 < sm_len ?s c'" by (cases "c' = c") auto
  qed auto
  moreover have "channels_ok ?s" using D(1) by (simp add: channels_ok_def)
  ultimately show ?case by (intro slots_invI [OF release_receive(3)]) auto
qed

section \<open>A token bucket\<close>

text \<open>
  An instance of the limiter interface: \<open>None\<close> is a bucket that was never used, \<open>Some (n, t)\<close> one
  that had \<open>n\<close> tokens at time \<open>t\<close>, when it was last asked.
\<close>

definition bucket_tokens :: "rat \<Rightarrow> int \<Rightarrow> time \<Rightarrow> (rat \<times> time) option \<Rightarrow> rat" where
  "bucket_tokens r b t l =
     (case l of None \<Rightarrow> of_int b | Some (n, t0) \<Rightarrow> min (of_int b) (n + of_int (t - t0) * r))"

definition bucket_api :: "rat \<Rightarrow> int \<Rightarrow> (rat \<times> time) option limiter_api" where
  "bucket_api r b =
     \<lparr>NewLimiter = (\<lambda>_ _. None),
      Allow = (\<lambda>t l. let n = bucket_tokens r b t l in
                 if 1 \<le> n then (True, Some (n - 1, t)) else (False, l)),
      Tokens = bucket_tokens r b\<rparr>"

lemma bucket_full_later:
  assumes "0 \<le> r" and "of_int b \<le> bucket_tokens r b t l" and "t \<le> t'"
  shows "bucket_tokens r b t' l = of_int b"
proof (cases l)
  case (Some nt)
  obtain n t0 where nt: "nt = (n, t0)" by fastforce
  from assms(2) have "of_int b \<le> n + of_int (t - t0) * r" by (simp add: bucket_tokens_def Some nt)
  also have "\<dots> \<le> n + of_int (t' - t0) * r"
    using assms(1,3) by (intro add_left_mono mult_right_mono) auto
  finally show ?thesis by (simp add: bucket_tokens_def Some nt min_def)
qed (simp add: bucket_tokens_def)

lemma bucket_full_like_new:
  assumes "0 \<le> r"
  shows "full_like_new (bucket_api r b) \<lparr>rl_Rate = r, rl_Burst = b\<rparr>"
proof -
  have "allow_seq (bucket_api r b) l ts = allow_seq (bucket_api r b) None ts"
    if "of_int b \<le> bucket_tokens r b t l" "sorted (t # ts)" for l t ts
    using that
  proof (induction ts arbitrary: t)
    case (Cons u ts)
    then have "bucket_tokens r b u l = of_int b" by (auto intro: bucket_full_later [OF assms])
    moreover have "bucket_tokens r b u None = of_int b" by (simp add: bucket_tokens_def)
    ultimately show ?case
      using Cons.IH [of u] Cons.prems by (simp add: bucket_api_def Let_def)
  qed simp
  then show ?thesis by (simp add: full_like_new_def bucket_api_def)
qed

definition sample_exec_world :: "(rat \<times> time) option exec_world" where
  "sample_exec_world = fs_world.extend sample_fs_world
     \<lparr>rl = \<lparr>rl_Rate = 1 / 5, rl_Burst = 1\<rparr>, limiters = Map.empty, slots = Map.empty, runs = 0\<rparr>"

section \<open>Properties\<close>

text \<open>
  Dropping idle limiters is invisible: in any history of checks and cleanups, every user gets
  the answers of the same history without the cleanups, for any limiter in which a full bucket
  answers like a new one.
\<close>

lemma cleanup_invisible:
  assumes "full_like_new api (rl w)" and "sorted (map event_time es)"
  shows "play api es w = play api (filter is_check es) w"
  using play_alike [OF assms, of w] by (simp add: alike_def)

text \<open>
  C18. While no cleanup runs, any number of concurrent requests respect the slots: from the empty
  service, in every interleaving, at most one thread at a time holds the slot of a user and kind,
  and a thread that releases its slot is never blocked.
\<close>

theorem slot_exclusive:
  assumes "slot_step\<^sup>*\<^sup>* slots_initial s"
  shows "exclusive (sm_thread s) \<and> (\<forall>i k c. sm_thread s i = Releasing k c \<longrightarrow> 0 < sm_len s c)"
proof -
  from assms have "slots_inv s"
    by (induction rule: rtranclp_induct) (auto simp: slots_inv_initial slots_inv_step)
  then show ?thesis
    by (auto simp: slots_inv_def) (metis thread_ok.simps(4))
qed

definition sample_key :: slotKey where
  "sample_key = \<lparr>sk_userID = 1, sk_kind = ''submit''\<rparr>"

text \<open>The states of the run in which a cleanup overlaps an acquisition.\<close>

definition race :: "nat \<Rightarrow> slot_state" where
  "race n =
     (let k = sample_key; st = (\<lambda>len nxt sl a b cl. \<lparr>sm_len = len, sm_next = nxt, sm_slots = sl,
            sm_thread = (\<lambda>_. Idle)(1 := a, 2 := b), sm_cleaner = cl\<rparr>);
          zero = (\<lambda>_. 0); kept = [k \<mapsto> 0]; renewed = [k \<mapsto> 1] in
      if n = 0 then slots_initial
      else if n = 1 then st zero 1 kept (Loaded k 0) Idle Resting
      else if n = 2 then st zero 1 kept (Loaded k 0) Idle (Picked k 0)
      else if n = 3 then st zero 1 kept (Loaded k 0) Idle (Deleting k)
      else if n = 4 then st (zero(0 := 1)) 1 kept (Holding k) Idle (Deleting k)
      else if n = 5 then st (zero(0 := 1)) 1 Map.empty (Holding k) Idle Resting
      else if n = 6 then st (zero(0 := 1)) 2 renewed (Holding k) (Loaded k 1) Resting
      else if n = 7 then st (zero(0 := 1, 1 := 1)) 2 renewed (Holding k) (Holding k) Resting
      else if n = 8 then st (zero(0 := 1, 1 := 1)) 2 renewed (Releasing k 1) (Holding k) Resting
      else if n = 9 then st (zero(0 := 1)) 2 renewed Idle (Holding k) Resting
      else st (zero(0 := 1)) 2 renewed Idle (Releasing k 1) Resting)"

lemma to_slot_state: "slot_step s t \<Longrightarrow> t = u \<Longrightarrow> slot_step s u"
  by simp

lemma to_cleanup_state: "cleanup_step s t \<Longrightarrow> t = u \<Longrightarrow> cleanup_step s u"
  by simp

lemma race_steps:
  "slot_step (race 0) (race 1)" "cleanup_step (race 1) (race 2)" "cleanup_step (race 2) (race 3)"
  "slot_step (race 3) (race 4)" "cleanup_step (race 4) (race 5)" "slot_step (race 5) (race 6)"
  "slot_step (race 6) (race 7)" "slot_step (race 7) (race 8)" "slot_step (race 8) (race 9)"
  "slot_step (race 9) (race 10)"
proof -
  note defs = race_def slots_initial_def goto_def Let_def fun_eq_iff
  show "slot_step (race 0) (race 1)"
    by (rule to_slot_state [OF acquire_store [of "race 0" 1 sample_key]]) (auto simp: defs)
  show "cleanup_step (race 1) (race 2)"
    by (rule to_cleanup_state [OF cleanup_pick [of "race 1" sample_key 0]]) (auto simp: defs)
  show "cleanup_step (race 2) (race 3)"
    by (rule to_cleanup_state [OF cleanup_decide [of "race 2" sample_key 0]]) (auto simp: defs)
  show "slot_step (race 3) (race 4)"
    by (rule to_slot_state [OF acquire_send [of "race 3" 1 sample_key 0]]) (auto simp: defs)
  show "cleanup_step (race 4) (race 5)"
    by (rule to_cleanup_state [OF cleanup_delete [of "race 4" sample_key]]) (auto simp: defs)
  show "slot_step (race 5) (race 6)"
    by (rule to_slot_state [OF acquire_store [of "race 5" 2 sample_key]]) (auto simp: defs)
  show "slot_step (race 6) (race 7)"
    by (rule to_slot_state [OF acquire_send [of "race 6" 2 sample_key 1]]) (auto simp: defs)
  show "slot_step (race 7) (race 8)"
    by (rule to_slot_state [OF release_load [of "race 7" 1 sample_key 1]]) (auto simp: defs)
  show "slot_step (race 8) (race 9)"
    by (rule to_slot_state [OF release_receive [of "race 8" 1 sample_key 1]]) (auto simp: defs)
  show "slot_step (race 9) (race 10)"
    by (rule to_slot_state [OF release_load [of "race 9" 2 sample_key 1]]) (auto simp: defs)
qed


theorem slot_exclusive_witness:
  "\<exists>s. slot_step\<^sup>*\<^sup>* slots_initial s \<and> sm_thread s 1 = Holding sample_key \<and> exclusive (sm_thread s)"
proof -
  let ?s = "goto 1 (Holding sample_key) ((race 1)\<lparr>sm_len := (sm_len (race 1))(0 := Suc (sm_len (race 1) 0))\<rparr>)"
  have "slot_step slots_initial (race 1)" using race_steps(1) by (simp add: race_def)
  moreover have "slot_step (race 1) ?s" by (rule acquire_send) (simp_all add: race_def Let_def)
  ultimately have run: "slot_step\<^sup>*\<^sup>* slots_initial ?s" by (rule converse_rtranclp_into_rtranclp [OF _ r_into_rtranclp])
  moreover have "sm_thread ?s 1 = Holding sample_key" by (simp add: goto_def)
  ultimately show ?thesis using slot_exclusive [OF run] by blast
qed

text \<open>
  A cleanup that overlaps an acquisition breaks the slots: there is an interleaving in which two
  requests of one user hold the same slot at once, and which continues so that the second one
  blocks for ever when it releases (its channel is empty and no other thread is active).
\<close>

lemma cleanup_race:
  "\<exists>s s'. (\<lambda>a b. slot_step a b \<or> cleanup_step a b)\<^sup>*\<^sup>* slots_initial s \<and>
     (\<lambda>a b. slot_step a b \<or> cleanup_step a b)\<^sup>*\<^sup>* s s' \<and>
     sm_thread s 1 = Holding sample_key \<and> sm_thread s 2 = Holding sample_key \<and>
     (\<exists>c. sm_thread s' = (\<lambda>_. Idle)(2 := Releasing sample_key c) \<and> sm_len s' c = 0)"
proof -
  let ?R = "\<lambda>a b. slot_step a b \<or> cleanup_step a b"
  note run = converse_rtranclp_into_rtranclp [of ?R]
  have "?R\<^sup>*\<^sup>* (race 0) (race 7)"
    by (intro run [OF disjI1 [OF race_steps(1)]] run [OF disjI2 [OF race_steps(2)]]
        run [OF disjI2 [OF race_steps(3)]] run [OF disjI1 [OF race_steps(4)]]
        run [OF disjI2 [OF race_steps(5)]] run [OF disjI1 [OF race_steps(6)]]
        run [OF disjI1 [OF race_steps(7)]] rtranclp.rtrancl_refl)
  moreover have "?R\<^sup>*\<^sup>* (race 7) (race 10)"
    by (intro run [OF disjI1 [OF race_steps(8)]] run [OF disjI1 [OF race_steps(9)]]
        run [OF disjI1 [OF race_steps(10)]] rtranclp.rtrancl_refl)
  moreover have "race 0 = slots_initial" by (simp add: race_def)
  moreover have "sm_thread (race 7) 1 = Holding sample_key" "sm_thread (race 7) 2 = Holding sample_key"
    "sm_len (race 10) 1 = 0" by (simp_all add: race_def Let_def)
  moreover have "sm_thread (race 10) = (\<lambda>_. Idle)(2 := Releasing sample_key 1)"
    by (simp add: race_def Let_def fun_eq_iff)
  ultimately show ?thesis by (intro exI [of _ "race 7"] exI [of _ "race 10"]) auto
qed

end
