(* ===== verification/Submission_Service.thy ===== *)
theory Submission_Service
  imports Execution_Service Game_Props
begin

text \<open>
  \<^verbatim>\<open>internal/service/submission_service.go\<close>: judging a program against the current problem of a
  player and moving the player on. \<^verbatim>\<open>Submit\<close> takes the player's slot, asks the limiter, finds the
  problem, runs every test until one fails, stores the solution and calls the game service; the
  deferred release runs on every path. The executor is the argument \<open>run\<close>, JSON decoding the
  argument \<open>unmarshal\<close>, the token bucket the argument \<open>api\<close>.
\<close>

section \<open>The service\<close>

record SubmissionResult =
  sr_Accepted :: bool
  sr_AlreadyAdvanced :: bool
  sr_FailedTest :: "nat option"
  sr_Stdout :: string
  sr_Stderr :: string
  sr_WinnerID :: uuid
  sr_ProblemID :: string
  sr_ProblemIdx :: int

definition empty_result :: SubmissionResult where
  "empty_result = \<lparr>sr_Accepted = False, sr_AlreadyAdvanced = False, sr_FailedTest = None, sr_Stdout = '''',
     sr_Stderr = '''', sr_WinnerID = 0, sr_ProblemID = '''', sr_ProblemIdx = 0\<rparr>"

record activeProblem =
  ap_problem :: Problem
  ap_versionID :: int

record executionOutcome =
  eo_accepted :: bool
  eo_failedTest :: "nat option"
  eo_stdout :: string
  eo_stderr :: string

definition getCurrentProblemForSubmission ::
  "(string \<Rightarrow> err + Manifest) \<Rightarrow> int \<Rightarrow> uuid \<Rightarrow> ('z fs_world_scheme, err, activeProblem) sem" where
  "getCurrentProblemForSubmission unmarshal gameID userID =
     bindE (mapErr (ErrWrap ''get game'') (GetGame gameID)) (\<lambda>game.
     if g_Status game \<noteq> Active then throw (New ErrGameNotInProgress ''game is not in progress'')
     else
       bindE (mapErr (ErrWrap ''get participant problem index'')
                (GetParticipantProblemIndex gameID userID)) (\<lambda>playerIdx.
       bindE (mapErr (ErrWrap ''get game problem by index'')
                (GetGameProblemByIndex (int32 gameID) playerIdx)) (\<lambda>(problemID, versionID, artifactPath).
       bindE (mapErr (ErrWrap ''get problem'') (GetByPath unmarshal artifactPath)) (\<lambda>problem.
       ret \<lparr>ap_problem = problem, ap_versionID = versionID\<rparr>))))"

definition test_request :: "string \<Rightarrow> Language \<Rightarrow> TestCase \<Rightarrow> ExecutionRequest" where
  "test_request code language tc =
     \<lparr>er_Code = code, er_Language = language, er_Stdin = tc_Input tc, er_TimeLimit = 0, er_MemoryLimit = 0\<rparr>"

fun testLoop ::
  "runner \<Rightarrow> string \<Rightarrow> Language \<Rightarrow> nat \<Rightarrow> TestCase list \<Rightarrow> executionOutcome \<Rightarrow>
   ('l, 'z) exec_world_scheme \<Rightarrow> executionOutcome \<times> ('l, 'z) exec_world_scheme" where
  "testLoop run code language i [] outcome w = (outcome, w)"
| "testLoop run code language i (tc # tcs) outcome w =
     (case Execute run (test_request code language tc) w of
        ((result, execErr), w') \<Rightarrow>
          (let outcome = outcome\<lparr>eo_stdout := xr_Stdout result, eo_stderr := xr_Stderr result\<rparr> in
           if execErr \<noteq> None \<or> \<not> Match (xr_Stdout result) (tc_Expected tc)
           then (outcome\<lparr>eo_accepted := False, eo_failedTest := Some i\<rparr>, w')
           else testLoop run code language (Suc i) tcs outcome w'))"

definition executeAgainstProblem ::
  "runner \<Rightarrow> Problem \<Rightarrow> string \<Rightarrow> Language \<Rightarrow> ('l, 'z) exec_world_scheme \<Rightarrow>
   executionOutcome \<times> ('l, 'z) exec_world_scheme" where
  "executeAgainstProblem run problem code language w =
     testLoop run code language 0 (pr_TestCases problem)
       \<lparr>eo_accepted = True, eo_failedTest = None, eo_stdout = '''', eo_stderr = ''''\<rparr> w"

definition completeAcceptedSubmission :: "int \<Rightarrow> uuid \<Rightarrow> ('z, SubmissionResult) op" where
  "completeAcceptedSubmission gameID userID =
     tryE (HandleAcceptedSubmission gameID userID) (\<lambda>r. case r of
       Inl err \<Rightarrow>
         if errors_is err ErrGameAlreadyFinished
         then ret (empty_result\<lparr>sr_Accepted := True, sr_AlreadyAdvanced := True\<rparr>)
         else throw (ErrWrap ''complete game'' err)
     | Inr (updatedGame, finished) \<Rightarrow>
         if finished
         then ret (empty_result\<lparr>sr_Accepted := True,
                sr_WinnerID := (case g_WinnerID updatedGame of None \<Rightarrow> 0 | Some u \<Rightarrow> u)\<rparr>)
         else
           bindE (mapErr (ErrWrap ''get participant problem index'')
                    (GetParticipantProblemIndex gameID userID)) (\<lambda>playerIdx.
           bindE (mapErr (ErrWrap ''get next problem'')
                    (GetGameProblemIDByIndex (int32 gameID) playerIdx)) (\<lambda>nextProblemID.
           ret (empty_result\<lparr>sr_Accepted := True, sr_ProblemID := nextProblemID, sr_ProblemIdx := playerIdx\<rparr>))))"

text \<open>The body of \<^verbatim>\<open>Submit\<close> between taking the slot and the deferred release.\<close>

definition submitBody ::
  "'l limiter_api \<Rightarrow> (string \<Rightarrow> err + Manifest) \<Rightarrow> runner \<Rightarrow> int \<Rightarrow> uuid \<Rightarrow> string \<Rightarrow> Language \<Rightarrow>
   (('l, 'z) exec_world_scheme, err, SubmissionResult) sem" where
  "submitBody api unmarshal run gameID userID code language =
     bindE (CheckRateLimit api userID) (\<lambda>_.
     bindE (getCurrentProblemForSubmission unmarshal gameID userID) (\<lambda>ap.
     (\<lambda>w. case executeAgainstProblem run (ap_problem ap) code language w of (outcome, w') \<Rightarrow>
        (if \<not> eo_accepted outcome
         then ret (empty_result\<lparr>sr_FailedTest := eo_failedTest outcome, sr_Stdout := eo_stdout outcome,
                sr_Stderr := eo_stderr outcome\<rparr>)
         else tryE (qInsertSolution userID (pr_Slug (ap_problem ap)) (ap_versionID ap)
                      (Some (int32 gameID)) code language)
                (\<lambda>_. completeAcceptedSubmission gameID userID)) w')))"

definition Submit ::
  "'l limiter_api \<Rightarrow> (string \<Rightarrow> err + Manifest) \<Rightarrow> runner \<Rightarrow> int \<Rightarrow> uuid \<Rightarrow> string \<Rightarrow> Language \<Rightarrow>
   ('l, 'z) exec_world_scheme \<Rightarrow> ((err + SubmissionResult) \<times> ('l, 'z) exec_world_scheme) option" where
  "Submit api unmarshal run gameID userID code language w =
     (case TryAcquireSlot userID ''submit'' w of
        (False, w1) \<Rightarrow> Some (Inl (New ErrExecutionInProgress ''execution already in progress''), w1)
      | (True, w1) \<Rightarrow>
          (case submitBody api unmarshal run gameID userID code language w1 of
             (r, w2) \<Rightarrow> map_option (\<lambda>w3. (r, w3)) (ReleaseSlot userID ''submit'' w2)))"

section \<open>What the steps leave alone\<close>

abbreviation slots_are :: "(slotKey \<rightharpoonup> nat) \<Rightarrow> ('l, 'z) exec_world_scheme \<Rightarrow> bool" where
  "slots_are s w \<equiv> slots w = s"

lemma stable_slots: "stable (slots_are s)"
  by (simp add: stable_def)

lemmas keeps_slots [keeps_intro] = keeps_stable [OF stable_slots] keeps_stable_in_tx [OF stable_slots]

lemma testLoop_frame:
  "testLoop run code lang i tcs out w = (out', w') \<Longrightarrow> \<exists>n. w' = w\<lparr>runs := n\<rparr>"
proof (induction tcs arbitrary: i out w)
  case Nil
  then have "w' = w\<lparr>runs := runs w\<rparr>" by simp
  then show ?case by blast
next
  case (Cons tc tcs)
  show ?case
  proof (cases "\<exists>i' o'. testLoop run code lang i' tcs o' (w\<lparr>runs := Suc (runs w)\<rparr>) = (out', w')")
    case True
    with Cons.IH show ?thesis by fastforce
  next
    case False
    with Cons.prems have "w' = w\<lparr>runs := Suc (runs w)\<rparr>"
      by (auto simp: Execute_def Let_def split: prod.splits if_splits)
    then show ?thesis by blast
  qed
qed

lemma keeps_slots_GetByPath [keeps_intro]: "keeps (slots_are s) (GetByPath unmarshal a)"
  by (auto simp: keeps_def GetByPath_def split: option.split sum.split)

lemma keeps_slots_CheckRateLimit [keeps_intro]: "keeps (slots_are s) (CheckRateLimit api u)"
  by (auto simp: keeps_def CheckRateLimit_def split: prod.split)

lemma keeps_slots_current [keeps_intro]:
  "keeps (slots_are s) (getCurrentProblemForSubmission unmarshal gid u)"
  unfolding getCurrentProblemForSubmission_def GetGame_def GetParticipantProblemIndex_def
    GetGameProblemByIndex_def qGetGameByID_def qGetParticipantProblemIndex_def qGetGameProblemByIndex_def
  by (intro keeps_intro)

lemma keeps_slots_complete [keeps_intro]: "keeps (slots_are s) (completeAcceptedSubmission gid u)"
  unfolding completeAcceptedSubmission_def HandleAcceptedSubmission_def GetParticipantProblemIndex_def
    GetGameProblemIDByIndex_def getGameForUpdate_def qAdvanceParticipantProblem_def qCountGameProblems_def
    qGetGameByID_def qGetGameForUpdate_def qCompleteGame_def qGetParticipantProblemIndex_def
    qGetGameProblemIDByIndex_def Let_def
  by (intro keeps_intro)

lemma keeps_slots_body: "keeps (slots_are s) (submitBody api unmarshal run gid u code lang)"
proof -
  have judged: "keeps (slots_are s) (\<lambda>w. case executeAgainstProblem run p code lang w of (out, w') \<Rightarrow> k out w')"
    if "\<And>out. keeps (slots_are s) (k out)" for p k
    using that testLoop_frame
    by (fastforce simp: keeps_def executeAgainstProblem_def split: prod.split)
  show ?thesis
    unfolding submitBody_def qInsertSolution_def
    by (intro keeps_intro judged)
qed

lemma Submit_run:
  fixes w :: "('l, 'z) exec_world_scheme"
  defines "k u \<equiv> \<lparr>sk_userID = u, sk_kind = ''submit''\<rparr>"
  shows "Submit api unmarshal run gid u code lang w =
    (if 1 \<le> slot_len (k u) w
     then Some (Inl (New ErrExecutionInProgress ''execution already in progress''),
            w\<lparr>slots := (slots w)(k u \<mapsto> slot_len (k u) w)\<rparr>)
     else (case submitBody api unmarshal run gid u code lang (w\<lparr>slots := (slots w)(k u \<mapsto> 1)\<rparr>) of
             (r, w') \<Rightarrow> Some (r, w'\<lparr>slots := (slots w)(k u \<mapsto> 0)\<rparr>)))"
proof (cases "1 \<le> slot_len (k u) w")
  case True
  then show ?thesis by (simp add: Submit_def TryAcquireSlot_def k_def Let_def)
next
  case False
  obtain r w' where body: "submitBody api unmarshal run gid u code lang (w\<lparr>slots := (slots w)(k u \<mapsto> 1)\<rparr>) = (r, w')"
    by fastforce
  have "slots w' = (slots w)(k u \<mapsto> 1)"
    using keepsD [OF keeps_slots_body _ body] by simp
  moreover have "slot_len (k u) w = 0" using False by simp
  ultimately show ?thesis using body
    by (simp add: Submit_def TryAcquireSlot_def ReleaseSlot_def k_def Let_def)
qed

lemma Submit_cases:
  assumes "Submit api unmarshal run gid u code lang w = Some (r, w')"
  obtains (busy) s where "r = Inl (New ErrExecutionInProgress ''execution already in progress'')" "w' = w\<lparr>slots := s\<rparr>"
  | (free) w2 s t where "submitBody api unmarshal run gid u code lang (w\<lparr>slots := s\<rparr>) = (r, w2)" "w' = w2\<lparr>slots := t\<rparr>"
  using assms that by (auto simp: Submit_run split: if_splits prod.splits)

lemma Submit_total:
  "\<exists>r w'. Submit api unmarshal run gid u code lang w = Some (r, w') \<and> (\<forall>k. slot_len k w' = slot_len k w)"
proof -
  obtain r w' where body: "submitBody api unmarshal run gid u code lang
      (w\<lparr>slots := (slots w)(\<lparr>sk_userID = u, sk_kind = ''submit''\<rparr> \<mapsto> 1)\<rparr>) = (r, w')"
    by fastforce
  show ?thesis unfolding Submit_run body by (auto simp: slot_len_def split: option.splits)
qed

section \<open>The verdict\<close>

definition passes :: "runner \<Rightarrow> string \<Rightarrow> Language \<Rightarrow> nat \<Rightarrow> TestCase \<Rightarrow> bool" where
  "passes run code lang n tc \<longleftrightarrow>
     (case run n (test_request code lang tc) of (result, execErr) \<Rightarrow>
        execErr = None \<and> Match (xr_Stdout result) (tc_Expected tc))"

fun first_failing :: "runner \<Rightarrow> string \<Rightarrow> Language \<Rightarrow> nat \<Rightarrow> TestCase list \<Rightarrow> nat option" where
  "first_failing run code lang n [] = None"
| "first_failing run code lang n (tc # tcs) =
     (if passes run code lang n tc then map_option Suc (first_failing run code lang (Suc n) tcs) else Some 0)"

lemma first_failing_None:
  "first_failing run code lang n tcs = None \<longleftrightarrow> (\<forall>i < length tcs. passes run code lang (n + i) (tcs ! i))"
proof (induction tcs arbitrary: n)
  case (Cons tc tcs)
  have "(\<forall>i < length (tc # tcs). passes run code lang (n + i) ((tc # tcs) ! i)) \<longleftrightarrow>
      passes run code lang n tc \<and> (\<forall>i < length tcs. passes run code lang (Suc n + i) (tcs ! i))"
    by (auto simp: less_Suc_eq_0_disj)
  with Cons.IH [of "Suc n"] show ?case by simp
qed simp

lemma first_failing_Some:
  "first_failing run code lang n tcs = Some j \<Longrightarrow> j < length tcs \<and> \<not> passes run code lang (n + j) (tcs ! j) \<and>
     (\<forall>i < j. passes run code lang (n + i) (tcs ! i))"
proof (induction tcs arbitrary: n j)
  case (Cons tc tcs)
  show ?case
  proof (cases "passes run code lang n tc")
    case True
    with Cons.prems obtain j' where "first_failing run code lang (Suc n) tcs = Some j'" "j = Suc j'" by auto
    with Cons.IH True show ?thesis by (fastforce simp: less_Suc_eq_0_disj)
  qed (use Cons.prems in auto)
qed simp

lemma testLoop_verdict:
  assumes "testLoop run code lang i tcs out w = (out', w')" and "eo_accepted out" and "eo_failedTest out = None"
  shows "eo_failedTest out' = map_option (\<lambda>j. i + j) (first_failing run code lang (runs w) tcs) \<and>
    (eo_accepted out' \<longleftrightarrow> eo_failedTest out' = None)"
  using assms
proof (induction tcs arbitrary: i out w)
  case (Cons tc tcs)
  obtain res e where r: "run (runs w) (test_request code lang tc) = (res, e)" by fastforce
  show ?case
  proof (cases "passes run code lang (runs w) tc")
    case True
    with r have ok: "e = None" "Match (xr_Stdout res) (tc_Expected tc)" by (simp_all add: passes_def)
    with Cons.prems r have "testLoop run code lang (Suc i) tcs
        (out\<lparr>eo_stdout := xr_Stdout res, eo_stderr := xr_Stderr res\<rparr>) (w\<lparr>runs := Suc (runs w)\<rparr>) = (out', w')"
      by (simp add: Execute_def Let_def)
    from Cons.IH [OF this] Cons.prems(2,3) True show ?thesis
      by (simp add: option.map_comp comp_def)
  next
    case False
    with Cons.prems r show ?thesis by (auto simp: Execute_def Let_def passes_def)
  qed
qed simp

section \<open>What a submission does to the tables\<close>

lemma keeps_db_CheckRateLimit [keeps_intro]: "keeps_db I (CheckRateLimit api u)"
  by (auto simp: keeps_def CheckRateLimit_def split: prod.split)

lemma keeps_db_current [keeps_intro]: "keeps_db I (getCurrentProblemForSubmission unmarshal gid u)"
  unfolding getCurrentProblemForSubmission_def GetGame_def GetParticipantProblemIndex_def
    GetGameProblemByIndex_def qGetGameByID_def qGetParticipantProblemIndex_def qGetGameProblemByIndex_def
  by (intro keeps_intro)

text \<open>
  Whatever a predicate says about the tables, if it is insensitive to the stored solutions and the
  game service keeps it when it handles an accepted submission, a submission keeps it.
\<close>

lemma Submit_keeps:
  fixes w :: "('l, 'z) exec_world_scheme"
  assumes solutions: "\<And>d s. I d \<Longrightarrow> I (d\<lparr>d_solutions := s\<rparr>)"
    and handle: "keeps_db I (HandleAcceptedSubmission gid u :: ('l, 'z) exec_world_scheme \<Rightarrow> _)"
    and run: "Submit api unmarshal run gid u code lang w = Some (r, w')" and I: "I (db w)"
  shows "I (db w')"
proof -
  have insert: "keeps_db I (qInsertSolution u s v (Some (int32 gid)) code lang)" for s v
    unfolding qInsertSolution_def
    by (rule keeps_inserts) (auto simp: Let_def solutions split: if_splits)
  have judged: "keeps_db I (\<lambda>w. case executeAgainstProblem run p code lang w of (out, w') \<Rightarrow> k out w')"
    if "\<And>out. keeps_db I (k out)" for p k
    using that testLoop_frame
    by (fastforce simp: keeps_def executeAgainstProblem_def split: prod.split)
  have complete: "keeps_db I (completeAcceptedSubmission gid u :: ('l, 'z) exec_world_scheme \<Rightarrow> _)"
    unfolding completeAcceptedSubmission_def GetParticipantProblemIndex_def GetGameProblemIDByIndex_def
      qGetParticipantProblemIndex_def qGetGameProblemIDByIndex_def
    by (intro keeps_intro handle)
  have "keeps_db I (submitBody api unmarshal run gid u code lang :: ('l, 'z) exec_world_scheme \<Rightarrow> _)"
    unfolding submitBody_def by (intro keeps_intro judged insert complete)
  note body = keepsD [OF this]
  from run show ?thesis
  proof (cases rule: Submit_cases)
    case (free w2 s t)
    with body [OF _ free(1)] I show ?thesis by simp
  qed (simp add: I)
qed

lemma games_inv_solutions [simp]: "games_inv (d\<lparr>d_solutions := s\<rparr>) = games_inv d"
  by (simp add: games_inv_def keys_ok_def refs_ok_def lobbies_ok_def players_def problem_indices_def
      game_exists_def user_exists_def version_exists_def)

lemma queries_solutions [simp]:
  "find_game i (d\<lparr>d_solutions := s\<rparr>) = find_game i d"
  "find_participant i u (d\<lparr>d_solutions := s\<rparr>) = find_participant i u d"
  "find_game_problem i n (d\<lparr>d_solutions := s\<rparr>) = find_game_problem i n d"
  "problem_indices i (d\<lparr>d_solutions := s\<rparr>) = problem_indices i d"
  "progress i (d\<lparr>d_solutions := s\<rparr>) = progress i d"
  by (simp_all add: find_game_def find_participant_def find_game_problem_def problem_indices_def progress_def)

lemma current_problem_Inr:
  assumes "getCurrentProblemForSubmission unmarshal gid u w = (Inr ap, w')" and "cache_ok unmarshal w"
  shows "\<exists>g p q v. find_game (int32 gid) (db w) = Some g \<and> g_Status g = Active \<and>
    find_participant (int32 gid) u (db w) = Some p \<and>
    find_game_problem (int32 gid) (gp_CurrentProblemIndex p) (db w) = Some q \<and>
    find_version (gpr_ProblemVersionID q) (db w) = Some v \<and> ap_versionID ap = gpr_ProblemVersionID q \<and>
    loadProblemFromDir unmarshal (files w) (pv_ArtifactPath v) (JoinPath [baseDir w, pv_ArtifactPath v])
      = Inr (ap_problem ap)"
proof -
  let ?w = "w\<lparr>fpos := Suc (Suc (Suc (fpos w)))\<rparr>"
  from assms(1) obtain g p q v pr where
    "find_game (int32 gid) (db w) = Some g" "g_Status g = Active"
    "find_participant (int32 gid) u (db w) = Some p"
    "find_game_problem (int32 gid) (gp_CurrentProblemIndex p) (db w) = Some q"
    "find_version (gpr_ProblemVersionID q) (db w) = Some v"
    and pr: "GetByPath unmarshal (pv_ArtifactPath v) ?w = (Inr pr, w')"
    and "ap = \<lparr>ap_problem = pr, ap_versionID = gpr_ProblemVersionID q\<rparr>"
    by (auto simp: getCurrentProblemForSubmission_def GetGame_def GetParticipantProblemIndex_def
      GetGameProblemByIndex_def qGetGameByID_def qGetParticipantProblemIndex_def qGetGameProblemByIndex_def
      success find_version_def split: if_splits simp: bind_eq_Some_conv)
  moreover have "cache_ok unmarshal ?w" using assms(2) by (simp add: cache_ok_def)
  with GetByPath_transparent [OF _ pr]
  have "loadProblemFromDir unmarshal (files w) (pv_ArtifactPath v) (JoinPath [baseDir w, pv_ArtifactPath v]) = Inr pr"
    by (auto simp: wrap_def split: sum.splits)
  ultimately show ?thesis by auto
qed

lemma current_frame:
  "getCurrentProblemForSubmission unmarshal gid u w = (r, w') \<Longrightarrow> db w' = db w \<and> runs w' = runs w"
proof -
  assume run: "getCurrentProblemForSubmission unmarshal gid u w = (r, w')"
  have "stable (\<lambda>w. runs w = n)" for n by (simp add: stable_def)
  note keeps = keeps_stable [OF this]
  have "keeps (\<lambda>w. runs w = n) (GetByPath unmarshal a)" for n a
    by (auto simp: keeps_def GetByPath_def split: option.split sum.split)
  then have "keeps (\<lambda>w. runs w = n) (getCurrentProblemForSubmission unmarshal gid u)" for n
    unfolding getCurrentProblemForSubmission_def GetGame_def GetParticipantProblemIndex_def
      GetGameProblemByIndex_def qGetGameByID_def qGetParticipantProblemIndex_def qGetGameProblemByIndex_def
    by (intro keeps_intro keeps)
  from keepsD [OF this refl run] keepsD [OF keeps_db_current [where I = "\<lambda>d. d = db w"] refl run]
  show ?thesis by simp
qed

lemma InsertSolution_frame:
  assumes "qInsertSolution u s v g code lang w = (r, w')"
  shows "\<exists>sols. db w' = (db w)\<lparr>d_solutions := sols\<rparr>"
proof -
  have "keeps_db (\<lambda>d. \<exists>sols. d = (db w)\<lparr>d_solutions := sols\<rparr>) (qInsertSolution u s v g code lang)"
    unfolding qInsertSolution_def by (rule keeps_inserts) (auto simp: Let_def split: if_splits)
  moreover have "\<exists>sols. db w = (db w)\<lparr>d_solutions := sols\<rparr>"
    by (rule exI [of _ "d_solutions (db w)"]) simp
  ultimately show ?thesis using assms by (auto dest: keepsD)
qed

text \<open>A judged submission: the problem it was judged on, and what followed.\<close>

lemma submitBody_Inr:
  assumes run: "submitBody api unmarshal run gid u code lang w = (Inr r, w')"
  shows "\<exists>l ap w1. getCurrentProblemForSubmission unmarshal gid u (w\<lparr>limiters := l\<rparr>) = (Inr ap, w1) \<and>
    (case first_failing run code lang (runs w) (pr_TestCases (ap_problem ap)) of
       Some j \<Rightarrow> \<not> sr_Accepted r \<and> sr_FailedTest r = Some j \<and> db w' = db w
     | None \<Rightarrow> \<exists>sols w2. db w2 = (db w)\<lparr>d_solutions := sols\<rparr> \<and>
         completeAcceptedSubmission gid u w2 = (Inr r, w'))"
proof -
  from run obtain x v ap w1 where check: "CheckRateLimit api u w = (Inr x, v)"
    and "getCurrentProblemForSubmission unmarshal gid u v = (Inr ap, w1)"
    and rest: "(case executeAgainstProblem run (ap_problem ap) code lang w1 of (outcome, w') \<Rightarrow>
        (if \<not> eo_accepted outcome
         then ret (empty_result\<lparr>sr_FailedTest := eo_failedTest outcome, sr_Stdout := eo_stdout outcome,
                sr_Stderr := eo_stderr outcome\<rparr>)
         else tryE (qInsertSolution u (pr_Slug (ap_problem ap)) (ap_versionID ap) (Some (int32 gid)) code lang)
                (\<lambda>_. completeAcceptedSubmission gid u)) w') = (Inr r, w')"
    unfolding submitBody_def bindE_Inr by blast
  moreover from check obtain l where "v = w\<lparr>limiters := l\<rparr>"
    by (auto simp: CheckRateLimit_def split: prod.splits if_splits)
  ultimately have cur: "getCurrentProblemForSubmission unmarshal gid u (w\<lparr>limiters := l\<rparr>) = (Inr ap, w1)"
    by simp
  from current_frame [OF cur] have same: "db w1 = db w" "runs w1 = runs w" by simp_all
  obtain out w2 where judged: "executeAgainstProblem run (ap_problem ap) code lang w1 = (out, w2)" by fastforce
  from testLoop_frame judged obtain n where w2: "w2 = w1\<lparr>runs := n\<rparr>"
    unfolding executeAgainstProblem_def by blast
  let ?f = "first_failing run code lang (runs w) (pr_TestCases (ap_problem ap))"
  have verdict: "eo_failedTest out = ?f" "eo_accepted out \<longleftrightarrow> ?f = None"
    using testLoop_verdict [OF judged [unfolded executeAgainstProblem_def]] same
    by (simp_all add: option.map_ident)
  have "case ?f of
       Some j \<Rightarrow> \<not> sr_Accepted r \<and> sr_FailedTest r = Some j \<and> db w' = db w
     | None \<Rightarrow> \<exists>sols w2. db w2 = (db w)\<lparr>d_solutions := sols\<rparr> \<and>
         completeAcceptedSubmission gid u w2 = (Inr r, w')"
  proof (cases ?f)
    case None
    with rest judged verdict obtain r3 w3 where
      "qInsertSolution u (pr_Slug (ap_problem ap)) (ap_versionID ap) (Some (int32 gid)) code lang w2 = (r3, w3)"
      "completeAcceptedSubmission gid u w3 = (Inr r, w')"
      by (auto simp: success)
    with InsertSolution_frame [OF this(1)] w2 same None show ?thesis by auto
  next
    case (Some j)
    with rest judged verdict w2 same show ?thesis by (auto simp: success empty_result_def)
  qed
  with cur show ?thesis by blast
qed

lemma completeAccepted_Inr:
  assumes "completeAcceptedSubmission gid u w = (Inr r, w')"
  shows "sr_Accepted r \<and> sr_FailedTest r = None \<and>
    (sr_AlreadyAdvanced r \<or>
     (\<exists>g won w1. HandleAcceptedSubmission gid u w = (Inr (g, won), w1) \<and> db w' = db w1 \<and>
        (if won then sr_WinnerID r = (case g_WinnerID g of None \<Rightarrow> 0 | Some v \<Rightarrow> v)
         else sr_WinnerID r = 0 \<and>
           (\<exists>p q. find_participant (int32 gid) u (db w1) = Some p \<and> sr_ProblemIdx r = gp_CurrentProblemIndex p \<and>
           find_game_problem (int32 gid) (gp_CurrentProblemIndex p) (db w1) = Some q \<and> sr_ProblemID r = gpr_ProblemID q))))"
proof -
  obtain h w1 where h: "HandleAcceptedSubmission gid u w = (h, w1)" by fastforce
  show ?thesis
  proof (cases h)
    case (Inl e)
    with assms h show ?thesis
      by (auto simp: completeAcceptedSubmission_def success empty_result_def split: if_splits)
  next
    case (Inr gw)
    obtain g won where gw: "gw = (g, won)" by fastforce
    show ?thesis
    proof (cases won)
      case True
      with assms h Inr gw show ?thesis
        by (auto simp: completeAcceptedSubmission_def success empty_result_def)
    next
      case False
      with assms h Inr gw obtain p q where
        "find_participant (int32 gid) u (db w1) = Some p" "sr_ProblemIdx r = gp_CurrentProblemIndex p"
        "find_game_problem (int32 gid) (gp_CurrentProblemIndex p) (db w1) = Some q"
        "sr_ProblemID r = gpr_ProblemID q" "sr_Accepted r" "sr_FailedTest r = None" "db w' = db w1"
        "sr_WinnerID r = 0"
        by (auto simp: completeAcceptedSubmission_def success empty_result_def GetParticipantProblemIndex_def
            GetGameProblemIDByIndex_def qGetParticipantProblemIndex_def qGetGameProblemIDByIndex_def)
      with h Inr gw False show ?thesis by auto
    qed
  qed
qed

section \<open>Properties\<close>


text \<open>
  C15. The verdict of a submission that returns without error: the game was active, the program was
  run on the tests of the problem at the player's index, it is accepted exactly if every run
  succeeded with a matching output, the reported test is the first that failed, and a rejected
  submission changes no table.
\<close>

theorem submission_verdict:
  assumes "cache_ok unmarshal w" and "Submit api unmarshal run gid u code lang w = Some (Inr r, w')"
  shows "\<exists>g p q v prob. find_game (int32 gid) (db w) = Some g \<and> g_Status g = Active \<and>
    find_participant (int32 gid) u (db w) = Some p \<and>
    find_game_problem (int32 gid) (gp_CurrentProblemIndex p) (db w) = Some q \<and>
    find_version (gpr_ProblemVersionID q) (db w) = Some v \<and>
    loadProblemFromDir unmarshal (files w) (pv_ArtifactPath v) (JoinPath [baseDir w, pv_ArtifactPath v]) = Inr prob \<and>
    sr_FailedTest r = first_failing run code lang (runs w) (pr_TestCases prob) \<and>
    (sr_Accepted r \<longleftrightarrow> (\<forall>i < length (pr_TestCases prob). passes run code lang (runs w + i) (pr_TestCases prob ! i))) \<and>
    (\<not> sr_Accepted r \<longrightarrow> db w' = db w)"
  using assms(2)
proof (cases rule: Submit_cases)
  case (free w2 s t)
  from submitBody_Inr [OF free(1)] obtain l ap w1 where
    cur: "getCurrentProblemForSubmission unmarshal gid u (w\<lparr>slots := s, limiters := l\<rparr>) = (Inr ap, w1)"
    and verdict: "case first_failing run code lang (runs w) (pr_TestCases (ap_problem ap)) of
       Some j \<Rightarrow> \<not> sr_Accepted r \<and> sr_FailedTest r = Some j \<and> db w2 = db w
     | None \<Rightarrow> \<exists>sols w3. db w3 = (db w)\<lparr>d_solutions := sols\<rparr> \<and>
         completeAcceptedSubmission gid u w3 = (Inr r, w2)"
    by (auto cong: option.case_cong)
  have "sr_FailedTest r = first_failing run code lang (runs w) (pr_TestCases (ap_problem ap)) \<and>
    (sr_Accepted r \<longleftrightarrow> first_failing run code lang (runs w) (pr_TestCases (ap_problem ap)) = None) \<and>
    (\<not> sr_Accepted r \<longrightarrow> db w' = db w)"
    using verdict completeAccepted_Inr free(2) by (auto split: option.splits) (metis completeAccepted_Inr)+
  with current_problem_Inr [OF cur] assms(1) show ?thesis
    by (auto simp: cache_ok_def first_failing_None)
qed simp

definition sample_run :: runner where
  "sample_run n req =
     (\<lparr>xr_Stdout = (if er_Stdin req = ''1'' then ''2 '' else if er_Code req = ''good'' then ''6'' else ''7''),
       xr_Stderr = '''', xr_ExitCode = 0, xr_TimeUsed = 0, xr_MemoryUsed = 0, xr_Error = None\<rparr>, None)"

definition judge_world :: "(rat \<times> time) option exec_world" where
  "judge_world = fs_world.extend (world.extend active_world \<lparr>files = sample_files, baseDir = ''p'', cache = Map.empty\<rparr>)
     \<lparr>rl = \<lparr>rl_Rate = 1 / 5, rl_Burst = 10\<rparr>, limiters = Map.empty, slots = Map.empty, runs = 0\<rparr>"

abbreviation sample_submit ::
  "string \<Rightarrow> (rat \<times> time) option exec_world \<Rightarrow> ((err + SubmissionResult) \<times> (rat \<times> time) option exec_world) option" where
  "sample_submit code w \<equiv> Submit (bucket_api (1 / 5) 10) sample_unmarshal sample_run 1 2 code ''python'' w"

lemma judge_world_ok: "cache_ok sample_unmarshal judge_world" "games_inv (db judge_world)"
  using active_inv by (simp_all add: judge_world_def cache_ok_def world.defs fs_world.defs)

lemma find_participant_advance:
  "find_participant i u (advance_participant i u d) =
     map_option (\<lambda>p. p\<lparr>gp_CurrentProblemIndex := gp_CurrentProblemIndex p + 1\<rparr>) (find_participant i u d)"
  unfolding find_participant_def advance_participant_def
  by (cases "List.find (\<lambda>p. gp_GameID p = i \<and> gp_UserID p = u) (d_participants d)")
     (auto simp: find_upd_where dest: find_SomeD)

theorem submission_verdict_witness:
  "\<exists>r w'. sample_submit ''bad'' judge_world = Some (Inr r, w') \<and> sr_FailedTest r = Some 1 \<and>
     \<not> sr_Accepted r \<and> db w' = db judge_world"
proof -
  have "map_option (\<lambda>(r, w'). map_sum id (\<lambda>r. (sr_Accepted r, sr_FailedTest r)) r) (sample_submit ''bad'' judge_world) =
      Some (Inr (False, Some 1))" by code_simp
  then obtain r w' where r: "sample_submit ''bad'' judge_world = Some (Inr r, w')"
      "\<not> sr_Accepted r" "sr_FailedTest r = Some 1"
    by (auto simp: map_sum_Inr)
  with submission_verdict [OF judge_world_ok(1) r(1)] show ?thesis by blast
qed

lemma Submit_effect:
  assumes "games_inv (db w)" and "Submit api unmarshal run gid u code lang w = Some (Inr r, w')"
    and "sr_Accepted r" and "\<not> sr_AlreadyAdvanced r"
  shows "\<exists>p g. find_participant (int32 gid) u (db w) = Some p \<and> find_game (int32 gid) (db w') = Some g \<and>
    progress (int32 gid) (db w') =
      map (\<lambda>q. if fst q = u then (u, snd q + 1) else q) (progress (int32 gid) (db w)) \<and>
    (if gp_CurrentProblemIndex p + 1 < int (length (problem_indices (int32 gid) (db w)))
     then find_game (int32 gid) (db w) = Some g \<and> sr_WinnerID r = 0 \<and> sr_ProblemIdx r = gp_CurrentProblemIndex p + 1 \<and>
       (\<exists>q. find_game_problem (int32 gid) (sr_ProblemIdx r) (db w') = Some q \<and> sr_ProblemID r = gpr_ProblemID q)
     else g_Status g = Finished \<and> g_WinnerID g = Some (sr_WinnerID r) \<and>
       sr_WinnerID r = (if g_IsSolo g then g_CreatorID g else u))"
  using assms(2)
proof (cases rule: Submit_cases)
  case (free w2 s t)
  from submitBody_Inr [OF free(1)] assms(3) obtain sols w3 where
    "db w3 = (db w)\<lparr>d_solutions := sols\<rparr>" and "completeAcceptedSubmission gid u w3 = (Inr r, w2)"
    by (auto split: option.splits)
  note w3 = this
  from completeAccepted_Inr [OF w3(2)] assms(4) obtain g won w4 where
    h: "HandleAcceptedSubmission gid u w3 = (Inr (g, won), w4)" "db w' = db w4"
    and out: "if won then sr_WinnerID r = (case g_WinnerID g of None \<Rightarrow> 0 | Some v \<Rightarrow> v)
       else sr_WinnerID r = 0 \<and> (\<exists>p q. find_participant (int32 gid) u (db w4) = Some p \<and> sr_ProblemIdx r = gp_CurrentProblemIndex p \<and>
           find_game_problem (int32 gid) (gp_CurrentProblemIndex p) (db w4) = Some q \<and> sr_ProblemID r = gpr_ProblemID q)"
    using free(2) by auto
  have inv: "games_inv (db w3)" using assms(1) w3(1) by simp
  obtain p where p: "find_participant (int32 gid) u (db w) = Some p"
    and won: "won \<longleftrightarrow> int (length (problem_indices (int32 gid) (db w))) \<le> gp_CurrentProblemIndex p + 1"
    using HandleAcceptedSubmission_Inr [OF inv h(1)] w3(1) by auto
  show ?thesis
  proof (cases won)
    case True
    with HandleAcceptedSubmission_Inr [OF inv h(1)] w3(1) obtain g0 where
      "find_game (int32 gid) (db w) = Some g0"
      "g = completed (now w3) (Some (if g_IsSolo g0 then g_CreatorID g0 else u)) g0"
      "db w4 = set_game (int32 gid) (completed (now w3) (Some (if g_IsSolo g0 then g_CreatorID g0 else u)))
         (advance_participant (int32 gid) u (db w3))"
      by auto
    with True p won out h(2) w3(1) show ?thesis
      by (auto simp: find_game_set_game find_game_changes progress_changes progress_advance completed_def)
  next
    case False
    with HandleAcceptedSubmission_Inr [OF inv h(1)] w3(1) have
      "find_game (int32 gid) (db w) = Some g" "db w4 = advance_participant (int32 gid) u (db w3)"
      by auto
    with False p won out h(2) w3(1) show ?thesis
      by (auto simp: find_game_changes progress_advance find_participant_advance)
  qed
qed simp



text \<open>
  The game tables keep their invariant through submissions, whatever the executor answers and
  whatever round trips fail.
\<close>

lemma submission_keeps_games:
  assumes "games_inv (db w)" and "Submit api unmarshal run gid u code lang w = Some (r, w')"
  shows "games_inv (db w')"
  by (rule Submit_keeps [where I = games_inv, OF _ _ assms(2,1)])
     (simp_all add: inv.performs_keeps [OF HandleAcceptedSubmission_performs])

text \<open>
  Advancing the player and finishing the game are two steps: if the transaction that finishes
  the game cannot be opened, the player stays behind the last problem of an active game, and every
  later submission of that player fails with a not-found error instead of finishing the game.
\<close>

lemma lost_finish:
  "let w0 = judge_world\<lparr>faults := (\<lambda>n. if n = fpos judge_world + 6 then Unsent else Fine)\<rparr>;
       (r1, w1) = the (sample_submit ''good'' w0);
       (r2, w2) = the (sample_submit ''good'' w1)
   in r1 = Inl (ErrWrap ''complete game'' ErrConn) \<and>
      map_option g_Status (find_game 1 (db w2)) = Some Active \<and>
      problem_indices 1 (db w2) = [0] \<and> progress 1 (db w2) = [(1, 0), (2, 1)] \<and>
      r2 = Inl (ErrWrap ''get game problem by index'' (New ErrGameNotFound ''game problem not found''))"
  by code_simp

end
