(* ===== verification/Validator.thy ===== *)
theory Validator
  imports Execution_Service "HOL-Library.AList"
begin

text \<open>
  \<^verbatim>\<open>internal/problems/validator.go\<close>: unpacking an uploaded archive into a temporary directory and
  checking the problems in it. The decoders of \<^verbatim>\<open>archive/tar\<close>, \<^verbatim>\<open>compress/gzip\<close> and \<^verbatim>\<open>archive/zip\<close> are
  seen through what the code takes from them: for a tar stream the results of \<^verbatim>\<open>Next\<close> up to the end
  of the file, for a zip file its directory; an entry carries its data and, if its body is damaged,
  the error that follows the data. Writing to disk changes the nodes of \<open>filesystem\<close>.
\<close>

section \<open>Writing to the file system\<close>

definition DirPath :: "string \<Rightarrow> string" where
  "DirPath p = Clean (rev (dropWhile (\<lambda>c. c \<noteq> CHR ''/'') (rev p)))"

definition prefixes_of :: "string \<Rightarrow> string list" where
  "prefixes_of p = map (\<lambda>n. render (is_rooted p) (take n (path_elems p))) [1..<Suc (length (path_elems p))]"

definition put_node :: "string \<Rightarrow> node \<Rightarrow> filesystem \<Rightarrow> filesystem" where
  "put_node p n fs = fs\<lparr>f_nodes := AList.update p n (f_nodes fs)\<rparr>"

definition Mkdir1 :: "string \<Rightarrow> (filesystem, err, unit) sem" where
  "Mkdir1 p = (\<lambda>fs.
     case Stat fs p of
       Inr Dir \<Rightarrow> (Inr (), fs)
     | Inr (File _) \<Rightarrow> (Inl (ErrText ''not a directory''), fs)
     | Inl e \<Rightarrow> if e = ErrNotExist then (Inr (), put_node p Dir fs) else (Inl e, fs))"

definition MkdirAll :: "string \<Rightarrow> (filesystem, err, unit) sem" where
  "MkdirAll p = forE (prefixes_of p) Mkdir1"

definition CreateFile :: "string \<Rightarrow> string \<Rightarrow> (filesystem, err, unit) sem" where
  "CreateFile p contents = (\<lambda>fs.
     case Stat fs p of
       Inr Dir \<Rightarrow> (Inl (ErrText ''is a directory''), fs)
     | Inr (File _) \<Rightarrow> (Inr (), put_node p (File contents) fs)
     | Inl e \<Rightarrow>
         if e \<noteq> ErrNotExist then (Inl e, fs)
         else if Stat fs (DirPath p) = Inr Dir then (Inr (), put_node p (File contents) fs)
         else (Inl ErrNotExist, fs))"

section \<open>Archives\<close>

datatype typeflag = TypeDir | TypeReg | TypeOther

record tar_entry =
  te_Name :: string
  te_Typeflag :: typeflag
  te_Data :: string
  te_Err :: "err option"

record zip_entry =
  ze_Name :: string
  ze_Symlink :: bool
  ze_IsDir :: bool
  ze_Open :: "err option"
  ze_Data :: string
  ze_Err :: "err option"

definition MaxArchiveBytes :: int where "MaxArchiveBytes = 52428800"
definition MaxExtractedBytes :: int where "MaxExtractedBytes = 209715200"
definition MaxTestCases :: nat where "MaxTestCases = 100"
definition MaxProblemsPerUser :: int where "MaxProblemsPerUser = 20"
definition MaxVersionsPerProblem :: int where "MaxVersionsPerProblem = 10"

definition safeTarget :: "string \<Rightarrow> string \<Rightarrow> err + string" where
  "safeTarget destDir name =
     (let cleanName = Clean name in
      if HasPrefix cleanName ''..'' then Inl (ErrText ''path traversal attempt'')
      else let target = JoinPath [destDir, cleanName] in
           if \<not> HasPrefix target (destDir @ ''/'') \<and> target \<noteq> destDir
           then Inl (ErrText ''path traversal attempt'')
           else Inr target)"

text \<open>
  \<^verbatim>\<open>io.Copy(f, io.LimitReader(src, remaining+1))\<close> into a file just opened and truncated: at most
  \<^verbatim>\<open>remaining+1\<close> bytes are copied, and a read error shows only if the limit is not reached before.
\<close>

definition limit_reader :: "int \<Rightarrow> string \<Rightarrow> string" where
  "limit_reader n s = (if int (length s) \<le> n then s else take (nat n) s)"

definition copy_limited :: "string \<Rightarrow> string \<Rightarrow> err option \<Rightarrow> int \<Rightarrow> (filesystem, err, int) sem" where
  "copy_limited target data readErr remaining =
     (let copied = limit_reader (remaining + 1) data in
      bindE (CreateFile target copied) (\<lambda>_.
      case readErr of
        Some e \<Rightarrow> if int (length data) < remaining + 1 then throw e else ret (int (length copied))
      | None \<Rightarrow> ret (int (length copied))))"

definition extractEntry :: "tar_entry \<Rightarrow> string \<Rightarrow> int \<Rightarrow> (filesystem, err, int) sem" where
  "extractEntry hdr target remaining =
     (case te_Typeflag hdr of
        TypeDir \<Rightarrow> bindE (MkdirAll target) (\<lambda>_. ret 0)
      | TypeReg \<Rightarrow>
          bindE (MkdirAll (DirPath target)) (\<lambda>_.
          copy_limited target (te_Data hdr) (te_Err hdr) remaining)
      | TypeOther \<Rightarrow> ret 0)"

definition exceeds :: "int \<Rightarrow> err" where
  "exceeds maxBytes = ErrText (''extracted archive exceeds '' @ itoa (nat (maxBytes div 1048576)) @ '' MB'')"

definition from_result :: "err + 'a \<Rightarrow> ('w, err, 'a) sem" where
  "from_result r = (case r of Inl e \<Rightarrow> throw e | Inr a \<Rightarrow> ret a)"

fun tarLoop :: "(err + tar_entry) list \<Rightarrow> string \<Rightarrow> int \<Rightarrow> int \<Rightarrow> (filesystem, err, unit) sem" where
  "tarLoop [] destDir maxBytes totalBytes = ret ()"
| "tarLoop (Inl e # rest) destDir maxBytes totalBytes = throw (ErrWrap ''reading tar entry'' e)"
| "tarLoop (Inr hdr # rest) destDir maxBytes totalBytes =
     bindE (from_result (safeTarget destDir (te_Name hdr))) (\<lambda>target.
     bindE (extractEntry hdr target (maxBytes - totalBytes)) (\<lambda>n.
     if totalBytes + n > maxBytes then throw (exceeds maxBytes)
     else tarLoop rest destDir maxBytes (totalBytes + n)))"

definition extractTarGz :: "err + (err + tar_entry) list \<Rightarrow> string \<Rightarrow> int \<Rightarrow> (filesystem, err, unit) sem" where
  "extractTarGz r destDir maxBytes =
     (case r of
        Inl e \<Rightarrow> throw (ErrWrap ''invalid gzip'' e)
      | Inr entries \<Rightarrow> tarLoop entries destDir maxBytes 0)"

definition extractZipEntry :: "zip_entry \<Rightarrow> string \<Rightarrow> int \<Rightarrow> (filesystem, err, int) sem" where
  "extractZipEntry f target remaining =
     (if ze_IsDir f then bindE (MkdirAll target) (\<lambda>_. ret 0)
      else bindE (MkdirAll (DirPath target)) (\<lambda>_.
        case ze_Open f of
          Some e \<Rightarrow> throw (ErrWrap ''opening zip entry'' e)
        | None \<Rightarrow> copy_limited target (ze_Data f) (ze_Err f) remaining))"

fun zipLoop :: "zip_entry list \<Rightarrow> string \<Rightarrow> int \<Rightarrow> int \<Rightarrow> (filesystem, err, unit) sem" where
  "zipLoop [] destDir maxBytes totalBytes = ret ()"
| "zipLoop (f # rest) destDir maxBytes totalBytes =
     (if ze_Symlink f then zipLoop rest destDir maxBytes totalBytes
      else
        bindE (from_result (safeTarget destDir (ze_Name f))) (\<lambda>target.
        bindE (extractZipEntry f target (maxBytes - totalBytes)) (\<lambda>n.
        if totalBytes + n > maxBytes then throw (exceeds maxBytes)
        else zipLoop rest destDir maxBytes (totalBytes + n))))"

definition extractZip :: "err + zip_entry list \<Rightarrow> string \<Rightarrow> int \<Rightarrow> (filesystem, err, unit) sem" where
  "extractZip r destDir maxBytes =
     (case r of
        Inl e \<Rightarrow> throw (ErrWrap ''invalid zip'' e)
      | Inr entries \<Rightarrow> zipLoop entries destDir maxBytes 0)"

text \<open>An upload: its bytes and what the two decoders make of them.\<close>

record upload =
  up_bytes :: string
  up_tar :: "err + (err + tar_entry) list"
  up_zip :: "err + zip_entry list"

definition extractArchive :: "upload \<Rightarrow> string \<Rightarrow> (filesystem, err, unit) sem" where
  "extractArchive r destDir =
     (if length (up_bytes r) < 2 then throw (ErrWrap ''reading archive'' (ErrText ''unexpected EOF''))
      else if up_bytes r ! 0 = char_of (31 :: nat) \<and> up_bytes r ! 1 = char_of (139 :: nat)
        then extractTarGz (up_tar r) destDir MaxExtractedBytes
      else if up_bytes r ! 0 = CHR ''P'' \<and> up_bytes r ! 1 = CHR ''K''
        then extractZip (up_zip r) destDir MaxExtractedBytes
      else throw (ErrText ''unsupported archive format (expected .tar.gz or .zip)''))"

section \<open>Checking a problem directory\<close>

record ValidatedProblem =
  vp_Manifest :: Manifest
  vp_Statement :: string
  vp_ReferenceCode :: string
  vp_ReferenceLang :: string
  vp_TestCases :: "TestCase list"
  vp_Dir :: string

definition validateManifest :: "Manifest \<Rightarrow> err + unit" where
  "validateManifest m =
     (if TrimSpace (m_Title m) = '''' then Inl (ErrText ''manifest.json: title is required'')
      else if m_TimeLimitMs m \<le> 0 \<or> m_TimeLimitMs m > 30000
        then Inl (ErrText ''manifest.json: time_limit_ms must be between 1 and 30000'')
      else if m_MemoryLimitMb m \<le> 0 \<or> m_MemoryLimitMb m > 1024
        then Inl (ErrText ''manifest.json: memory_limit_mb must be between 1 and 1024'')
      else Inr ())"

definition extToLang :: "string \<rightharpoonup> string" where
  "extToLang = map_of [(''.py'', ''python''), (''.go'', ''go''), (''.cpp'', ''cpp''), (''.java'', ''java'')]"

definition reference_names :: "(string \<times> bool) list \<Rightarrow> string list" where
  "reference_names entries =
     map fst (filter (\<lambda>(name, isDir). \<not> isDir \<and> extToLang (ToLower (Ext name)) \<noteq> None) entries)"

definition loadReference :: "filesystem \<Rightarrow> string \<Rightarrow> err + string \<times> string" where
  "loadReference fs refDir =
     (if Stat fs refDir = Inl ErrNotExist then Inl (ErrText ''reference/ directory is missing'')
      else andThen (wrap ''reading reference/'' (ReadDir fs refDir)) (\<lambda>entries.
        case reference_names entries of
          [] \<Rightarrow> Inl (ErrText ''reference/: no solution file found (.py, .go, .cpp, .java)'')
        | [name] \<Rightarrow>
            andThen (wrap ''reading reference solution'' (ReadFile fs (JoinPath [refDir, name]))) (\<lambda>code.
            Inr (code, case extToLang (ToLower (Ext name)) of None \<Rightarrow> '''' | Some lang \<Rightarrow> lang))
        | _ \<Rightarrow> Inl (ErrText ''reference/: multiple solution files found, expected exactly one'')))"

definition loadAndValidateTestCases :: "filesystem \<Rightarrow> string \<Rightarrow> err + TestCase list" where
  "loadAndValidateTestCases fs testsDir =
     (if Stat fs testsDir = Inl ErrNotExist then Inl (ErrText ''tests/ directory is missing'')
      else andThen (wrap ''loading test cases'' (loadTestCases fs testsDir)) (\<lambda>cases.
        if length cases = 0
          then Inl (ErrText ''tests/: at least one test case (.in/.out pair) is required'')
        else if length cases > MaxTestCases then Inl (ErrText ''tests/: too many test cases'')
        else Inr cases))"

definition reference_request :: "Manifest \<Rightarrow> string \<Rightarrow> string \<Rightarrow> TestCase \<Rightarrow> ExecutionRequest" where
  "reference_request manifest code lang tc =
     \<lparr>er_Code = code, er_Language = lang, er_Stdin = tc_Input tc,
      er_TimeLimit = m_TimeLimitMs manifest * 1000000,
      er_MemoryLimit = m_MemoryLimitMb manifest * 1024 * 1024\<rparr>"

fun runReferenceTests ::
  "runner \<Rightarrow> Manifest \<Rightarrow> string \<Rightarrow> string \<Rightarrow> TestCase list \<Rightarrow> (('l, 'z) exec_world_scheme, err, unit) sem" where
  "runReferenceTests run manifest code lang [] = ret ()"
| "runReferenceTests run manifest code lang (tc # tests) = (\<lambda>w.
     case Execute run (reference_request manifest code lang tc) w of
       ((result, execErr), w') \<Rightarrow>
         (case execErr of
            Some e \<Rightarrow> throw (ErrWrap (''test '' @ tc_Name tc @ '': executor error'') e) w'
          | None \<Rightarrow>
              if \<not> Match (xr_Stdout result) (tc_Expected tc)
              then throw (ErrText (''test '' @ tc_Name tc @ '': reference solution output '' @
                     NormalizeOutput (xr_Stdout result) @ '', expected '' @ NormalizeOutput (tc_Expected tc))) w'
              else runReferenceTests run manifest code lang tests w'))"

text \<open>The directory is read, and then the reference solution is run on what was read.\<close>

definition validateFiles ::
  "(string \<Rightarrow> err + Manifest) \<Rightarrow> runner \<Rightarrow> string \<Rightarrow> filesystem \<Rightarrow> (('l, 'z) exec_world_scheme, err, ValidatedProblem) sem" where
  "validateFiles unmarshal run dir fs =
     bindE (from_result (wrap ''manifest.json missing or unreadable''
              (ReadFile fs (JoinPath [dir, ''manifest.json''])))) (\<lambda>data.
     bindE (from_result (wrap ''invalid manifest.json'' (unmarshal data))) (\<lambda>manifest.
     bindE (from_result (validateManifest manifest)) (\<lambda>_.
     bindE (from_result (wrap ''statement.md missing''
              (ReadFile fs (JoinPath [dir, ''statement.md''])))) (\<lambda>stmt.
     bindE (from_result (loadReference fs (JoinPath [dir, ''reference'']))) (\<lambda>(refCode, refLang).
     bindE (from_result (loadAndValidateTestCases fs (JoinPath [dir, ''tests'']))) (\<lambda>testCases.
     bindE (runReferenceTests run manifest refCode refLang testCases) (\<lambda>_.
     ret \<lparr>vp_Manifest = manifest, vp_Statement = stmt, vp_ReferenceCode = refCode,
          vp_ReferenceLang = refLang, vp_TestCases = testCases, vp_Dir = dir\<rparr>)))))))"

definition validateProblemDir ::
  "(string \<Rightarrow> err + Manifest) \<Rightarrow> runner \<Rightarrow> string \<Rightarrow> (('l, 'z) exec_world_scheme, err, ValidatedProblem) sem" where
  "validateProblemDir unmarshal run dir = (\<lambda>w. validateFiles unmarshal run dir (files w) w)"

definition inside :: "string \<Rightarrow> string \<Rightarrow> bool" where
  "inside d p \<longleftrightarrow> p = d \<or> HasPrefix p (d @ ''/'')"

definition RemoveAll :: "string \<Rightarrow> filesystem \<Rightarrow> filesystem" where
  "RemoveAll d fs = fs\<lparr>f_nodes := filter (\<lambda>(p, n). \<not> inside d p) (f_nodes fs)\<rparr>"

definition cleanup_on_error ::
  "string \<Rightarrow> ('z fs_world_scheme, err, 'a) sem \<Rightarrow> ('z fs_world_scheme, err, 'a) sem" where
  "cleanup_on_error d m = tryE m (\<lambda>r. case r of
     Inl e \<Rightarrow> (\<lambda>w. (Inl e, w\<lparr>files := RemoveAll d (files w)\<rparr>))
   | Inr a \<Rightarrow> ret a)"

definition on_files :: "(filesystem, err, 'a) sem \<Rightarrow> ('z fs_world_scheme, err, 'a) sem" where
  "on_files m = (\<lambda>w. case m (files w) of (r, fs) \<Rightarrow> (r, w\<lparr>files := fs\<rparr>))"

fun validateEntries ::
  "(string \<Rightarrow> err + Manifest) \<Rightarrow> runner \<Rightarrow> string \<Rightarrow> (string \<times> bool) list \<Rightarrow>
   (('l, 'z) exec_world_scheme, err, ValidatedProblem list) sem" where
  "validateEntries unmarshal run tmpRoot [] = ret []"
| "validateEntries unmarshal run tmpRoot ((name, isDir) # entries) = (\<lambda>w.
     let subDir = JoinPath [tmpRoot, name] in
     if \<not> isDir then validateEntries unmarshal run tmpRoot entries w
     else (case Stat (files w) (JoinPath [subDir, ''manifest.json'']) of
             Inl _ \<Rightarrow> validateEntries unmarshal run tmpRoot entries w
           | Inr _ \<Rightarrow>
               bindE (mapErr (ErrWrap (''problem '' @ name)) (validateProblemDir unmarshal run subDir)) (\<lambda>vp.
               bindE (validateEntries unmarshal run tmpRoot entries) (\<lambda>vps.
               ret (vp # vps))) w))"

text \<open>The extracted tree: a problem at its root, or problems in its directories.\<close>

definition validateTree ::
  "(string \<Rightarrow> err + Manifest) \<Rightarrow> runner \<Rightarrow> string \<Rightarrow> (('l, 'z) exec_world_scheme, err, ValidatedProblem list) sem" where
  "validateTree unmarshal run tmpRoot = (\<lambda>w.
     case Stat (files w) (JoinPath [tmpRoot, ''manifest.json'']) of
       Inr _ \<Rightarrow> bindE (validateProblemDir unmarshal run tmpRoot) (\<lambda>vp. ret [vp]) w
     | Inl _ \<Rightarrow>
         bindE (from_result (wrap ''reading archive root'' (ReadDir (files w) tmpRoot))) (\<lambda>entries.
         bindE (validateEntries unmarshal run tmpRoot entries) (\<lambda>results.
         if length results = 0
         then throw (ErrText ''archive contains no valid problems (no manifest.json found)'')
         else ret results)) w)"

text \<open>
  \<^verbatim>\<open>ready\<close> is the answer of the executor's \<^verbatim>\<open>IsReady\<close>, \<^verbatim>\<open>tmp\<close> the result of \<^verbatim>\<open>os.MkdirTemp\<close>: an error, or a
  name that no node of the file system has.
\<close>

definition ValidateArchive ::
  "(string \<Rightarrow> err + Manifest) \<Rightarrow> runner \<Rightarrow> bool \<Rightarrow> err + string \<Rightarrow> upload \<Rightarrow> int \<Rightarrow>
   (('l, 'z) exec_world_scheme, err, ValidatedProblem list) sem" where
  "ValidateArchive unmarshal run ready tmp r sz =
     (if \<not> ready then throw PrbErrExecutorNotReady
      else if sz > MaxArchiveBytes then throw (ErrText ''archive too large'')
      else bindE (from_result (wrap ''create temp dir'' tmp)) (\<lambda>tmpRoot.
        cleanup_on_error tmpRoot
         (bindE (on_files (\<lambda>fs. (Inr (), put_node tmpRoot Dir fs))) (\<lambda>_.
          bindE (mapErr (ErrWrap ''extracting archive'') (on_files (extractArchive r tmpRoot))) (\<lambda>_.
          validateTree unmarshal run tmpRoot)))))"

section \<open>Paths of extracted entries\<close>

definition temp_dir :: "string \<Rightarrow> bool" where
  "temp_dir d \<longleftrightarrow> path_elems d \<noteq> [] \<and> list_all plain (path_elems d) \<and> d = render True (path_elems d)"

lemma prefixes_of_render:
  "list_all plain es \<Longrightarrow> prefixes_of (render True es) = map (\<lambda>n. render True (take n es)) [1..<Suc (length es)]"
  by (simp add: prefixes_of_def path_elems_render) (simp add: render_def)

lemma DirPath_render:
  assumes "list_all plain (xs @ [x])"
  shows "DirPath (render True (xs @ [x])) = render True xs"
proof -
  define q where "q = (if xs = [] then [] else render True xs)"
  have split: "render True (xs @ [x]) = q @ ''/'' @ x"
    by (cases "xs = []") (simp_all add: q_def render_append, simp add: render_def)
  have no: "CHR ''/'' \<notin> set x" using assms by (simp add: plain_def)
  then have "dropWhile (\<lambda>c. c \<noteq> CHR ''/'') (rev x @ CHR ''/'' # rev q) = CHR ''/'' # rev q"
    by (subst dropWhile_append2) auto
  then have dir: "DirPath (render True (xs @ [x])) = Clean (q @ ''/'' @ [])"
    by (simp add: DirPath_def split)
  have "path_elems (q @ ''/'' @ []) = xs" "is_rooted (q @ ''/'' @ [])"
    using assms path_elems_append [of q "[]"]
    by (auto simp: q_def path_elems_render) (auto simp: path_elems_def render_def)
  moreover have "resolve True [] xs = xs" using assms by (simp add: resolve_plain)
  ultimately show ?thesis by (simp add: dir Clean_def)
qed

lemma inside_render: "ds \<noteq> [] \<Longrightarrow> inside (render True ds) (render True (ds @ es))"
  by (cases "es = []") (simp_all add: inside_def render_append HasPrefix_def)

text \<open>
  A target is the temporary directory or a path below it, written with plain components only, and
  a name is refused exactly if its clean form starts with two dots.
\<close>

lemma safeTarget_spec:
  assumes "temp_dir d"
  shows "safeTarget d name =
    (if HasPrefix (Clean name) ''..'' then Inl (ErrText ''path traversal attempt'')
     else Inr (render True (path_elems d @ path_elems (Clean name))))"
proof (cases "HasPrefix (Clean name) ''..''")
  case False
  let ?ds = "path_elems d" and ?es = "path_elems (Clean name)"
  have d: "?ds \<noteq> []" "list_all plain ?ds" "d = render True ?ds" using assms by (simp_all add: temp_dir_def)
  from JoinPath_render [OF d(2,1) conjunct1 [OF Clean_plain [OF False]] conjunct2 [OF Clean_plain [OF False]]]
  have "JoinPath [d, Clean name] = render True (?ds @ ?es)" using d(3) by simp
  moreover have "inside d (render True (?ds @ ?es))"
    using inside_render [OF d(1), of ?es] d(3) by simp
  ultimately show ?thesis using False by (auto simp: safeTarget_def Let_def inside_def)
qed (simp add: safeTarget_def Let_def)

lemma prefix_inside_or_above:
  assumes "temp_dir d" and "list_all plain es" and "q \<in> set (prefixes_of (render True (path_elems d @ es)))"
  shows "inside d q \<or> q \<in> set (prefixes_of d)"
proof -
  let ?ds = "path_elems d"
  have d: "?ds \<noteq> []" "list_all plain ?ds" "d = render True ?ds" using assms(1) by (simp_all add: temp_dir_def)
  obtain n where n: "1 \<le> n" "q = render True (take n (?ds @ es))"
    using assms(2,3) d(2) by (auto simp: prefixes_of_render simp del: take_append)
  show ?thesis
  proof (cases "length ?ds \<le> n")
    case True
    then have "take n (?ds @ es) = ?ds @ take (n - length ?ds) es" by simp
    with n(2) inside_render [OF d(1), of "take (n - length ?ds) es"] d(3) show ?thesis by metis
  next
    case False
    with n have "q \<in> set (map (\<lambda>n. render True (take n ?ds)) [1..<Suc (length ?ds)])" by auto
    with prefixes_of_render [OF d(2)] d(3) show ?thesis by metis
  qed
qed

section \<open>Extraction stays below its directory\<close>

definition contained :: "string \<Rightarrow> filesystem \<Rightarrow> filesystem \<Rightarrow> bool" where
  "contained d fs0 fs \<longleftrightarrow>
     (\<forall>p. \<not> inside d p \<longrightarrow> map_of (f_nodes fs) p = map_of (f_nodes fs0) p) \<and>
     (\<forall>q \<in> set (prefixes_of d). map_of (f_nodes fs) q = Some Dir)"

lemma map_of_put_node [simp]: "map_of (f_nodes (put_node p n fs)) = (map_of (f_nodes fs))(p \<mapsto> n)"
  by (simp add: put_node_def update_conv')

lemma Stat_NotExist: "Stat fs p = Inl ErrNotExist \<longleftrightarrow> p \<notin> set (f_bad fs) \<and> map_of (f_nodes fs) p = None"
  by (auto simp: Stat_def ErrIO_def ErrNotExist_def split: option.splits)

lemma keeps_Mkdir1:
  assumes "inside d p \<or> p \<in> set (prefixes_of d)"
  shows "keeps (contained d fs0) (Mkdir1 p)"
proof -
  have "contained d fs0 (put_node p Dir fs)" if "contained d fs0 fs" "Stat fs p = Inl ErrNotExist" for fs
    using that assms by (auto simp: contained_def Stat_NotExist)
  then show ?thesis by (auto simp: keeps_def Mkdir1_def split: sum.split node.split)
qed

lemma keeps_CreateFile:
  assumes "inside d p"
  shows "keeps (contained d fs0) (CreateFile p contents)"
proof -
  have "contained d fs0 (put_node p (File contents) fs)"
    if "contained d fs0 fs" "Stat fs p = Inl ErrNotExist \<or> (\<exists>c. Stat fs p = Inr (File c))" for fs
    using that assms by (auto simp: contained_def Stat_NotExist) (auto simp: Stat_def split: if_splits option.splits)
  then show ?thesis
    by (auto simp: keeps_def CreateFile_def split: sum.split node.split)
qed

lemma keeps_forE_set: "(\<And>x. x \<in> set xs \<Longrightarrow> keeps I (body x)) \<Longrightarrow> keeps I (forE xs body)"
  by (induction xs) (auto intro: keeps_intro)

lemma keeps_MkdirAll:
  assumes "temp_dir d" and "list_all plain es"
  shows "keeps (contained d fs0) (MkdirAll (render True (path_elems d @ es)))"
    and "keeps (contained d fs0) (MkdirAll (DirPath (render True (path_elems d @ es))))"
proof -
  show "keeps (contained d fs0) (MkdirAll (render True (path_elems d @ es)))" 
    unfolding MkdirAll_def
    by (intro keeps_forE_set keeps_Mkdir1 prefix_inside_or_above [OF assms])
  have d: "path_elems d \<noteq> []" "list_all plain (path_elems d)" "d = render True (path_elems d)"
    using assms(1) by (simp_all add: temp_dir_def)
  obtain xs x where snoc: "path_elems d @ es = xs @ [x]" using d(1) by (metis append_is_Nil_conv rev_exhaust)
  have plain: "list_all plain (xs @ [x])" using assms(2) d(2) by (simp flip: snoc)
  have "inside d q \<or> q \<in> set (prefixes_of d)" if "q \<in> set (prefixes_of (render True xs))" for q
  proof (rule prefix_inside_or_above [OF assms])
    have "list_all plain xs" using plain by simp
    from that show "q \<in> set (prefixes_of (render True (path_elems d @ es)))"
      unfolding snoc prefixes_of_render [OF plain] prefixes_of_render [OF \<open>list_all plain xs\<close>]
      by (auto simp: image_iff)
  qed
  then show "keeps (contained d fs0) (MkdirAll (DirPath (render True (path_elems d @ es))))"
    unfolding MkdirAll_def snoc DirPath_render [OF plain]
    by (intro keeps_forE_set keeps_Mkdir1)
qed

lemma keeps_from_result [keeps_intro]: "keeps I (from_result r)"
  by (cases r) (auto simp: from_result_def intro: keeps_intro)

lemma keeps_copy_limited:
  "inside d p \<Longrightarrow> keeps (contained d fs0) (copy_limited p data e n)"
  unfolding copy_limited_def Let_def
  by (intro keeps_intro keeps_CreateFile) (auto intro: keeps_intro split: option.split)

lemma keeps_extract:
  assumes "temp_dir d" and "safeTarget d name = Inr t"
  shows "keeps (contained d fs0) (extractEntry hdr t n)" and "keeps (contained d fs0) (extractZipEntry f t n)"
proof -
  from assms have plain: "list_all plain (path_elems (Clean name))"
    and t: "t = render True (path_elems d @ path_elems (Clean name))"
    using Clean_plain [of name] by (auto simp: safeTarget_spec split: if_splits)
  have "inside d t" using t assms(1) inside_render by (metis temp_dir_def)
  then show "keeps (contained d fs0) (extractEntry hdr t n)" "keeps (contained d fs0) (extractZipEntry f t n)"
    unfolding extractEntry_def extractZipEntry_def
    using keeps_MkdirAll [OF assms(1) plain] keeps_copy_limited
    by (auto simp: t intro!: keeps_intro split: typeflag.split option.split)
qed

lemma keeps_bind_result:
  "(\<And>a. r = Inr a \<Longrightarrow> keeps I (k a)) \<Longrightarrow> keeps I (bindE (from_result r) k)"
  by (cases r) (auto simp: from_result_def keeps_def bindE_def throw_def ret_def)

lemma keeps_tarLoop: "temp_dir d \<Longrightarrow> keeps (contained d fs0) (tarLoop es d mx n)"
proof (induction es arbitrary: n)
  case (Cons e es)
  then show ?case by (cases e) (auto intro!: keeps_intro keeps_bind_result keeps_extract)
qed (simp add: keeps_ret)

lemma keeps_zipLoop: "temp_dir d \<Longrightarrow> keeps (contained d fs0) (zipLoop es d mx n)"
proof (induction es arbitrary: n)
  case (Cons f es)
  then show ?case by (auto intro!: keeps_intro keeps_bind_result keeps_extract)
qed (simp add: keeps_ret)

lemma keeps_extractArchive: "temp_dir d \<Longrightarrow> keeps (contained d fs0) (extractArchive r d)"
  unfolding extractArchive_def extractTarGz_def extractZip_def
  by (auto intro!: keeps_intro keeps_tarLoop keeps_zipLoop)

section \<open>Extraction is bounded\<close>

definition node_size :: "node \<Rightarrow> int" where
  "node_size n = (case n of File s \<Rightarrow> int (length s) | Dir \<Rightarrow> 0)"

definition disk :: "filesystem \<Rightarrow> int" where
  "disk fs = sum_list (map (\<lambda>(p, n). node_size n) (f_nodes fs))"

lemma disk_put_node: "disk (put_node p n fs) \<le> disk fs + node_size n"
proof -
  have "sum_list (map (\<lambda>(p, n). node_size n) (AList.update p n xs)) \<le>
      sum_list (map (\<lambda>(p, n). node_size n) xs) + node_size n" for xs
    by (induction xs) (auto simp: node_size_def split: node.split)
  then show ?thesis by (simp add: disk_def put_node_def)
qed

definition writes_at_most :: "int \<Rightarrow> (filesystem, err, 'a) sem \<Rightarrow> bool" where
  "writes_at_most b m \<longleftrightarrow> (\<forall>fs. disk (snd (m fs)) \<le> disk fs + b)"

lemma writes_Mkdir1: "writes_at_most 0 (Mkdir1 p)"
  using disk_put_node [of p Dir]
  by (auto simp: writes_at_most_def Mkdir1_def node_size_def split: sum.split node.split)

lemma writes_bind:
  "writes_at_most b m \<Longrightarrow> 0 \<le> c \<Longrightarrow> (\<And>a. writes_at_most c (k a)) \<Longrightarrow> writes_at_most (b + c) (bindE m k)"
proof -
  assume m: "writes_at_most b m" and c: "0 \<le> c" and k: "\<And>a. writes_at_most c (k a)"
  have "disk (snd (bindE m k fs)) \<le> disk fs + (b + c)" for fs
  proof -
    obtain r fs1 where run: "m fs = (r, fs1)" by fastforce
    from m run have "disk fs1 \<le> disk fs + b" by (metis snd_conv writes_at_most_def)
    note m_bound = this
    have k_bound: "disk (snd (k a fs1)) \<le> disk fs1 + c" for a using k by (simp add: writes_at_most_def)
    show ?thesis
    proof (cases r)
      case (Inr a)
      with m_bound k_bound [of a] run show ?thesis by (simp add: bindE_def)
    qed (use m_bound run c in \<open>simp add: bindE_def\<close>)
  qed
  then show ?thesis by (simp add: writes_at_most_def)
qed

lemma writes_MkdirAll: "writes_at_most 0 (MkdirAll p)"
proof -
  have "writes_at_most 0 (forE qs Mkdir1)" for qs
  proof (induction qs)
    case (Cons q qs)
    from writes_bind [OF writes_Mkdir1 order_refl this] show ?case by simp
  qed (simp add: writes_at_most_def ret_def)
  then show ?thesis by (simp add: MkdirAll_def)
qed


text \<open>
  An operation that reports how many bytes it wrote: it writes at most \<open>b\<close> bytes, and no more than
  it reports.
\<close>

definition metered :: "int \<Rightarrow> (filesystem, err, int) sem \<Rightarrow> bool" where
  "metered b m \<longleftrightarrow> (\<forall>fs r fs'. m fs = (r, fs') \<longrightarrow> disk fs' \<le> disk fs + b \<and>
     (\<forall>n. r = Inr n \<longrightarrow> 0 \<le> n \<and> disk fs' \<le> disk fs + n))"

lemma metered_bind:
  assumes "writes_at_most 0 m" and "0 \<le> b" and "\<And>a. metered b (k a)"
  shows "metered b (bindE m k)"
  unfolding metered_def
proof (intro allI impI)
  fix fs r fs' assume run: "bindE m k fs = (r, fs')"
  obtain s fs1 where m: "m fs = (s, fs1)" by fastforce
  from assms(1) m have small: "disk fs1 \<le> disk fs" by (metis add_0_right snd_conv writes_at_most_def)
  show "disk fs' \<le> disk fs + b \<and> (\<forall>n. r = Inr n \<longrightarrow> 0 \<le> n \<and> disk fs' \<le> disk fs + n)"
  proof (cases s)
    case (Inl e)
    with run m small assms(2) show ?thesis by (auto simp: bindE_def)
  next
    case (Inr a)
    with run m have "k a fs1 = (r, fs')" by (simp add: bindE_def)
    with assms(3) [of a] have "disk fs' \<le> disk fs1 + b \<and> (\<forall>n. r = Inr n \<longrightarrow> 0 \<le> n \<and> disk fs' \<le> disk fs1 + n)"
      unfolding metered_def by blast
    with small show ?thesis by force
  qed
qed

lemma metered_copy: "0 \<le> rem \<Longrightarrow> metered (rem + 1) (copy_limited t data e rem)"
proof -
  assume rem: "0 \<le> rem"
  let ?c = "limit_reader (rem + 1) data"
  have bound: "disk fs' \<le> disk fs + int (length ?c)" if "CreateFile t ?c fs = (r, fs')" for fs r fs'
    using that disk_put_node [of t "File ?c" fs]
    by (auto simp: CreateFile_def node_size_def split: sum.splits node.splits if_splits)
  moreover have "int (length ?c) \<le> rem + 1" using rem by (simp add: limit_reader_def)
  ultimately show ?thesis
    unfolding metered_def
    by (auto simp: copy_limited_def Let_def bindE_def ret_def throw_def
        split: prod.splits sum.splits option.splits if_splits) fastforce+
qed

lemma metered_ret: "0 \<le> b \<Longrightarrow> metered b (ret 0)"
  by (simp add: metered_def ret_def)

lemma metered_extract:
  assumes "0 \<le> rem"
  shows "metered (rem + 1) (extractEntry hdr t rem)" and "metered (rem + 1) (extractZipEntry f t rem)"
  using assms metered_copy [OF assms]
  by (auto simp: extractEntry_def extractZipEntry_def metered_ret intro!: metered_bind writes_MkdirAll
      split: typeflag.split option.split) (simp add: metered_def throw_def)


text \<open>What a loop over entries may still write when \<open>left\<close> bytes are left.\<close>

definition fits :: "int \<Rightarrow> (filesystem, err, unit) sem \<Rightarrow> bool" where
  "fits left m \<longleftrightarrow> (\<forall>fs r fs'. m fs = (r, fs') \<longrightarrow> disk fs' \<le> disk fs + left + 1 \<and>
     (r = Inr () \<longrightarrow> disk fs' \<le> disk fs + left))"

lemma fits_step:
  assumes "metered (left + 1) m" and "0 \<le> left" and "\<And>n. n \<le> left \<Longrightarrow> fits (left - n) (k n)"
  shows "fits left (bindE m (\<lambda>n. if n > left then throw e else k n))"
  unfolding fits_def
proof (intro allI impI)
  fix fs r fs' assume run: "bindE m (\<lambda>n. if n > left then throw e else k n) fs = (r, fs')"
  obtain s fs1 where m: "m fs = (s, fs1)" by fastforce
  from assms(1) m have bound: "disk fs1 \<le> disk fs + (left + 1)" "\<And>n. s = Inr n \<Longrightarrow> 0 \<le> n \<and> disk fs1 \<le> disk fs + n"
    by (auto simp: metered_def)
  show "disk fs' \<le> disk fs + left + 1 \<and> (r = Inr () \<longrightarrow> disk fs' \<le> disk fs + left)"
  proof (cases "\<exists>n. s = Inr n \<and> n \<le> left")
    case True
    then obtain n where n: "s = Inr n" "n \<le> left" by blast
    with run m have "k n fs1 = (r, fs')" by (simp add: bindE_def)
    with assms(3) [OF n(2)] have "disk fs' \<le> disk fs1 + (left - n) + 1 \<and> (r = Inr () \<longrightarrow> disk fs' \<le> disk fs1 + (left - n))"
      unfolding fits_def by blast
    with bound(2) [OF n(1)] show ?thesis by auto
  next
    case False
    with run m have "fs' = fs1 \<and> r \<noteq> Inr ()" by (cases s) (auto simp: bindE_def throw_def)
    with bound(1) show ?thesis by auto
  qed
qed

lemma fits_result:
  "0 \<le> left \<Longrightarrow> (\<And>a. r = Inr a \<Longrightarrow> fits left (k a)) \<Longrightarrow> fits left (bindE (from_result r) k)"
  by (cases r) (auto simp: fits_def from_result_def bindE_def throw_def ret_def)

lemma fits_tarLoop: "tot \<le> mx \<Longrightarrow> fits (mx - tot) (tarLoop es d mx tot)"
proof (induction es arbitrary: tot)
  case (Cons x es)
  show ?case
  proof (cases x)
    case (Inr hdr)
    have "fits (mx - tot) (bindE (extractEntry hdr t (mx - tot))
        (\<lambda>n. if n > mx - tot then throw (exceeds mx) else tarLoop es d mx (tot + n)))" for t
      using Cons by (intro fits_step metered_extract) (simp_all, metis add.commute diff_diff_eq le_diff_eq)
    moreover have "(n > mx - tot) = (tot + n > mx)" for n by auto
    ultimately show ?thesis using Cons.prems by (auto simp: Inr intro!: fits_result)
  qed (use Cons.prems in \<open>simp add: fits_def throw_def\<close>)
qed (simp add: fits_def ret_def)

lemma fits_zipLoop: "tot \<le> mx \<Longrightarrow> fits (mx - tot) (zipLoop es d mx tot)"
proof (induction es arbitrary: tot)
  case (Cons f es)
  have "fits (mx - tot) (bindE (extractZipEntry f t (mx - tot))
      (\<lambda>n. if n > mx - tot then throw (exceeds mx) else zipLoop es d mx (tot + n)))" for t
    using Cons by (intro fits_step metered_extract) (simp_all, metis add.commute diff_diff_eq le_diff_eq)
  moreover have "(n > mx - tot) = (tot + n > mx)" for n by auto
  ultimately show ?case using Cons by (auto intro!: fits_result)
qed (simp add: fits_def ret_def)

lemma fits_extractArchive: "fits MaxExtractedBytes (extractArchive r d)"
proof -
  have "0 \<le> MaxExtractedBytes" by (simp add: MaxExtractedBytes_def)
  with fits_tarLoop [of 0 MaxExtractedBytes] fits_zipLoop [of 0 MaxExtractedBytes] show ?thesis
    unfolding extractArchive_def extractTarGz_def extractZip_def
    by (auto split: sum.split) (simp_all add: fits_def throw_def)
qed

section \<open>What validation guarantees\<close>

definition reference_passes :: "runner \<Rightarrow> nat \<Rightarrow> Manifest \<Rightarrow> string \<Rightarrow> string \<Rightarrow> TestCase \<Rightarrow> bool" where
  "reference_passes run n manifest code lang tc \<longleftrightarrow>
     (case run n (reference_request manifest code lang tc) of (result, execErr) \<Rightarrow>
        execErr = None \<and> Match (xr_Stdout result) (tc_Expected tc))"

definition well_formed :: "ValidatedProblem \<Rightarrow> bool" where
  "well_formed vp \<longleftrightarrow>
     m_Title (vp_Manifest vp) \<noteq> '''' \<and>
     0 < m_TimeLimitMs (vp_Manifest vp) \<and> m_TimeLimitMs (vp_Manifest vp) \<le> 30000 \<and>
     0 < m_MemoryLimitMb (vp_Manifest vp) \<and> m_MemoryLimitMb (vp_Manifest vp) \<le> 1024 \<and>
     vp_ReferenceLang vp \<in> {''python'', ''go'', ''cpp'', ''java''} \<and>
     vp_TestCases vp \<noteq> [] \<and> length (vp_TestCases vp) \<le> MaxTestCases"

definition solved_by_reference :: "runner \<Rightarrow> ValidatedProblem \<Rightarrow> bool" where
  "solved_by_reference run vp \<longleftrightarrow> (\<exists>n. \<forall>i < length (vp_TestCases vp).
     reference_passes run (n + i) (vp_Manifest vp) (vp_ReferenceCode vp) (vp_ReferenceLang vp) (vp_TestCases vp ! i))"

lemma from_result_Inr [success]: "from_result r w = (Inr a, w') \<longleftrightarrow> r = Inr a \<and> w' = w"
  by (cases r) (auto simp: from_result_def ret_def throw_def)

lemma runReferenceTests_Inr:
  "runReferenceTests run m code lang tcs w = (Inr x, w') \<Longrightarrow>
     \<forall>i < length tcs. reference_passes run (runs w + i) m code lang (tcs ! i)"
proof (induction tcs arbitrary: w)
  case (Cons tc tcs)
  then have "reference_passes run (runs w) m code lang tc"
    and "runReferenceTests run m code lang tcs (w\<lparr>runs := Suc (runs w)\<rparr>) = (Inr x, w')"
    by (auto simp: Execute_def throw_def reference_passes_def split: prod.splits option.splits if_splits)
  with Cons.IH [of "w\<lparr>runs := Suc (runs w)\<rparr>"] show ?case
    by (auto simp: nth_Cons split: nat.split)
qed simp

lemma TrimSpace_empty: "TrimSpace [] = []"
  by code_simp

lemma loadReference_lang:
  assumes "loadReference fs d = Inr (code, lang)"
  shows "lang \<in> {''python'', ''go'', ''cpp'', ''java''}"
proof -
  from assms obtain entries where
    ok: "(case reference_names entries of
          [] \<Rightarrow> Inl (ErrText ''reference/: no solution file found (.py, .go, .cpp, .java)'')
        | [name] \<Rightarrow>
            andThen (wrap ''reading reference solution'' (ReadFile fs (JoinPath [d, name]))) (\<lambda>code.
            Inr (code, case extToLang (ToLower (Ext name)) of None \<Rightarrow> '''' | Some lang \<Rightarrow> lang))
        | _ \<Rightarrow> Inl (ErrText ''reference/: multiple solution files found, expected exactly one'')) = Inr (code, lang)"
    unfolding loadReference_def by (auto simp only: andThen_Inr split: if_splits)
  then obtain name where one: "reference_names entries = [name]"
    by (auto split: list.splits)
  then have "name \<in> set (reference_names entries)" by simp
  then obtain l where l: "extToLang (ToLower (Ext name)) = Some l" by (auto simp: reference_names_def)
  moreover have "l \<in> {''python'', ''go'', ''cpp'', ''java''}"
    using l by (auto simp: extToLang_def split: if_splits)
  ultimately show ?thesis using ok one by (auto simp: success)
qed

lemma validateProblemDir_Inr:
  assumes "validateProblemDir unmarshal run dir w = (Inr vp, w')"
  shows "well_formed vp \<and> solved_by_reference run vp"
proof -
  from assms obtain m code lang tcs stmt x where
    vp: "vp = \<lparr>vp_Manifest = m, vp_Statement = stmt, vp_ReferenceCode = code, vp_ReferenceLang = lang,
        vp_TestCases = tcs, vp_Dir = dir\<rparr>"
    and m: "validateManifest m = Inr x" and ref: "loadReference (files w) (JoinPath [dir, ''reference'']) = Inr (code, lang)"
    and tests: "loadAndValidateTestCases (files w) (JoinPath [dir, ''tests'']) = Inr tcs"
    and run: "runReferenceTests run m code lang tcs w = (Inr (), w')"
    by (auto simp: validateProblemDir_def validateFiles_def success split: prod.splits)
  from m have "m_Title m \<noteq> ''''" "0 < m_TimeLimitMs m" "m_TimeLimitMs m \<le> 30000"
    "0 < m_MemoryLimitMb m" "m_MemoryLimitMb m \<le> 1024"
    by (auto simp: validateManifest_def TrimSpace_empty split: if_splits)
  moreover note loadReference_lang [OF ref]
  moreover from tests have "tcs \<noteq> []" "length tcs \<le> MaxTestCases"
    by (auto simp: loadAndValidateTestCases_def success split: if_splits)
  ultimately show ?thesis
    using runReferenceTests_Inr [OF run] vp by (auto simp: well_formed_def solved_by_reference_def)
qed

lemma validateEntries_Inr:
  "validateEntries unmarshal run d es w = (Inr vps, w') \<Longrightarrow> vp \<in> set vps \<Longrightarrow> well_formed vp \<and> solved_by_reference run vp"
proof (induction es arbitrary: w vps)
  case (Cons e es)
  obtain name isDir where e: "e = (name, isDir)" by fastforce
  from Cons.prems(1) consider "validateEntries unmarshal run d es w = (Inr vps, w')"
    | v w1 vs where "validateProblemDir unmarshal run (JoinPath [d, name]) w = (Inr v, w1)"
        "validateEntries unmarshal run d es w1 = (Inr vs, w')" "vps = v # vs"
    by (auto simp: e Let_def success split: if_splits sum.splits)
  then show ?case
  proof cases
    case (2 v w1 vs)
    with Cons.IH [OF 2(2)] validateProblemDir_Inr [OF 2(1)] Cons.prems(2) show ?thesis by auto
  qed (use Cons.IH Cons.prems(2) in blast)
qed (simp add: success)


lemma validateProblemDir_frame:
  "validateProblemDir unmarshal run dir w = (r, w') \<Longrightarrow> files w' = files w \<and> db w' = db w"
proof -
  assume run: "validateProblemDir unmarshal run dir w = (r, w')"
  have tests: "keeps (\<lambda>v. files v = files w \<and> db v = db w) (runReferenceTests run m code lang tcs)" for m code lang tcs
    by (induction tcs)
       (auto simp: keeps_def Execute_def throw_def ret_def split: prod.split option.split)
  have "keeps (\<lambda>v. files v = files w \<and> db v = db w) (validateFiles unmarshal run dir (files w))"
    unfolding validateFiles_def by (intro keeps_intro tests)
  from keepsD [OF this _ run [unfolded validateProblemDir_def]] show ?thesis by simp
qed

lemma validateEntries_frame:
  "validateEntries unmarshal run d es w = (r, w') \<Longrightarrow> files w' = files w \<and> db w' = db w"
proof (induction es arbitrary: w r w')
  case (Cons e es)
  obtain name isDir where e: "e = (name, isDir)" by fastforce
  let ?m = "validateProblemDir unmarshal run (JoinPath [d, name])"
  from Cons.prems consider "validateEntries unmarshal run d es w = (r, w')"
    | "bindE (mapErr (ErrWrap (''problem '' @ name)) ?m) (\<lambda>vp.
         bindE (validateEntries unmarshal run d es) (\<lambda>vps. ret (vp # vps))) w = (r, w')"
    by (auto simp: e Let_def split: if_splits sum.splits)
  then show ?case
  proof cases
    case 2
    obtain s w1 where m: "?m w = (s, w1)" by fastforce
    obtain t w2 where rest: "validateEntries unmarshal run d es w1 = (t, w2)" by fastforce
    from 2 m rest have "w' = w1 \<or> w' = w2"
      by (auto simp: bindE_def mapErr_def tryE_def throw_def ret_def split: sum.splits)
    with validateProblemDir_frame [OF m] Cons.IH [OF rest] show ?thesis by auto
  qed (rule Cons.IH)
qed (simp add: ret_def)

lemma validateTree_frame:
  assumes "validateTree unmarshal run d w = (r, w')"
  shows "files w' = files w \<and> db w' = db w"
proof (cases "Stat (files w) (JoinPath [d, ''manifest.json''])")
  case (Inr n)
  obtain v w1 where m: "validateProblemDir unmarshal run d w = (v, w1)" by fastforce
  with assms Inr have "w' = w1" by (auto simp: validateTree_def bindE_def ret_def split: sum.splits)
  with validateProblemDir_frame [OF m] show ?thesis by simp
next
  case (Inl e)
  show ?thesis
  proof (cases "ReadDir (files w) d")
    case (Inr es)
    obtain v w1 where m: "validateEntries unmarshal run d es w = (v, w1)" by fastforce
    with assms Inl Inr have "w' = w1"
      by (auto simp: validateTree_def bindE_def ret_def throw_def from_result_def wrap_def split: sum.splits if_splits)
    with validateEntries_frame [OF m] show ?thesis by simp
  qed (use assms Inl in \<open>simp add: validateTree_def bindE_def from_result_def wrap_def throw_def\<close>)
qed

lemma validateTree_Inr:
  assumes "validateTree unmarshal run d w = (Inr vps, w')"
  shows "vps \<noteq> [] \<and> (\<forall>vp \<in> set vps. well_formed vp \<and> solved_by_reference run vp)"
proof (cases "Stat (files w) (JoinPath [d, ''manifest.json''])")
  case (Inr n)
  with assms obtain vp where "validateProblemDir unmarshal run d w = (Inr vp, w')" "vps = [vp]"
    by (auto simp: validateTree_def success)
  with validateProblemDir_Inr [OF this(1)] show ?thesis by simp
next
  case (Inl e)
  with assms obtain es where "validateEntries unmarshal run d es w = (Inr vps, w')" "vps \<noteq> []"
    by (auto simp: validateTree_def success split: if_splits)
  with validateEntries_Inr [OF this(1)] show ?thesis by blast
qed

text \<open>The part of \<^verbatim>\<open>ValidateArchive\<close> that runs with a temporary directory.\<close>

lemma archive_body:
  assumes "temp_dir d" and "contained d fs0 (put_node d Dir (files w))"
    and run: "bindE (on_files (\<lambda>fs. (Inr (), put_node d Dir fs))) (\<lambda>_.
       bindE (mapErr (ErrWrap ''extracting archive'') (on_files (extractArchive r d))) (\<lambda>_.
       validateTree unmarshal run d)) w = (res, w')"
  shows "contained d fs0 (files w') \<and> db w' = db w \<and>
    (\<forall>vps. res = Inr vps \<longrightarrow> disk (files w') \<le> disk (files w) + MaxExtractedBytes \<and> vps \<noteq> [] \<and>
       (\<forall>vp \<in> set vps. well_formed vp \<and> solved_by_reference run vp))"
proof -
  obtain s fs1 where ex: "extractArchive r d (put_node d Dir (files w)) = (s, fs1)" by fastforce
  have c: "contained d fs0 fs1" by (rule keepsD [OF keeps_extractArchive [OF assms(1)] assms(2) ex])
  let ?w = "w\<lparr>files := fs1\<rparr>"
  show ?thesis
  proof (cases s)
    case (Inl e)
    with run ex c show ?thesis by (auto simp: bindE_def on_files_def mapErr_def tryE_def throw_def)
  next
    case (Inr x)
    have "disk fs1 \<le> disk (put_node d Dir (files w)) + MaxExtractedBytes"
      using fits_extractArchive [of r d] ex Inr by (auto simp: fits_def)
    with disk_put_node [of d Dir "files w"] have bound: "disk fs1 \<le> disk (files w) + MaxExtractedBytes"
      by (simp add: node_size_def)
    from run ex Inr have rest: "validateTree unmarshal run d ?w = (res, w')"
      by (simp add: bindE_def on_files_def mapErr_def tryE_def ret_def)
    have "vps \<noteq> [] \<and> (\<forall>vp \<in> set vps. well_formed vp \<and> solved_by_reference run vp)" if "res = Inr vps" for vps
      using validateTree_Inr rest that by blast
    with validateTree_frame [OF rest] c bound show ?thesis by auto
  qed
qed


lemma map_of_filter_key: "map_of (filter (\<lambda>(p, n). \<not> P p) xs) p = (if P p then None else map_of xs p)"
  by (induction xs) auto

lemma cleanup_on_error_Inr [success]: "cleanup_on_error d m w = (Inr a, w') \<longleftrightarrow> m w = (Inr a, w')"
  by (auto simp: cleanup_on_error_def tryE_def ret_def split: prod.split sum.split)

lemma archive_run:
  assumes "temp_dir d" and parents: "\<forall>q \<in> set (prefixes_of d). q = d \<or> map_of (f_nodes (files w)) q = Some Dir"
    and run: "ValidateArchive unmarshal run ready (Inr d) r sz w = (res, w')"
  shows "(\<forall>p. \<not> inside d p \<longrightarrow> map_of (f_nodes (files w')) p = map_of (f_nodes (files w)) p) \<and> db w' = db w \<and>
    (case res of
       Inl e \<Rightarrow> w' = w \<or> (\<forall>p. inside d p \<longrightarrow> map_of (f_nodes (files w')) p = None)
     | Inr vps \<Rightarrow> disk (files w') \<le> disk (files w) + MaxExtractedBytes \<and> vps \<noteq> [] \<and>
         (\<forall>vp \<in> set vps. well_formed vp \<and> solved_by_reference run vp))"
proof (cases "ready \<and> \<not> MaxArchiveBytes < sz")
  case False
  with run show ?thesis by (auto simp: ValidateArchive_def throw_def split: if_splits)
next
  case True
  let ?body = "bindE (on_files (\<lambda>fs. (Inr (), put_node d Dir fs))) (\<lambda>_.
       bindE (mapErr (ErrWrap ''extracting archive'') (on_files (extractArchive r d))) (\<lambda>_.
       validateTree unmarshal run d))"
  obtain s w1 where body: "?body w = (s, w1)" by fastforce
  have "contained d (files w) (put_node d Dir (files w))"
    using parents by (auto simp: contained_def inside_def)
  note facts = archive_body [OF assms(1) this body]
  have removed: "map_of (f_nodes (RemoveAll d fs)) p = (if inside d p then None else map_of (f_nodes fs) p)" for fs p
    by (simp add: RemoveAll_def map_of_filter_key)
  from run True have final: "cleanup_on_error d ?body w = (res, w')"
    by (simp add: ValidateArchive_def bindE_def from_result_def wrap_def ret_def)
  show ?thesis
  proof (cases s)
    case (Inl e)
    with final body have "res = Inl e" "w' = w1\<lparr>files := RemoveAll d (files w1)\<rparr>"
      by (auto simp: cleanup_on_error_def tryE_def)
    with facts removed show ?thesis by (auto simp: contained_def)
  next
    case (Inr vps)
    with final body have "res = Inr vps" "w' = w1" by (auto simp: cleanup_on_error_def tryE_def ret_def)
    with facts Inr show ?thesis by (auto simp: contained_def)
  qed
qed


section \<open>Properties\<close>

text \<open>
  C19. Unpacking an upload cannot leave its temporary directory: every entry of any archive is
  written to a path below it with plain components only, nothing outside is created, changed or
  removed, and no table changes. A refused upload leaves nothing in the temporary directory.
\<close>

theorem upload_contained:
  assumes "temp_dir d" and "\<forall>q \<in> set (prefixes_of d). q = d \<or> map_of (f_nodes (files w)) q = Some Dir"
    and "ValidateArchive unmarshal run ready (Inr d) r sz w = (res, w')"
  shows "(\<forall>p. \<not> inside d p \<longrightarrow> map_of (f_nodes (files w')) p = map_of (f_nodes (files w)) p) \<and> db w' = db w \<and>
    (\<forall>e. res = Inl e \<longrightarrow> w' = w \<or> (\<forall>p. inside d p \<longrightarrow> map_of (f_nodes (files w')) p = None))"
  using archive_run [OF assms] by auto

text \<open>
  C20. Unpacking is bounded: whatever sizes an archive declares or contains, the files it leaves on
  disk have at most 200 megabytes, and while it runs at most one byte more is ever written.
\<close>

theorem extraction_bounded:
  assumes "extractArchive r d fs = (res, fs')"
  shows "disk fs' \<le> disk fs + MaxExtractedBytes + 1 \<and>
    (res = Inr () \<longrightarrow> disk fs' \<le> disk fs + MaxExtractedBytes)"
  using fits_extractArchive [of r d] assms by (simp add: fits_def)


definition sample_archive :: upload where
  "sample_archive = \<lparr>up_bytes = map char_of [31, 139 :: nat],
     up_tar = Inr (map (\<lambda>(name, data). Inr \<lparr>te_Name = name, te_Typeflag = TypeReg, te_Data = data, te_Err = None\<rparr>)
       [(''manifest.json'', ''M''), (''/statement.md'', ''S''), (''x/../reference/sol.py'', ''good''),
        (''tests/1.in'', ''1''), (''tests/1.out'', ''2'')]),
     up_zip = Inl (ErrText ''not a zip'')\<rparr>"

definition good_run :: runner where
  "good_run n req = (\<lparr>xr_Stdout = ''2 '', xr_Stderr = '''', xr_ExitCode = 0, xr_TimeUsed = 0, xr_MemoryUsed = 0,
     xr_Error = None\<rparr>, None)"

definition tmp_world :: "(rat \<times> time) option exec_world" where
  "tmp_world = sample_exec_world\<lparr>files := \<lparr>f_nodes = [(''/tmp'', Dir), (''/etc'', Dir)], f_bad = []\<rparr>\<rparr>"

abbreviation sample_validate :: "((rat \<times> time) option exec_world, err, ValidatedProblem list) sem" where
  "sample_validate \<equiv> ValidateArchive sample_unmarshal good_run True (Inr ''/tmp/b'') sample_archive 2"

lemma sample_validated:
  obtains vps w' where "sample_validate tmp_world = (Inr vps, w')" "map vp_ReferenceCode vps = [''good'']"
    "map_of (f_nodes (files w')) ''/tmp/b/reference/sol.py'' = Some (File ''good'')"
proof -
  obtain r w' where run: "sample_validate tmp_world = (r, w')" by fastforce
  have "(case sample_validate tmp_world of (r, w') \<Rightarrow> (map_sum id (map vp_ReferenceCode) r,
      map_of (f_nodes (files w')) ''/tmp/b/reference/sol.py'')) = (Inr [''good''], Some (File ''good''))"
    by code_simp
  then have res: "map_sum id (map vp_ReferenceCode) r = Inr [''good'']"
    "map_of (f_nodes (files w')) ''/tmp/b/reference/sol.py'' = Some (File ''good'')"
    unfolding run by simp_all
  from res(1) obtain vps where "r = Inr vps" "map vp_ReferenceCode vps = [''good'']" unfolding map_sum_Inr by auto
  with res(2) run show ?thesis by (intro that [of vps w']) simp_all
qed

theorem upload_contained_witness:
  "\<exists>vps w'. sample_validate tmp_world = (Inr vps, w') \<and>
     map_of (f_nodes (files w')) ''/tmp/b/reference/sol.py'' = Some (File ''good'') \<and>
     map_of (f_nodes (files w')) ''/etc'' = Some Dir \<and> db w' = db tmp_world"
proof -
  obtain vps w' where run: "sample_validate tmp_world = (Inr vps, w')"
    "map_of (f_nodes (files w')) ''/tmp/b/reference/sol.py'' = Some (File ''good'')"
    by (rule sample_validated)
  have "temp_dir ''/tmp/b''" by code_simp
  moreover have "\<forall>q \<in> set (prefixes_of ''/tmp/b''). q = ''/tmp/b'' \<or> map_of (f_nodes (files tmp_world)) q = Some Dir"
    by code_simp
  moreover have "\<not> inside ''/tmp/b'' ''/etc''" "map_of (f_nodes (files tmp_world)) ''/etc'' = Some Dir" by code_simp+
  ultimately show ?thesis using upload_contained [OF _ _ run(1)] run by metis
qed

theorem extraction_bounded_witness:
  "\<exists>res fs'. extractArchive sample_archive ''/tmp/b'' (files tmp_world) = (res, fs') \<and>
     disk fs' \<le> disk (files tmp_world) + 209715201"
proof -
  obtain res fs' where "extractArchive sample_archive ''/tmp/b'' (files tmp_world) = (res, fs')" by fastforce
  with extraction_bounded [OF this] show ?thesis by (auto simp: MaxExtractedBytes_def)
qed


end
