(* ===== verification/Uploader.thy ===== *)
theory Uploader
  imports Validator Queries_Problems
begin

text \<open>
  \<^verbatim>\<open>internal/problems/uploader.go\<close> and the directory hash of \<^verbatim>\<open>internal/problems/seeder.go\<close>: slugs,
  storing an uploaded problem or a new version of one, and moving its files into the store. The
  Unicode tables of the Go library are the argument \<open>uni\<close>, SHA-256 the argument \<open>sha256\<close>.
\<close>

section \<open>Slugs\<close>

record unicode =
  u_runes :: "string \<Rightarrow> nat list"
  u_IsLetter :: "nat \<Rightarrow> bool"
  u_IsDigit :: "nat \<Rightarrow> bool"
  u_ToLower :: "nat \<Rightarrow> nat"

definition slug_rune :: "nat \<Rightarrow> bool" where
  "slug_rune r \<longleftrightarrow> (97 \<le> r \<and> r \<le> 122) \<or> (48 \<le> r \<and> r \<le> 57)"

text \<open>\<^verbatim>\<open>nonAlphanumRE.ReplaceAllString(s, "-")\<close>: one hyphen for every maximal run of other runes.\<close>

fun replace_runs :: "bool \<Rightarrow> nat list \<Rightarrow> string" where
  "replace_runs inrun [] = []"
| "replace_runs inrun (r # rs) =
     (if slug_rune r then char_of r # replace_runs False rs
      else if inrun then replace_runs True rs
      else CHR ''-'' # replace_runs True rs)"

definition last_index :: "char \<Rightarrow> string \<Rightarrow> int" where
  "last_index c s =
     (if c \<in> set s then int (length s) - 1 - int (length (takeWhile (\<lambda>x. x \<noteq> c) (rev s))) else - 1)"

definition titleToKebab :: "unicode \<Rightarrow> string \<Rightarrow> string" where
  "titleToKebab uni title =
     (let lower = map (\<lambda>r. if u_IsLetter uni r \<or> u_IsDigit uni r then u_ToLower uni r else 45) (u_runes uni title);
          cleaned = trim_right ''-'' (trim_left ''-'' (replace_runs False lower)) in
      if length cleaned > 40
      then let cleaned = take 40 cleaned; idx = last_index CHR ''-'' cleaned in
           if idx > 0 then take (nat idx) cleaned else cleaned
      else cleaned)"

definition randomHex :: "nat \<Rightarrow> ('z, string) op" where
  "randomHex n = bindE random (\<lambda>r. ret (hex_encode (random_bytes n r)))"

fun slugLoop :: "nat \<Rightarrow> string \<Rightarrow> ('z, string) op" where
  "slugLoop 0 base = throw (ErrText ''failed to generate unique slug after 10 attempts'')"
| "slugLoop (Suc n) base =
     bindE (randomHex 2) (\<lambda>suffix.
     let slug = base @ ''-'' @ suffix in
     tryE (qGetProblemCatalogBySlug slug) (\<lambda>res.
     case res of
       Inl e \<Rightarrow> if errors_is e ErrNoRows then ret slug else throw e
     | Inr _ \<Rightarrow> slugLoop n base))"

definition generateSlug :: "unicode \<Rightarrow> string \<Rightarrow> ('z, string) op" where
  "generateSlug uni title =
     (let base = titleToKebab uni title in slugLoop 10 (if base = '''' then ''problem'' else base))"

section \<open>Files\<close>

text \<open>
  \<^verbatim>\<open>filepath.WalkDir\<close> visits the files of a directory in the lexical order of their components; the
  hash is taken of the relative names and the contents, one after the other.
\<close>

definition rel_path :: "string \<Rightarrow> string \<Rightarrow> string" where
  "rel_path dir p = drop (Suc (length dir)) p"

definition walk_files :: "filesystem \<Rightarrow> string \<Rightarrow> string list" where
  "walk_files fs dir =
     sort_key path_elems
       (map (\<lambda>(p, n). rel_path dir p)
         (filter (\<lambda>(p, n). HasPrefix p (dir @ ''/'') \<and> n \<noteq> Dir) (f_nodes fs)))"

fun hash_input :: "filesystem \<Rightarrow> string \<Rightarrow> string list \<Rightarrow> err + string" where
  "hash_input fs dir [] = Inr []"
| "hash_input fs dir (rel # rels) =
     andThen (ReadFile fs (dir @ ''/'' @ rel)) (\<lambda>data.
     andThen (hash_input fs dir rels) (\<lambda>rest.
     Inr (rel @ [newline] @ data @ rest)))"

definition dirSHA256 :: "(string \<Rightarrow> string) \<Rightarrow> filesystem \<Rightarrow> string \<Rightarrow> err + string" where
  "dirSHA256 sha256 fs dir =
     andThen (Stat fs dir) (\<lambda>_.
     andThen (hash_input fs dir (walk_files fs dir)) (\<lambda>s.
     Inr (sha256 s)))"

text \<open>\<^verbatim>\<open>os.Rename\<close> of a directory: the target must be missing or an empty directory.\<close>

definition Rename :: "string \<Rightarrow> string \<Rightarrow> (filesystem, err, unit) sem" where
  "Rename src dest = (\<lambda>fs.
     let moved = fs\<lparr>f_nodes := map (\<lambda>(p, n). (if inside src p then dest @ drop (length src) p else p, n))
                      (filter (\<lambda>(p, n). p \<noteq> dest) (f_nodes fs))\<rparr> in
     case Stat fs src of
       Inl e \<Rightarrow> (Inl e, fs)
     | Inr _ \<Rightarrow>
         (case Stat fs dest of
            Inl e \<Rightarrow> if e \<noteq> ErrNotExist then (Inl e, fs)
                     else if Stat fs (DirPath dest) \<noteq> Inr Dir then (Inl ErrNotExist, fs)
                     else (Inr (), moved)
          | Inr (File _) \<Rightarrow> (Inl (ErrText ''not a directory''), fs)
          | Inr Dir \<Rightarrow>
              if \<exists>(p, n) \<in> set (f_nodes fs). HasPrefix p (dest @ ''/'')
              then (Inl (ErrText ''directory not empty''), fs) else (Inr (), moved)))"

definition moveProblemDir :: "string \<Rightarrow> string \<Rightarrow> string \<Rightarrow> (filesystem, err, unit) sem" where
  "moveProblemDir srcDir base artifactPath =
     (let dest = JoinPath [base, artifactPath] in
      bindE (MkdirAll (DirPath dest)) (\<lambda>_. Rename srcDir dest))"

section \<open>Uploads\<close>

record UploadResult =
  ur_Slug :: string
  ur_Title :: string
  ur_Version :: int

definition version_of :: "ValidatedProblem \<Rightarrow> int \<Rightarrow> int \<Rightarrow> string \<Rightarrow> string \<Rightarrow> uuid \<Rightarrow> version_params" where
  "version_of validated problemID ver artifactPath sha ownerID =
     \<lparr>vp_ProblemID = problemID, vp_Version = ver, vp_ArtifactPath = artifactPath, vp_ArtifactSha256 = sha,
      vp_LimitsTimeMs = int32 (m_TimeLimitMs (vp_Manifest validated)),
      vp_LimitsMemoryKb = int32 (m_MemoryLimitMb (vp_Manifest validated) * 1024),
      vp_CheckerType = ''diff'', vp_ReferenceLanguage = vp_ReferenceLang validated,
      vp_CreatedByUserID = Some ownerID, vp_TestCaseCount = int32 (int (length (vp_TestCases validated))),
      vp_Difficulty = m_Difficulty (vp_Manifest validated)\<rparr>"

text \<open>After the commit: the files are moved into the store and the cache entry is dropped.\<close>

definition publish :: "ValidatedProblem \<Rightarrow> string \<Rightarrow> ('z fs_world_scheme, err, unit) sem" where
  "publish validated artifactPath = (\<lambda>w.
     bindE (mapErr (ErrWrap ''moving problem files'')
              (on_files (moveProblemDir (vp_Dir validated) (baseDir w) artifactPath))) (\<lambda>_.
     (\<lambda>w. (Inr (), w\<lparr>cache := (cache w)(artifactPath := None)\<rparr>))) w)"

definition hash_of :: "(string \<Rightarrow> string) \<Rightarrow> string \<Rightarrow> ('z fs_world_scheme, err, string) sem" where
  "hash_of sha256 dir = (\<lambda>w. from_result (wrap ''computing sha256'' (dirSHA256 sha256 (files w) dir)) w)"

text \<open>The transactions of the two kinds of upload.\<close>

definition newVersionTx :: "ValidatedProblem \<Rightarrow> int \<Rightarrow> string \<Rightarrow> string \<Rightarrow> uuid \<Rightarrow> ('z, int \<times> string) op" where
  "newVersionTx validated catalogID slug sha ownerID =
     bindE (mapErr (ErrWrap ''locking problem row'') (qLockProblemForUpdate catalogID)) (\<lambda>_.
     bindE (mapErr (ErrWrap ''get max version'') (qGetMaxProblemVersion catalogID)) (\<lambda>maxVer.
     let newVersion = maxVer + 1; artifactPath = slug @ ''/v'' @ itoa (nat newVersion) in
     bindE (mapErr (ErrWrap ''create problem version'')
              (qCreateProblemVersion (version_of validated catalogID (int32 newVersion) artifactPath sha ownerID))) (\<lambda>pv.
     bindE (mapErr (ErrWrap ''set current version'')
              (qSetProblemCurrentVersion catalogID (Some (pv_ID pv)))) (\<lambda>_.
     ret (newVersion, artifactPath)))))"

definition newProblemTx ::
  "ValidatedProblem \<Rightarrow> string \<Rightarrow> string \<Rightarrow> string \<Rightarrow> uuid \<Rightarrow> string \<Rightarrow> ('z, unit) op" where
  "newProblemTx validated slug artifactPath sha ownerID visibility =
     bindE (mapErr (ErrWrap ''create problem catalog'')
              (qCreateProblemCatalog slug (Some ownerID) visibility ''published''
                 (m_Title (vp_Manifest validated)))) (\<lambda>catalog.
     bindE (mapErr (ErrWrap ''create problem version'')
              (qCreateProblemVersion (version_of validated (p_ID catalog) 1 artifactPath sha ownerID))) (\<lambda>pv.
     mapErr (ErrWrap ''set current version'')
       (qSetProblemCurrentVersion (p_ID catalog) (Some (pv_ID pv)))))"

definition uploadNewVersion ::
  "(string \<Rightarrow> string) \<Rightarrow> ValidatedProblem \<Rightarrow> string \<Rightarrow> uuid \<Rightarrow> ('z fs_world_scheme, err, UploadResult) sem" where
  "uploadNewVersion sha256 validated slug ownerID =
     bindE (mapErr (no_rows_to (New ErrProblemNotFound ''problem not found''))
              (qGetProblemCatalogBySlug slug)) (\<lambda>catalog.
     bindE (hash_of sha256 (vp_Dir validated)) (\<lambda>sha.
     bindE (in_tx (newVersionTx validated (p_ID catalog) slug sha ownerID)) (\<lambda>(newVersion, artifactPath).
     bindE (publish validated artifactPath) (\<lambda>_.
     ret \<lparr>ur_Slug = slug, ur_Title = m_Title (vp_Manifest validated), ur_Version = newVersion\<rparr>))))"

definition UploadProblem ::
  "unicode \<Rightarrow> (string \<Rightarrow> string) \<Rightarrow> ValidatedProblem \<Rightarrow> uuid \<Rightarrow> string \<Rightarrow>
   ('z fs_world_scheme, err, UploadResult) sem" where
  "UploadProblem uni sha256 validated ownerID visibility =
     (if m_Slug (vp_Manifest validated) \<noteq> ''''
      then uploadNewVersion sha256 validated (m_Slug (vp_Manifest validated)) ownerID
      else
        bindE (generateSlug uni (m_Title (vp_Manifest validated))) (\<lambda>slug.
        bindE (hash_of sha256 (vp_Dir validated)) (\<lambda>sha.
        let artifactPath = slug @ ''/v1'' in
        bindE (in_tx (newProblemTx validated slug artifactPath sha ownerID visibility)) (\<lambda>_.
        bindE (publish validated artifactPath) (\<lambda>_.
        ret \<lparr>ur_Slug = slug, ur_Title = m_Title (vp_Manifest validated), ur_Version = 1\<rparr>)))))"

definition UploadNewVersion ::
  "(string \<Rightarrow> string) \<Rightarrow> ValidatedProblem \<Rightarrow> string \<Rightarrow> uuid \<Rightarrow> ('z fs_world_scheme, err, UploadResult) sem" where
  "UploadNewVersion = uploadNewVersion"

section \<open>The catalogue of problems\<close>

definition set_current :: "int \<Rightarrow> int \<Rightarrow> time \<Rightarrow> database \<Rightarrow> database" where
  "set_current i ver t d = d\<lparr>d_problems := upd_where (\<lambda>p. p_ID p = i)
     (\<lambda>p. p\<lparr>p_CurrentVersionID := Some ver, p_UpdatedAt := t\<rparr>) (d_problems d)\<rparr>"

definition set_visibility :: "int \<Rightarrow> string \<Rightarrow> time \<Rightarrow> database \<Rightarrow> database" where
  "set_visibility i vis t d = d\<lparr>d_problems := upd_where (\<lambda>p. p_ID p = i)
     (\<lambda>p. p\<lparr>p_Visibility := vis, p_UpdatedAt := t\<rparr>) (d_problems d)\<rparr>"

definition version_ok :: "problem_version \<Rightarrow> bool" where
  "version_ok v \<longleftrightarrow> 0 < pv_Version v \<and> 0 < pv_LimitsTimeMs v \<and> 0 < pv_LimitsMemoryKb v \<and>
     0 \<le> pv_TestCaseCount v \<and> pv_ReferenceLanguage v \<in> {''python'', ''go'', ''cpp'', ''java''} \<and>
     pv_Difficulty v \<in> {'''', ''easy'', ''medium'', ''hard''}"

definition fresh_version :: "problem_version \<Rightarrow> database \<Rightarrow> bool" where
  "fresh_version v d \<longleftrightarrow> version_ok v \<and> \<not> version_exists (pv_ID v) d \<and>
     (pv_ProblemID v, pv_Version v) \<notin> (\<lambda>v. (pv_ProblemID v, pv_Version v)) ` set (d_versions d)"

text \<open>
  The three ways the catalogue changes: a new problem without a version, a new version that becomes
  the current one of its problem, and a change of visibility.
\<close>

inductive catalog_step :: "database \<Rightarrow> database \<Rightarrow> bool" where
  new_problem: "p_ID p \<notin> p_ID ` set (d_problems d) \<Longrightarrow> p_Slug p \<notin> p_Slug ` set (d_problems d) \<Longrightarrow>
    p_CurrentVersionID p = None \<Longrightarrow> p_Status p = ''published'' \<Longrightarrow>
    p_Visibility p \<in> {''public'', ''unlisted'', ''private''} \<Longrightarrow>
    catalog_step d (d\<lparr>d_problems := d_problems d @ [p]\<rparr>)"
| new_version: "p_ID p = pv_ProblemID v \<Longrightarrow> p \<in> set (d_problems d) \<Longrightarrow> fresh_version v d \<Longrightarrow>
    catalog_step d (set_current (pv_ProblemID v) (pv_ID v) t (d\<lparr>d_versions := d_versions d @ [v]\<rparr>))"
| new_visibility: "vis \<in> {''public'', ''unlisted'', ''private''} \<Longrightarrow> catalog_step d (set_visibility i vis t d)"

definition current_ok :: "problem_version list \<Rightarrow> problem_row \<Rightarrow> bool" where
  "current_ok vs p \<longleftrightarrow>
     (case p_CurrentVersionID p of
        None \<Rightarrow> True
      | Some i \<Rightarrow> list_ex (\<lambda>v. pv_ID v = i \<and> pv_ProblemID v = p_ID p) vs)"

definition catalog_inv :: "database \<Rightarrow> bool" where
  "catalog_inv d \<longleftrightarrow>
     distinct (map p_ID (d_problems d)) \<and> distinct (map p_Slug (d_problems d)) \<and>
     distinct (map pv_ID (d_versions d)) \<and>
     distinct (map (\<lambda>v. (pv_ProblemID v, pv_Version v)) (d_versions d)) \<and>
     (\<forall>v \<in> set (d_versions d). version_ok v) \<and>
     (\<forall>p \<in> set (d_problems d). p_Visibility p \<in> {''public'', ''unlisted'', ''private''} \<and>
        current_ok (d_versions d) p)"

text \<open>
  A predicate that the three changes keep is kept by every operation that is a sequence of them.
\<close>

locale catalog_law =
  fixes I :: "database \<Rightarrow> bool"
  assumes step_keeps: "catalog_step d d' \<Longrightarrow> I d \<Longrightarrow> I d'"
begin

lemma steps_keep: "catalog_step\<^sup>*\<^sup>* d d' \<Longrightarrow> I d \<Longrightarrow> I d'"
  by (induction rule: rtranclp_induct) (auto intro: step_keeps)

end

lemma current_ok_simps [simp]:
  "p_CurrentVersionID p = None \<Longrightarrow> current_ok vs p"
  "current_ok vs p \<Longrightarrow> current_ok (vs @ ws) p"
  "current_ok vs (p\<lparr>p_Visibility := vis, p_UpdatedAt := t\<rparr>) = current_ok vs p"
  "p_ID p = pv_ProblemID v \<Longrightarrow> current_ok (vs @ [v]) (p\<lparr>p_CurrentVersionID := Some (pv_ID v), p_UpdatedAt := t\<rparr>)"
  by (auto simp: current_ok_def split: option.splits)

interpretation catalog: catalog_law catalog_inv
proof
  fix d d' assume "catalog_step d d'" "catalog_inv d"
  then show "catalog_inv d'"
  proof cases
    case (new_problem p)
    with \<open>catalog_inv d\<close> show ?thesis by (auto simp: catalog_inv_def)
  next
    case (new_version p v t)
    with \<open>catalog_inv d\<close> show ?thesis
      by (auto simp: catalog_inv_def set_current_def fresh_version_def version_exists_def map_upd_where)
  next
    case (new_visibility vis i t)
    with \<open>catalog_inv d\<close> show ?thesis
      by (auto simp: catalog_inv_def set_visibility_def map_upd_where)
  qed
qed

text \<open>What never changes: problems keep their identity, slug, owner and title, versions everything.\<close>

definition same_problem :: "problem_row \<Rightarrow> problem_row \<Rightarrow> bool" where
  "same_problem p q \<longleftrightarrow> p_ID q = p_ID p \<and> p_Slug q = p_Slug p \<and> p_OwnerUserID q = p_OwnerUserID p \<and>
     p_Title q = p_Title p \<and> p_Status q = p_Status p"

lemma same_problem_upd [simp]:
  "same_problem p (q\<lparr>p_CurrentVersionID := c, p_UpdatedAt := t\<rparr>) = same_problem p q"
  "same_problem p (q\<lparr>p_Visibility := vis, p_UpdatedAt := t\<rparr>) = same_problem p q"
  by (simp_all add: same_problem_def)

definition catalog_kept :: "database \<Rightarrow> database \<Rightarrow> bool" where
  "catalog_kept d0 d \<longleftrightarrow> set (d_versions d0) \<subseteq> set (d_versions d) \<and>
     (\<forall>p \<in> set (d_problems d0). \<exists>q \<in> set (d_problems d). same_problem p q)"

lemma kept_upd_where:
  assumes "\<exists>q \<in> set ps. same_problem p q" and "\<And>q. same_problem p q \<Longrightarrow> same_problem p (f q)"
  shows "\<exists>q \<in> set (upd_where P f ps). same_problem p q"
  using assms by (auto simp: image_iff)

interpretation history: catalog_law "catalog_kept d0" for d0
proof
  fix d d' assume "catalog_step d d'" "catalog_kept d0 d"
  then show "catalog_kept d0 d'"
  proof cases
    case (new_version p v t)
    with \<open>catalog_kept d0 d\<close> show ?thesis
      unfolding catalog_kept_def set_current_def
      by (auto intro!: kept_upd_where simp del: set_upd_where)
  next
    case (new_visibility vis i t)
    with \<open>catalog_kept d0 d\<close> show ?thesis
      unfolding catalog_kept_def set_visibility_def
      by (auto intro!: kept_upd_where simp del: set_upd_where)
  qed (auto simp: catalog_kept_def)
qed

section \<open>Operations are sequences of catalogue steps\<close>

abbreviation steps_from :: "database \<Rightarrow> database \<Rightarrow> bool" where
  "steps_from d0 \<equiv> catalog_step\<^sup>*\<^sup>* d0"

lemma create_problem_step:
  assumes "qCreateProblemCatalog slug owner vis ''published'' title w = (Inr p, w')"
  shows "catalog_step (db w) (db w') \<and> p \<in> set (d_problems (db w')) \<and> p_Slug p = slug \<and>
    p_OwnerUserID p = owner \<and> slug \<notin> p_Slug ` set (d_problems (db w)) \<and> p_Visibility p = vis \<and>
    db w' = (db w)\<lparr>d_problems := d_problems (db w) @ [p]\<rparr>"
proof -
  from assms have p: "p_ID p \<notin> p_ID ` set (d_problems (db w))" "p_Slug p \<notin> p_Slug ` set (d_problems (db w))"
    "p_CurrentVersionID p = None" "p_Status p = ''published''" "p_Visibility p \<in> {''public'', ''unlisted'', ''private''}"
    and rest: "p_Slug p = slug" "p_OwnerUserID p = owner" "p_Visibility p = vis"
      "db w' = (db w)\<lparr>d_problems := d_problems (db w) @ [p]\<rparr>"
    by (auto simp: qCreateProblemCatalog_def success Let_def split: if_splits)
  with new_problem [OF p] show ?thesis by auto
qed

lemma create_version_step:
  assumes "qCreateProblemVersion a w = (Inr v, w1)" and "qSetProblemCurrentVersion (vp_ProblemID a) (Some (pv_ID v)) w2 = (Inr x, w')"
    and "db w2 = db w1"
  shows "catalog_step (db w) (db w') \<and> v \<in> set (d_versions (db w')) \<and> pv_ProblemID v = vp_ProblemID a \<and>
    pv_Version v = vp_Version a \<and> pv_ArtifactPath v = vp_ArtifactPath a \<and>
    db w' = set_current (pv_ProblemID v) (pv_ID v) (now w2) ((db w)\<lparr>d_versions := d_versions (db w) @ [v]\<rparr>)"
proof -
  from assms(1) have v: "fresh_version v (db w)" "db w1 = (db w)\<lparr>d_versions := d_versions (db w) @ [v]\<rparr>"
    "find_problem_id (vp_ProblemID a) (db w) \<noteq> None" "pv_ProblemID v = vp_ProblemID a" "pv_Version v = vp_Version a"
    "pv_ArtifactPath v = vp_ArtifactPath a"
    by (clarsimp simp: qCreateProblemVersion_def success Let_def fresh_version_def version_ok_def version_exists_def
        split: if_splits)+
  then obtain p where p: "p \<in> set (d_problems (db w))" "p_ID p = pv_ProblemID v"
    by (auto simp: find_problem_id_def dest: find_SomeD)
  from assms(2,3) v have db: "db w' = set_current (pv_ProblemID v) (pv_ID v) (now w2)
      ((db w)\<lparr>d_versions := d_versions (db w) @ [v]\<rparr>)"
    by (auto simp: qSetProblemCurrentVersion_def success set_current_def split: if_splits)
  then have "catalog_step (db w) (db w')" using new_version [OF p(2,1) v(1)] by simp
  with db v show ?thesis by (simp add: set_current_def)
qed

lemma keeps_db_on_files [keeps_intro]: "keeps_db I (on_files m)"
  by (auto simp: keeps_def on_files_def split: prod.split)

lemma keeps_db_hash [keeps_intro]: "keeps_db I (hash_of sha256 dir)"
  by (auto simp: keeps_def hash_of_def from_result_def ret_def throw_def split: sum.split)

lemma keeps_db_publish [keeps_intro]: "keeps_db I (publish vp a :: ('z fs_world_scheme, err, unit) sem)"
proof -
  have "keeps_db I (\<lambda>w :: 'z fs_world_scheme. (Inr (), w\<lparr>cache := (cache w)(a := None)\<rparr>))" by (simp add: keeps_def)
  then have "keeps_db I (bindE (mapErr (ErrWrap ''moving problem files'') (on_files (moveProblemDir (vp_Dir vp) b a)))
      (\<lambda>_ w :: 'z fs_world_scheme. (Inr (), w\<lparr>cache := (cache w)(a := None)\<rparr>)))" for b
    by (intro keeps_intro)
  then show ?thesis by (simp add: keeps_def publish_def)
qed

lemma keeps_slugLoop [keeps_intro]: "keeps_db I (slugLoop n base)"
  by (induction n) (auto simp: randomHex_def qGetProblemCatalogBySlug_def Let_def intro!: keeps_intro split: sum.split)


lemma newVersionTx_Inr:
  assumes "newVersionTx vp i slug sha u w = (Inr (n, path), w')"
  shows "catalog_step (db w) (db w') \<and> n = max_version i (db w) + 1 \<and> path = slug @ ''/v'' @ itoa (nat n) \<and>
    (\<exists>v t. pv_ProblemID v = i \<and> pv_Version v = int32 n \<and> pv_ArtifactPath v = path \<and>
       db w' = set_current i (pv_ID v) t ((db w)\<lparr>d_versions := d_versions (db w) @ [v]\<rparr>))"
proof -
  from assms obtain v w1 w2 where
    "qCreateProblemVersion (version_of vp i (int32 n) path sha u) w1 = (Inr v, w2)"
    "qSetProblemCurrentVersion i (Some (pv_ID v)) w2 = (Inr (), w')" "db w1 = db w"
    and n: "n = max_version i (db w) + 1" "path = slug @ ''/v'' @ itoa (nat n)"
    by (auto simp: newVersionTx_def qLockProblemForUpdate_def qGetMaxProblemVersion_def success Let_def)
  with create_version_step [OF this(1), of w2 "()" w'] show ?thesis
    by (auto simp: version_of_def)
qed

lemma newProblemTx_Inr:
  assumes "newProblemTx vp slug path sha u vis w = (Inr x, w')"
  shows "catalog_step\<^sup>*\<^sup>* (db w) (db w') \<and> slug \<notin> p_Slug ` set (d_problems (db w)) \<and>
    (\<exists>p v t. p_Slug p = slug \<and> p_OwnerUserID p = Some u \<and> p_Visibility p = vis \<and> pv_ProblemID v = p_ID p \<and>
       pv_Version v = 1 \<and> pv_ArtifactPath v = path \<and>
       db w' = set_current (p_ID p) (pv_ID v) t
         ((db w)\<lparr>d_problems := d_problems (db w) @ [p], d_versions := d_versions (db w) @ [v]\<rparr>))"
proof -
  from assms obtain p w1 v w2 where
    p: "qCreateProblemCatalog slug (Some u) vis ''published'' (m_Title (vp_Manifest vp)) w = (Inr p, w1)"
    and v: "qCreateProblemVersion (version_of vp (p_ID p) 1 path sha u) w1 = (Inr v, w2)"
    and cur: "qSetProblemCurrentVersion (p_ID p) (Some (pv_ID v)) w2 = (Inr x, w')"
    by (auto simp: newProblemTx_def success)
  note p' = create_problem_step [OF p]
  have "vp_ProblemID (version_of vp (p_ID p) 1 path sha u) = p_ID p" by (simp add: version_of_def)
  with create_version_step [OF v, of w2 x w'] cur
  have v': "catalog_step (db w1) (db w')" "pv_ProblemID v = p_ID p" "pv_Version v = 1" "pv_ArtifactPath v = path"
    "db w' = set_current (p_ID p) (pv_ID v) (now w2) ((db w1)\<lparr>d_versions := d_versions (db w1) @ [v]\<rparr>)"
    by (auto simp: version_of_def)
  from p' v'(1) have "catalog_step\<^sup>*\<^sup>* (db w) (db w')" by (meson r_into_rtranclp rtranclp.rtrancl_into_rtrancl)
  with p' v' show ?thesis by auto
qed

lemma uploadNewVersion_steps [keeps_intro]: "keeps_db (steps_from d0) (uploadNewVersion sha256 vp slug u)"
  unfolding uploadNewVersion_def qGetProblemCatalogBySlug_def
  by (intro keeps_intro keeps_in_tx) (auto dest!: newVersionTx_Inr)

lemma UploadProblem_steps [keeps_intro]: "keeps_db (steps_from d0) (UploadProblem uni sha256 vp u vis)"
  unfolding UploadProblem_def generateSlug_def Let_def
  by (intro keeps_intro keeps_in_tx) (auto dest!: newProblemTx_Inr)

section \<open>The shape of slugs\<close>

definition slug_char :: "char \<Rightarrow> bool" where
  "slug_char c \<longleftrightarrow> slug_rune (of_char c)"

definition hyphenated :: "string \<Rightarrow> bool" where
  "hyphenated s \<longleftrightarrow> list_all (\<lambda>c. slug_char c \<or> c = CHR ''-'') s \<and>
     successively (\<lambda>a b. a \<noteq> CHR ''-'' \<or> b \<noteq> CHR ''-'') s"

definition kebab :: "string \<Rightarrow> bool" where
  "kebab s \<longleftrightarrow> hyphenated s \<and> (s = [] \<or> hd s \<noteq> CHR ''-'' \<and> last s \<noteq> CHR ''-'')"

lemma hyphenated_append: "hyphenated (xs @ ys) \<Longrightarrow> hyphenated xs \<and> hyphenated ys"
  by (simp add: hyphenated_def successively_append_iff)

lemma slug_rune_char: "slug_rune r \<Longrightarrow> slug_char (char_of r) \<and> char_of r \<noteq> CHR ''-''"
proof -
  assume r: "slug_rune r"
  then have "r < 256" by (auto simp: slug_rune_def)
  then have of: "of_char (char_of r :: char) = r" by simp
  have "(char_of r :: char) \<noteq> CHR ''-''"
  proof
    assume "(char_of r :: char) = CHR ''-''"
    then have "of_char (char_of r :: char) = (45 :: nat)" by simp
    with of r show False by (simp add: slug_rune_def)
  qed
  with of r show ?thesis by (simp add: slug_char_def)
qed

lemma hyphenated_replace_runs:
  "hyphenated (replace_runs b rs) \<and> (b \<longrightarrow> replace_runs b rs = [] \<or> hd (replace_runs b rs) \<noteq> CHR ''-'')"
  by (induction rs arbitrary: b)
     (auto simp: hyphenated_def successively_Cons dest: slug_rune_char)

lemma trim_left_split: "\<exists>t. s = t @ trim_left cs s"
  unfolding trim_left_def by (metis takeWhile_dropWhile_id)

lemma trim_left_hd: "trim_left cs s = [] \<or> hd (trim_left cs s) \<notin> set cs"
  using hd_dropWhile [of "\<lambda>c. c \<in> set cs" s] by (auto simp: trim_left_def)

lemma trimmed_kebab:
  assumes "hyphenated s"
  shows "kebab (trim_right ''-'' (trim_left ''-'' s))"
proof -
  let ?l = "trim_left ''-'' s" and ?r = "trim_right ''-'' (trim_left ''-'' s)"
  obtain t u where "s = t @ ?l" "?l = ?r @ u"
    using trim_left_split trim_right_suffix by metis
  with assms hyphenated_append have "hyphenated ?r" by metis
  moreover have "hd ?r \<noteq> CHR ''-''" if "?r \<noteq> []"
  proof -
    have "hd ?l = hd ?r" using \<open>?l = ?r @ u\<close> that by (metis hd_append2)
    moreover have "?l \<noteq> []" using \<open>?l = ?r @ u\<close> that by auto
    ultimately show ?thesis using trim_left_hd [of "''-''" s] by auto
  qed
  moreover have "last ?r \<noteq> CHR ''-''" if "?r \<noteq> []"
    using trim_right_last [of "''-''" ?l] that by auto
  ultimately show ?thesis by (auto simp: kebab_def)
qed

lemma last_index_split:
  assumes "c \<in> set s"
  obtains pre post where "s = pre @ c # post" "last_index c s = int (length pre)"
proof -
  from assms obtain ys zs where rs: "rev s = ys @ c # zs" "c \<notin> set ys" by (metis in_set_conv_decomp_first set_rev)
  have "takeWhile (\<lambda>x. x \<noteq> c) (rev s) = ys"
    using rs by (simp add: takeWhile_append)
  moreover have "s = rev zs @ c # rev ys" using rs(1) by (metis rev_append rev_rev_ident rev.simps(2) append.assoc append_Cons append_Nil)
  ultimately show ?thesis using that [of "rev zs" "rev ys"] assms by (simp add: last_index_def)
qed

lemma titleToKebab_kebab: "kebab (titleToKebab uni title) \<and> length (titleToKebab uni title) \<le> 40"
proof -
  define c where "c = trim_right ''-'' (trim_left ''-'' (replace_runs False
    (map (\<lambda>r. if u_IsLetter uni r \<or> u_IsDigit uni r then u_ToLower uni r else 45) (u_runes uni title))))"
  have c: "kebab c" unfolding c_def by (rule trimmed_kebab [OF conjunct1 [OF hyphenated_replace_runs]])
  show ?thesis
  proof (cases "length c > 40")
    case False
    with c show ?thesis by (simp add: titleToKebab_def c_def [symmetric])
  next
    case True
    let ?t = "take 40 c"
    have t: "hyphenated ?t" "?t \<noteq> []" "hd ?t \<noteq> CHR ''-''" "length ?t = 40"
      using c True hyphenated_append [of ?t "drop 40 c"] by (auto simp: kebab_def hd_take)
    show ?thesis
    proof (cases "CHR ''-'' \<in> set ?t")
      case hyphen: False
      then have "last ?t \<noteq> CHR ''-''" using t(2) last_in_set by metis
      moreover have "titleToKebab uni title = ?t"
        using True hyphen by (simp add: titleToKebab_def c_def [symmetric] Let_def last_index_def)
      ultimately show ?thesis using t by (simp add: kebab_def)
    next
      case hyphen: True
      then obtain pre post where split: "?t = pre @ CHR ''-'' # post" "last_index CHR ''-'' ?t = int (length pre)"
        by (rule last_index_split)
      with t(3) have pre: "pre \<noteq> []" by (cases pre) auto
      then have "titleToKebab uni title = take (length pre) ?t"
        using True split(2) by (simp add: titleToKebab_def c_def [symmetric] Let_def)
      then have "titleToKebab uni title = pre" using split(1) by (metis append_eq_conv_conj)
      moreover have "last pre \<noteq> CHR ''-''"
        using t(1) pre unfolding split(1) by (auto simp: hyphenated_def successively_append_iff)
      moreover have "hyphenated pre" using t(1) hyphenated_append unfolding split(1) by blast
      moreover have "hd pre \<noteq> CHR ''-''" using t(3) pre unfolding split(1) by simp
      moreover have "length pre \<le> 40" using t(4) unfolding split(1) by simp
      ultimately show ?thesis by (simp add: kebab_def)
    qed
  qed
qed

lemma max_version_nonneg: "catalog_inv d \<Longrightarrow> 0 \<le> max_version i d"
proof -
  assume inv: "catalog_inv d"
  show ?thesis
  proof (cases "filter (\<lambda>v. pv_ProblemID v = i) (d_versions d)")
    case (Cons v vs)
    then have v: "v \<in> set (d_versions d)" "pv_ProblemID v = i" by (auto simp: filter_eq_Cons_iff)
    with inv have "0 < pv_Version v" by (auto simp: catalog_inv_def version_ok_def)
    with max_version_ge [OF v] show ?thesis by simp
  qed (simp add: max_version_def)
qed

section \<open>Properties\<close>

text \<open>
  Whatever the title, the base of a slug has only lower-case letters, digits and single hyphens,
  does not begin or end with a hyphen and has at most forty characters.
\<close>

lemma slug_shape: "kebab (titleToKebab uni title) \<and> length (titleToKebab uni title) \<le> 40"
  by (rule titleToKebab_kebab)

text \<open>
  C22. A new version takes the number after the largest one of its problem, so no earlier version has
  it; it becomes the current version, its files are named after slug and number, and a stale
  cache entry of that path is gone.
\<close>

theorem new_version_published:
  assumes "catalog_inv (db w)" and "uploadNewVersion sha256 vp slug u w = (Inr res, w')"
    and "max_version i (db w) < max_int4" and "find_problem slug (db w) = Some p" and "p_ID p = i"
  shows "ur_Version res = max_version i (db w) + 1 \<and>
    (\<forall>v \<in> set (d_versions (db w)). pv_ProblemID v = i \<longrightarrow> pv_Version v < ur_Version res) \<and>
    (\<exists>p' v. find_problem slug (db w') = Some p' \<and> p_CurrentVersionID p' = Some (pv_ID v) \<and>
       v \<in> set (d_versions (db w')) \<and> pv_ProblemID v = i \<and> pv_Version v = ur_Version res \<and>
       pv_ArtifactPath v = slug @ ''/v'' @ itoa (nat (ur_Version res)) \<and> cache w' (pv_ArtifactPath v) = None)"
proof -
  from assms(2,4,5) obtain sha w1 n path w2 w3 where
    tx: "newVersionTx vp i slug sha u w1 = (Inr (n, path), w2)" "db w1 = db w"
    and pub: "publish vp path (w2\<lparr>fpos := w3\<rparr>) = (Inr (), w')" and n: "ur_Version res = n"
    by (auto simp: uploadNewVersion_def qGetProblemCatalogBySlug_def hash_of_def success)
  from newVersionTx_Inr [OF tx(1)] tx(2) obtain v t where
    v: "n = max_version i (db w) + 1" "path = slug @ ''/v'' @ itoa (nat n)" "pv_ProblemID v = i"
      "pv_Version v = int32 n" "pv_ArtifactPath v = path"
      "db w2 = set_current i (pv_ID v) t ((db w)\<lparr>d_versions := d_versions (db w) @ [v]\<rparr>)"
    by auto
  have "db w' = db w2" using keepsD [OF keeps_db_publish [where I = "\<lambda>d. d = db w2"] _ pub] by simp
  moreover have "cache w' path = None" using pub by (auto simp: publish_def success)
  moreover have old: "pv_Version x \<le> max_version i (db w)" if "x \<in> set (d_versions (db w))" "pv_ProblemID x = i" for x
    using max_version_ge [OF that] .
  moreover have "int32 n = n"
    using v(1) max_version_nonneg [OF assms(1), of i] assms(3) by (simp add: wrap_int_id max_int4_def)
  moreover have "find_problem slug (db w2) = Some (p\<lparr>p_CurrentVersionID := Some (pv_ID v), p_UpdatedAt := t\<rparr>)"
    using assms(4,5) v(6) by (simp add: find_problem_def set_current_def find_upd_where)
  moreover have "v \<in> set (d_versions (db w2))" using v(6) by (simp add: set_current_def)
  ultimately show ?thesis using v n by fastforce
qed

definition ascii_unicode :: unicode where
  "ascii_unicode = \<lparr>u_runes = map of_char, u_IsLetter = (\<lambda>r. (65 \<le> r \<and> r \<le> 90) \<or> (97 \<le> r \<and> r \<le> 122)),
     u_IsDigit = (\<lambda>r. 48 \<le> r \<and> r \<le> 57), u_ToLower = (\<lambda>r. if 65 \<le> r \<and> r \<le> 90 then r + 32 else r)\<rparr>"

text \<open>An unpacked problem in a temporary directory, and a store that has one problem.\<close>

definition sample_vp :: "string \<Rightarrow> string \<Rightarrow> ValidatedProblem" where
  "sample_vp slug difficulty = \<lparr>vp_Manifest = \<lparr>m_Slug = slug, m_Title = ''My  First Problem!'', m_Difficulty = difficulty,
       m_TimeLimitMs = 1000, m_MemoryLimitMb = 64\<rparr>, vp_Statement = ''S'', vp_ReferenceCode = ''good'',
     vp_ReferenceLang = ''python'', vp_TestCases = [\<lparr>tc_Name = ''1'', tc_Input = ''1'', tc_Expected = ''2''\<rparr>],
     vp_Dir = ''/tmp/b''\<rparr>"

definition upload_world :: "(rat \<times> time) option exec_world" where
  "upload_world = sample_exec_world\<lparr>baseDir := ''/p'', files := \<lparr>f_nodes = [(''/tmp'', Dir), (''/p'', Dir), (''/tmp/b'', Dir),
     (''/tmp/b/manifest.json'', File ''M''), (''/tmp/b/statement.md'', File ''S''), (''/tmp/b/tests'', Dir),
     (''/tmp/b/tests/1.in'', File ''1''), (''/tmp/b/tests/1.out'', File ''2'')], f_bad = []\<rparr>\<rparr>"

lemma upload_world_inv: "catalog_inv (db upload_world)"
  by code_simp

theorem new_version_published_witness:
  "\<exists>res w'. uploadNewVersion id (sample_vp ''secret'' ''hard'') ''secret'' 1 upload_world = (Inr res, w') \<and>
     ur_Version res = 2 \<and> cache w' ''secret/v2'' = None"
proof -
  obtain r w' where run: "uploadNewVersion id (sample_vp ''secret'' ''hard'') ''secret'' 1 upload_world = (r, w')"
    by fastforce
  have "map_sum id ur_Version (fst (uploadNewVersion id (sample_vp ''secret'' ''hard'') ''secret'' 1 upload_world)) = Inr 2"
    by code_simp
  then obtain res where r: "r = Inr res" "ur_Version res = 2" unfolding run by (auto simp: map_sum_Inr)
  have "max_version 2 (db upload_world) < max_int4" "map_option p_ID (find_problem ''secret'' (db upload_world)) = Some 2"
    "itoa 2 = ''2''" by code_simp+
  then obtain p where "find_problem ''secret'' (db upload_world) = Some p" "p_ID p = 2" by auto
  with new_version_published [OF upload_world_inv run [unfolded r(1)]] r run \<open>max_version 2 (db upload_world) < max_int4\<close> \<open>itoa 2 = ''2''\<close>
  show ?thesis by fastforce
qed

text \<open>
  Validation does not look at the difficulty, and the schema does: a problem that passed every
  check of the validator can be refused by the database in the middle of the upload.
\<close>

lemma difficulty_unchecked:
  "let vp = sample_vp '''' ''insane'' in
   well_formed vp \<and> validateManifest (vp_Manifest vp) = Inr () \<and>
   fst (UploadProblem ascii_unicode id vp 1 ''private'' upload_world) =
     Inl (ErrWrap ''create problem version'' (PgError ''23514'' ''problem_versions_difficulty_check''))"
  by code_simp

text \<open>
  The hash of a directory does not identify it: names and contents are written one after the
  other without their lengths, so a directory with two files and a directory with one file can
  have the same hash, for every hash function.
\<close>

lemma hash_ambiguous:
  "let one = \<lparr>f_nodes = [(''/d'', Dir), (''/d/a'', File (''b'' @ [newline] @ ''x''))], f_bad = []\<rparr>;
       two = \<lparr>f_nodes = [(''/d'', Dir), (''/d/a'', File ''''), (''/d/b'', File ''x'')], f_bad = []\<rparr> in
   dirSHA256 sha256 one ''/d'' = dirSHA256 sha256 two ''/d'' \<and> dirSHA256 sha256 one ''/d'' = Inr (sha256 (''a'' @ [newline] @ ''b'' @ [newline] @ ''x''))"
proof -
  have "hash_input \<lparr>f_nodes = [(''/d'', Dir), (''/d/a'', File (''b'' @ [newline] @ ''x''))], f_bad = []\<rparr> ''/d'' [''a''] =
      Inr (''a'' @ [newline] @ ''b'' @ [newline] @ ''x'')"
    "hash_input \<lparr>f_nodes = [(''/d'', Dir), (''/d/a'', File ''''), (''/d/b'', File ''x'')], f_bad = []\<rparr> ''/d'' [''a'', ''b''] =
      Inr (''a'' @ [newline] @ ''b'' @ [newline] @ ''x'')"
    "walk_files \<lparr>f_nodes = [(''/d'', Dir), (''/d/a'', File (''b'' @ [newline] @ ''x''))], f_bad = []\<rparr> ''/d'' = [''a'']"
    "walk_files \<lparr>f_nodes = [(''/d'', Dir), (''/d/a'', File ''''), (''/d/b'', File ''x'')], f_bad = []\<rparr> ''/d'' = [''a'', ''b'']"
    by code_simp+
  then show ?thesis by (simp add: dirSHA256_def Let_def andThen_def Stat_def)
qed

end
