(* ===== verification/Seeder.thy ===== *)
theory Seeder
  imports Uploader
begin

text \<open>
  \<^verbatim>\<open>internal/problems/seeder.go\<close>: entering the problems found in the store directory into the
  catalogue at start-up. The directory is scanned once per slug; a slug that already has a current
  version is left alone, so running the seeder again changes nothing.
\<close>

section \<open>Versions\<close>

definition digits_value :: "string \<Rightarrow> nat" where
  "digits_value s = foldl (\<lambda>n c. 10 * n + (of_char c - 48)) 0 s"

text \<open>\<^verbatim>\<open>strconv.Atoi\<close>: an optional sign, at least one digit, and a value of 64 bits.\<close>

definition Atoi :: "string \<Rightarrow> int option" where
  "Atoi s =
     (let neg = (s \<noteq> [] \<and> hd s = CHR ''-''); ds = (if s \<noteq> [] \<and> hd s \<in> set ''+-'' then tl s else s);
          n = (if neg then - int (digits_value ds) else int (digits_value ds)) in
      if ds = [] \<or> \<not> list_all is_digit ds then None
      else if n < - 9223372036854775808 \<or> 9223372036854775807 < n then None
      else Some n)"

definition TrimPrefix :: "string \<Rightarrow> string \<Rightarrow> string" where
  "TrimPrefix s p = (if HasPrefix s p then drop (length p) s else s)"

definition versionStrToInt :: "string \<Rightarrow> int" where
  "versionStrToInt v =
     (case Atoi (TrimPrefix v ''v'') of
        None \<Rightarrow> 1
      | Some n \<Rightarrow> if n \<le> 0 then 1 else n)"

text \<open>\<^verbatim>\<open>sort.Slice\<close> is an insertion sort, hence stable, for the directory sizes that occur here.\<close>

definition latestVersionDir :: "filesystem \<Rightarrow> string \<Rightarrow> err + string" where
  "latestVersionDir fs slugDir =
     andThen (wrap ''reading slug dir'' (ReadDir fs slugDir)) (\<lambda>entries.
     let versions = map fst (filter (\<lambda>(name, isDir). isDir \<and> HasPrefix name ''v'') entries) in
     if versions = [] then Inl (ErrText (''no version directories found in '' @ slugDir))
     else Inr (last (sort_key versionStrToInt versions)))"

fun first_language :: "(string \<times> bool) list \<Rightarrow> string option" where
  "first_language [] = None"
| "first_language ((name, isDir) # es) =
     (if isDir then first_language es
      else case extToLang (ToLower (Ext name)) of
        Some lang \<Rightarrow> Some lang
      | None \<Rightarrow> first_language es)"

definition detectReferenceLanguage :: "filesystem \<Rightarrow> string \<Rightarrow> err + string" where
  "detectReferenceLanguage fs refDir =
     andThen (wrap ''reading reference dir'' (ReadDir fs refDir)) (\<lambda>entries.
     case first_language entries of
       Some lang \<Rightarrow> Inr lang
     | None \<Rightarrow> Inl (ErrText (''no supported reference solution found in '' @ refDir)))"

section \<open>Seeding\<close>

record insertProblemArgs =
  ip_slug :: string
  ip_catalogID :: int
  ip_catalogExists :: bool
  ip_problem :: Problem
  ip_artifactPath :: string
  ip_sha :: string
  ip_refLang :: string
  ip_version :: int

definition seeded_version :: "insertProblemArgs \<Rightarrow> int \<Rightarrow> version_params" where
  "seeded_version args catalogID =
     \<lparr>vp_ProblemID = catalogID, vp_Version = int32 (ip_version args), vp_ArtifactPath = ip_artifactPath args,
      vp_ArtifactSha256 = ip_sha args,
      vp_LimitsTimeMs = int32 (m_TimeLimitMs (pr_Manifest (ip_problem args))),
      vp_LimitsMemoryKb = int32 (m_MemoryLimitMb (pr_Manifest (ip_problem args)) * 1024),
      vp_CheckerType = ''diff'', vp_ReferenceLanguage = ip_refLang args, vp_CreatedByUserID = None,
      vp_TestCaseCount = int32 (int (length (pr_TestCases (ip_problem args)))),
      vp_Difficulty = m_Difficulty (pr_Manifest (ip_problem args))\<rparr>"

definition insertProblemBody :: "insertProblemArgs \<Rightarrow> ('z, unit) op" where
  "insertProblemBody args =
     bindE (if ip_catalogExists args then ret (ip_catalogID args)
            else bindE (mapErr (ErrWrap ''create problem catalog'')
                   (qCreateProblemCatalog (ip_slug args) None ''public'' ''published''
                      (m_Title (pr_Manifest (ip_problem args))))) (\<lambda>newCatalog. ret (p_ID newCatalog))) (\<lambda>catalogID.
     bindE (mapErr (ErrWrap ''create problem version'')
              (qCreateProblemVersion (seeded_version args catalogID))) (\<lambda>pv.
     mapErr (ErrWrap ''set current version'')
       (qSetProblemCurrentVersion catalogID (Some (pv_ID pv)))))"

definition insertProblemTx :: "insertProblemArgs \<Rightarrow> ('z, unit) op" where
  "insertProblemTx args = in_tx (insertProblemBody args)"

definition on_dir :: "(filesystem \<Rightarrow> string \<Rightarrow> err + 'a) \<Rightarrow> string list \<Rightarrow> ('z fs_world_scheme, err, 'a) sem" where
  "on_dir f elems = (\<lambda>w. from_result (f (files w) (JoinPath (baseDir w # elems))) w)"

text \<open>The rest of \<^verbatim>\<open>seedSlug\<close> for a slug without a current version; \<open>found\<close> is its catalogue row, if any.\<close>

definition seedFrom ::
  "(string \<Rightarrow> err + Manifest) \<Rightarrow> (string \<Rightarrow> string) \<Rightarrow> string \<Rightarrow> int option \<Rightarrow> ('z fs_world_scheme, err, unit) sem" where
  "seedFrom unmarshal sha256 slug found =
     bindE (on_dir latestVersionDir [slug]) (\<lambda>latestVersion.
     let artifactPath = slug @ ''/'' @ latestVersion in
     bindE (mapErr (ErrWrap ''loading problem'') (GetByPath unmarshal artifactPath)) (\<lambda>problem.
     bindE (mapErr (ErrWrap ''computing sha256'') (on_dir (dirSHA256 sha256) [slug, latestVersion])) (\<lambda>sha.
     bindE (mapErr (ErrWrap ''detecting reference language'')
              (on_dir detectReferenceLanguage [slug, latestVersion, ''reference''])) (\<lambda>refLang.
     insertProblemTx
       \<lparr>ip_slug = slug, ip_catalogID = (case found of None \<Rightarrow> 0 | Some i \<Rightarrow> i), ip_catalogExists = (found \<noteq> None),
        ip_problem = problem, ip_artifactPath = artifactPath, ip_sha = sha, ip_refLang = refLang,
        ip_version = versionStrToInt latestVersion\<rparr>))))"

definition seedSlug ::
  "(string \<Rightarrow> err + Manifest) \<Rightarrow> (string \<Rightarrow> string) \<Rightarrow> string \<Rightarrow> ('z fs_world_scheme, err, unit) sem" where
  "seedSlug unmarshal sha256 slug =
     tryE (qGetProblemCatalogBySlug slug) (\<lambda>lookup.
     case lookup of
       Inl e \<Rightarrow> if \<not> errors_is e ErrNoRows then throw e else seedFrom unmarshal sha256 slug None
     | Inr catalog \<Rightarrow>
         if p_CurrentVersionID catalog \<noteq> None then ret ()
         else seedFrom unmarshal sha256 slug (Some (p_ID catalog)))"

definition SeedBuiltins ::
  "(string \<Rightarrow> err + Manifest) \<Rightarrow> (string \<Rightarrow> string) \<Rightarrow> ('z fs_world_scheme, err, unit) sem" where
  "SeedBuiltins unmarshal sha256 = (\<lambda>w.
     bindE (from_result (wrap ''reading problems dir'' (ReadDir (files w) (baseDir w)))) (\<lambda>slugEntries.
     forE slugEntries (\<lambda>(slug, isDir).
       if \<not> isDir then ret ()
       else mapErr (ErrWrap (''seeding '' @ slug)) (seedSlug unmarshal sha256 slug))) w)"

section \<open>Facts\<close>

lemma versionStrToInt_pos: "1 \<le> versionStrToInt v"
  by (auto simp: versionStrToInt_def split: option.split)

lemma last_sort_key_max: "x \<in> set xs \<Longrightarrow> f x \<le> f (last (sort_key f xs))"
proof -
  assume x: "x \<in> set xs"
  let ?s = "sort_key f xs"
  from x have mem: "x \<in> set ?s" by simp
  have "sorted (map f ?s)" by simp
  moreover obtain ys y where split: "?s = ys @ [y]" using mem by (cases ?s rule: rev_cases) auto
  ultimately have "\<forall>z \<in> set ys. f z \<le> f y" by (simp add: sorted_append)
  with mem split show ?thesis by auto
qed

lemma latestVersionDir_Inr:
  assumes "latestVersionDir fs dir = Inr v"
  shows "\<exists>es. ReadDir fs dir = Inr es \<and> (v, True) \<in> set es \<and> HasPrefix v ''v'' \<and>
    (\<forall>x. (x, True) \<in> set es \<longrightarrow> HasPrefix x ''v'' \<longrightarrow> versionStrToInt x \<le> versionStrToInt v)"
proof -
  from assms obtain es where es: "ReadDir fs dir = Inr es"
    and v: "v = last (sort_key versionStrToInt (map fst (filter (\<lambda>(name, isDir). isDir \<and> HasPrefix name ''v'') es)))"
    and ne: "map fst (filter (\<lambda>(name, isDir). isDir \<and> HasPrefix name ''v'') es) \<noteq> []"
    by (auto simp: latestVersionDir_def success Let_def split: if_splits)
  let ?vs = "map fst (filter (\<lambda>(name, isDir). isDir \<and> HasPrefix name ''v'') es)"
  have "sort_key versionStrToInt ?vs \<noteq> []" using ne by (metis length_0_conv length_sort)
  then have "v \<in> set ?vs" unfolding v by (metis last_in_set set_sort)
  moreover have "versionStrToInt x \<le> versionStrToInt v" if "(x, True) \<in> set es" "HasPrefix x ''v''" for x
    unfolding v by (rule last_sort_key_max) (use that in force)
  ultimately show ?thesis using es by auto
qed

lemma insertProblemBody_steps:
  assumes "insertProblemBody args w = (Inr x, w')"
  shows "catalog_step\<^sup>*\<^sup>* (db w) (db w')"
proof -
  from assms obtain i v w1 w2 where
    first: "(ip_catalogExists args \<and> db w1 = db w) \<or> catalog_step (db w) (db w1)"
    and v: "qCreateProblemVersion (seeded_version args i) w1 = (Inr v, w2)"
    and cur: "qSetProblemCurrentVersion i (Some (pv_ID v)) w2 = (Inr x, w')"
    by (fastforce simp: insertProblemBody_def success dest!: create_problem_step split: if_splits)
  have "catalog_step (db w1) (db w')"
    by (rule conjunct1 [OF create_version_step [OF v]]) (use cur in \<open>simp_all add: seeded_version_def\<close>)
  with first show ?thesis by (metis converse_rtranclp_into_rtranclp r_into_rtranclp)
qed

lemma keeps_db_on_dir [keeps_intro]: "keeps_db I (on_dir f es)"
  by (auto simp: keeps_def on_dir_def from_result_def ret_def throw_def split: sum.split)

lemma seedSlug_steps [keeps_intro]: "keeps_db (steps_from d0) (seedSlug unmarshal sha256 slug)"
  unfolding seedSlug_def seedFrom_def insertProblemTx_def qGetProblemCatalogBySlug_def Let_def
  by (intro keeps_intro keeps_in_tx) (auto dest!: insertProblemBody_steps)

lemma SeedBuiltins_steps: "keeps_db (steps_from d0) (SeedBuiltins unmarshal sha256)"
proof -
  have loop: "keeps_db (steps_from d0) (bindE (from_result r) (\<lambda>slugEntries.
     forE slugEntries (\<lambda>(slug, isDir).
       if \<not> isDir then ret ()
       else mapErr (ErrWrap (''seeding '' @ slug)) (seedSlug unmarshal sha256 slug))))" for r
    by (intro keeps_intro)
  show ?thesis using loop unfolding SeedBuiltins_def keeps_def by blast
qed

end
