(* ===== verification/Problem_Service.thy ===== *)
theory Problem_Service
  imports Seeder Game_Props
begin

text \<open>
  \<^verbatim>\<open>internal/service/problem_service.go\<close>: listing, reading, publishing and uploading problems, with
  the visibility rules, the ownership checks and the limits per user and per problem. \<^verbatim>\<open>ILIKE\<close> is the
  argument \<open>ilike\<close> of the two listings.
\<close>

section \<open>The service\<close>

record ProblemMeta =
  pm_Slug :: string
  pm_Title :: string
  pm_Difficulty :: string
  pm_TimeLimitMs :: int
  pm_MemoryLimitMb :: int
  pm_TestCaseCount :: int

definition ListProblems ::
  "(string \<Rightarrow> string \<Rightarrow> bool) \<Rightarrow> string \<Rightarrow> int \<Rightarrow> int \<Rightarrow> ('z, ProblemMeta list \<times> int) op" where
  "ListProblems ilike q limit offset =
     bindE (qCountPublicProblems ilike q) (\<lambda>total.
     bindE (qListPublicProblemsSearch ilike (int32 limit) (int32 offset) q) (\<lambda>rows.
     ret (map (\<lambda>(p, v). \<lparr>pm_Slug = p_Slug p, pm_Title = p_Title p, pm_Difficulty = pv_Difficulty v,
                pm_TimeLimitMs = pv_LimitsTimeMs v, pm_MemoryLimitMb = pv_LimitsMemoryKb v div 1024,
                pm_TestCaseCount = pv_TestCaseCount v\<rparr>) rows, total)))"

definition GetProblem ::
  "(string \<Rightarrow> err + Manifest) \<Rightarrow> string \<Rightarrow> uuid \<Rightarrow> ('z fs_world_scheme, err, Problem) sem" where
  "GetProblem unmarshal slug requesterID =
     bindE (mapErr (no_rows_to (New ErrProblemNotFound ''problem not found''))
              (qGetProblemCatalogBySlug slug)) (\<lambda>catalog.
     if p_Status catalog \<noteq> ''published'' then throw (New ErrProblemNotFound ''problem not found'')
     else if p_Visibility catalog = ''private'' \<and> p_OwnerUserID catalog \<noteq> Some requesterID
       then throw (New ErrProblemNotFound ''problem not found'')
     else if p_CurrentVersionID catalog = None
       then throw (New ErrProblemNotFound ''problem has no published version'')
     else
       bindE (mapErr (\<lambda>_. New ErrProblemNotFound ''problem not found'')
                (qGetProblemWithArtifactBySlug slug)) (\<lambda>(row, artifactPath).
       GetByPath unmarshal artifactPath))"

record MyProblemRow =
  my_Slug :: string
  my_Title :: string
  my_Visibility :: string
  my_Status :: string
  my_Version :: "int option"

definition ListMyProblems ::
  "(string \<Rightarrow> string \<Rightarrow> bool) \<Rightarrow> uuid \<Rightarrow> string \<Rightarrow> ('z, MyProblemRow list) op" where
  "ListMyProblems ilike ownerID q =
     bindE (qListMyProblems ilike ownerID q) (\<lambda>rows.
     ret (map (\<lambda>(p, v). \<lparr>my_Slug = p_Slug p, my_Title = p_Title p, my_Visibility = p_Visibility p,
                my_Status = p_Status p, my_Version = map_option pv_Version v\<rparr>) rows))"

definition UpdateVisibility :: "string \<Rightarrow> uuid \<Rightarrow> string \<Rightarrow> ('z, unit) op" where
  "UpdateVisibility slug requesterID visibility =
     bindE (mapErr (no_rows_to (New ErrProblemNotFound ''problem not found''))
              (qGetProblemCatalogBySlug slug)) (\<lambda>catalog.
     if p_OwnerUserID catalog \<noteq> Some requesterID
     then throw (New ErrNotProblemOwner ''not the owner of this problem'')
     else qUpdateProblemVisibility (p_ID catalog) visibility)"

text \<open>The loop of \<^verbatim>\<open>ValidateUploadBatch\<close>: it counts the new problems and checks every new version.\<close>

fun batchLoop :: "uuid \<Rightarrow> ValidatedProblem list \<Rightarrow> int \<Rightarrow> ('z, int) op" where
  "batchLoop ownerID [] newProblemCount = ret newProblemCount"
| "batchLoop ownerID (vp # validated) newProblemCount =
     (let slug = m_Slug (vp_Manifest vp) in
      if slug = '''' then batchLoop ownerID validated (newProblemCount + 1)
      else
        bindE (mapErr (no_rows_to (New ErrProblemNotFound (''problem '' @ slug @ '' not found'')))
                 (qGetProblemCatalogBySlug slug)) (\<lambda>catalog.
        case p_OwnerUserID catalog of
          None \<Rightarrow> throw (New ErrNotProblemOwner (''built-in problem '' @ slug @ '' cannot be updated via upload''))
        | Some owner \<Rightarrow>
            if owner \<noteq> ownerID then throw (New ErrNotProblemOwner (''not the owner of problem '' @ slug))
            else
              bindE (qCountProblemVersions (p_ID catalog)) (\<lambda>cnt.
              if cnt \<ge> MaxVersionsPerProblem
              then throw (New ErrVersionLimitReached (''problem '' @ slug @ '' has reached the version limit''))
              else batchLoop ownerID validated newProblemCount)))"

definition ValidateUploadBatch :: "ValidatedProblem list \<Rightarrow> uuid \<Rightarrow> ('z, unit) op" where
  "ValidateUploadBatch validated ownerID =
     bindE (batchLoop ownerID validated 0) (\<lambda>newProblemCount.
     if newProblemCount > 0
     then bindE (qCountUserProblems ownerID) (\<lambda>existing.
       if existing + newProblemCount > MaxProblemsPerUser
       then throw (New ErrProblemLimitReached ''upload would exceed the maximum of 20 problems per user'')
       else ret ())
     else ret ())"

definition UploadNewVersionAs ::
  "(string \<Rightarrow> string) \<Rightarrow> ValidatedProblem \<Rightarrow> string \<Rightarrow> uuid \<Rightarrow> ('z fs_world_scheme, err, UploadResult) sem" where
  "UploadNewVersionAs sha256 validated slug ownerID =
     bindE (mapErr (no_rows_to (New ErrProblemNotFound ''problem not found''))
              (qGetProblemCatalogBySlug slug)) (\<lambda>catalog.
     case p_OwnerUserID catalog of
       None \<Rightarrow> throw (New ErrNotProblemOwner ''built-in problems cannot be updated via upload'')
     | Some owner \<Rightarrow>
         if owner \<noteq> ownerID then throw (New ErrNotProblemOwner ''not the owner of this problem'')
         else
           bindE (qCountProblemVersions (p_ID catalog)) (\<lambda>cnt.
           if cnt \<ge> MaxVersionsPerProblem
           then throw (New ErrVersionLimitReached ''version limit reached'')
           else UploadNewVersion sha256 validated slug ownerID))"

section \<open>What the operations do to the catalogue\<close>

text \<open>The calls that change the catalogue.\<close>

datatype problem_call =
  CallUpload ValidatedProblem uuid string
| CallNewVersion ValidatedProblem string uuid
| CallVisibility string uuid string
| CallSeed

fun run_problem_call ::
  "(string \<Rightarrow> err + Manifest) \<Rightarrow> unicode \<Rightarrow> (string \<Rightarrow> string) \<Rightarrow> problem_call \<Rightarrow> ('z fs_world_scheme, err, unit) sem" where
  "run_problem_call unmarshal uni sha256 (CallUpload vp u vis) =
     bindE (UploadProblem uni sha256 vp u vis) (\<lambda>_. ret ())"
| "run_problem_call unmarshal uni sha256 (CallNewVersion vp slug u) =
     bindE (UploadNewVersionAs sha256 vp slug u) (\<lambda>_. ret ())"
| "run_problem_call unmarshal uni sha256 (CallVisibility slug u vis) = UpdateVisibility slug u vis"
| "run_problem_call unmarshal uni sha256 CallSeed = SeedBuiltins unmarshal sha256"

lemma UpdateProblemVisibility_steps [keeps_intro]: "keeps_db (steps_from d0) (qUpdateProblemVisibility i vis)"
proof -
  have none: "set_visibility i vis t d = d" if "find_problem_id i d = None" for t d
    using that unfolding set_visibility_def find_problem_id_def upd_where_def
    by (simp add: find_None_iff map_idI)
  have "steps_from d0 d'" if "steps_from d0 d" "\<not> (find_problem_id i d \<noteq> None \<and> vis \<notin> {''public'', ''unlisted'', ''private''})"
      "d' = set_visibility i vis t d" for t d d'
  proof (cases "find_problem_id i d = None")
    case False
    with that have "catalog_step d d'" by (auto intro!: new_visibility)
    with that(1) show ?thesis by (rule rtranclp.rtrancl_into_rtrancl)
  qed (use that none in simp)
  then show ?thesis
    unfolding qUpdateProblemVisibility_def
    by (intro keeps_writes) (auto simp: set_visibility_def split: if_splits)
qed

lemma UploadNewVersionAs_steps [keeps_intro]: "keeps_db (steps_from d0) (UploadNewVersionAs sha256 vp slug u)"
  unfolding UploadNewVersionAs_def UploadNewVersion_def qGetProblemCatalogBySlug_def qCountProblemVersions_def
  by (intro keeps_intro)

lemma UpdateVisibility_steps [keeps_intro]: "keeps_db (steps_from d0) (UpdateVisibility slug u vis)"
  unfolding UpdateVisibility_def qGetProblemCatalogBySlug_def
  by (intro keeps_intro)

lemma run_problem_call_steps:
  assumes "run_problem_call unmarshal uni sha256 c w = (r, w')"
  shows "catalog_step\<^sup>*\<^sup>* (db w) (db w')"
proof -
  have "keeps_db (steps_from d0) (run_problem_call unmarshal uni sha256 c)" for d0
    by (cases c) (auto intro: keeps_intro SeedBuiltins_steps)
  from keepsD [OF this _ assms] show ?thesis by simp
qed

text \<open>The game tables refer to versions, which are never lost.\<close>

interpretation game_tables: catalog_law games_inv
proof
  fix d d' assume "catalog_step d d'" "games_inv d"
  then show "games_inv d'"
  proof cases
    case (new_version p v t)
    with \<open>games_inv d\<close> show ?thesis
      by (auto simp: games_inv_def keys_ok_def refs_ok_def lobbies_ok_def players_def problem_indices_def
          game_exists_def user_exists_def version_exists_def set_current_def)
  qed (use \<open>games_inv d\<close> in \<open>auto simp: games_inv_def keys_ok_def refs_ok_def lobbies_ok_def players_def
      problem_indices_def game_exists_def user_exists_def version_exists_def set_visibility_def\<close>)
qed

section \<open>Limits\<close>

definition owned :: "uuid \<Rightarrow> database \<Rightarrow> int" where
  "owned u d = count_where (\<lambda>p. p_OwnerUserID p = Some u) (d_problems d)"

lemma owned_set_current [simp]: "owned u (set_current i v t d) = owned u d"
  by (simp add: owned_def set_current_def count_where_upd_where)

lemma owned_versions [simp]: "owned u (d\<lparr>d_versions := vs\<rparr>) = owned u d"
  by (simp add: owned_def)

definition is_new :: "ValidatedProblem \<Rightarrow> bool" where
  "is_new vp \<longleftrightarrow> m_Slug (vp_Manifest vp) = ''''"

lemma UploadProblem_owned:
  assumes "UploadProblem uni sha256 vp u vis w = (r, w')"
  shows "owned u (db w') \<le> owned u (db w) + (if is_new vp then 1 else 0)"
proof -
  have old: "keeps_db (\<lambda>d. owned u d = n) (uploadNewVersion sha256 vp slug u)" for n slug
    unfolding uploadNewVersion_def qGetProblemCatalogBySlug_def
    by (intro keeps_intro keeps_in_tx) (auto dest!: newVersionTx_Inr)
  let ?n = "owned u (db w)"
  have slug: "keeps_db I (generateSlug uni t)" for I t
    unfolding generateSlug_def Let_def by (intro keeps_intro)
  have tx: "wp (in_tx (newProblemTx vp s a sha u vis)) (\<lambda>_ w'. owned u (db w') \<le> ?n + 1) v" if "owned u (db v) = ?n" for v s a sha
    by (rule wp_in_tx) (use that in \<open>auto dest!: newProblemTx_Inr simp: owned_def set_current_def count_where_upd_where\<close>)
  have pub: "keeps_db I (bindE (publish vp a) k)" if "\<And>x. keeps_db I (k x)" for I a k
    using that by (intro keeps_intro)
  show ?thesis
  proof (cases "is_new vp")
    case False
    with assms have "uploadNewVersion sha256 vp (m_Slug (vp_Manifest vp)) u w = (r, w')"
      by (simp add: UploadProblem_def is_new_def)
    from keepsD [OF old [of ?n] refl this] False show ?thesis by simp
  next
    case True
    have "wp (UploadProblem uni sha256 vp u vis) (\<lambda>_ w'. owned u (db w') \<le> ?n + 1) w"
    proof -
      have "wp (bindE (generateSlug uni (m_Title (vp_Manifest vp))) (\<lambda>slug.
          bindE (hash_of sha256 (vp_Dir vp)) (\<lambda>sha.
          bindE (in_tx (newProblemTx vp slug (slug @ ''/v1'') sha u vis)) (\<lambda>_.
          bindE (publish vp (slug @ ''/v1'')) (\<lambda>_.
          ret \<lparr>ur_Slug = slug, ur_Title = m_Title (vp_Manifest vp), ur_Version = 1\<rparr>)))))
          (\<lambda>_ w'. owned u (db w') \<le> ?n + 1) w"
        by (intro wp_bind_after [where I = "\<lambda>d. owned u d = ?n"] wp_bind_keeps tx slug pub keeps_intro)
           (auto intro: keeps_intro)
      with True show ?thesis by (simp add: UploadProblem_def is_new_def Let_def)
    qed
    with True assms show ?thesis by (auto dest: wpD)
  qed
qed


text \<open>The upload handler: the batch is checked, and then its problems are uploaded one by one.\<close>

fun uploadLoop ::
  "unicode \<Rightarrow> (string \<Rightarrow> string) \<Rightarrow> uuid \<Rightarrow> string \<Rightarrow> ValidatedProblem list \<Rightarrow>
   ('z fs_world_scheme, err, UploadResult list) sem" where
  "uploadLoop uni sha256 userID visibility [] = ret []"
| "uploadLoop uni sha256 userID visibility (vp # validated) =
     bindE (UploadProblem uni sha256 vp userID visibility) (\<lambda>res.
     bindE (uploadLoop uni sha256 userID visibility validated) (\<lambda>results.
     ret (res # results)))"

definition uploadBatch ::
  "unicode \<Rightarrow> (string \<Rightarrow> string) \<Rightarrow> uuid \<Rightarrow> string \<Rightarrow> ValidatedProblem list \<Rightarrow>
   ('z fs_world_scheme, err, UploadResult list) sem" where
  "uploadBatch uni sha256 userID visibility validated =
     bindE (ValidateUploadBatch validated userID) (\<lambda>_.
     uploadLoop uni sha256 userID visibility validated)"

definition new_problems :: "ValidatedProblem list \<Rightarrow> int" where
  "new_problems vps = int (length (filter is_new vps))"

lemma new_problems_simps [simp]:
  "new_problems [] = 0" "new_problems (vp # vps) = (if is_new vp then 1 else 0) + new_problems vps"
  by (simp_all add: new_problems_def)

lemma uploadLoop_owned:
  "uploadLoop uni sha256 u vis vps w = (r, w') \<Longrightarrow> owned u (db w') \<le> owned u (db w) + new_problems vps"
proof (induction vps arbitrary: w r w')
  case (Cons vp vps)
  obtain s w1 where up: "UploadProblem uni sha256 vp u vis w = (s, w1)" by fastforce
  note first = UploadProblem_owned [OF up]
  obtain t w2 where rest: "uploadLoop uni sha256 u vis vps w1 = (t, w2)" by fastforce
  from Cons.prems up rest have "w' = w1 \<or> w' = w2"
    by (auto simp: bindE_def ret_def split: sum.splits)
  moreover have "0 \<le> new_problems vps" by (simp add: new_problems_def)
  ultimately show ?case using first Cons.IH [OF rest] by auto
qed (simp add: ret_def)

lemma batchLoop_frame: "keeps_db I (batchLoop u vps n)"
proof (induction vps arbitrary: n)
  case (Cons vp vps)
  then show ?case
    by (auto simp: Let_def qGetProblemCatalogBySlug_def qCountProblemVersions_def intro!: keeps_intro
        split: option.split)
qed (simp add: keeps_ret)

definition may_add_version :: "uuid \<Rightarrow> string \<Rightarrow> database \<Rightarrow> bool" where
  "may_add_version u slug d \<longleftrightarrow>
     (case find_problem slug d of
        None \<Rightarrow> False
      | Some p \<Rightarrow> p_OwnerUserID p = Some u \<and>
          count_where (\<lambda>v. pv_ProblemID v = p_ID p) (d_versions d) < MaxVersionsPerProblem)"

lemma batchLoop_Inr:
  "batchLoop u vps n w = (Inr m, w') \<Longrightarrow> m = n + new_problems vps \<and>
     (\<forall>vp \<in> set vps. is_new vp \<or> may_add_version u (m_Slug (vp_Manifest vp)) (db w))"
proof (induction vps arbitrary: n w)
  case (Cons vp vps)
  show ?case
  proof (cases "is_new vp")
    case True
    with Cons.prems have "batchLoop u vps (n + 1) w = (Inr m, w')" by (simp add: is_new_def)
    from Cons.IH [OF this] True show ?thesis by simp
  next
    case False
    with Cons.prems obtain w1 where
      "batchLoop u vps n w1 = (Inr m, w')" "db w1 = db w" "may_add_version u (m_Slug (vp_Manifest vp)) (db w)"
      by (auto simp: is_new_def Let_def qGetProblemCatalogBySlug_def qCountProblemVersions_def success
          may_add_version_def split: option.splits if_splits)
    with Cons.IH [OF this(1)] False show ?thesis by simp
  qed
qed (simp add: success)

lemma ValidateUploadBatch_Inr:
  assumes "ValidateUploadBatch vps u w = (Inr x, w')"
  shows "(new_problems vps = 0 \<or> owned u (db w) + new_problems vps \<le> MaxProblemsPerUser) \<and>
    (\<forall>vp \<in> set vps. is_new vp \<or> may_add_version u (m_Slug (vp_Manifest vp)) (db w)) \<and> db w' = db w"
proof -
  from assms obtain m w1 where loop: "batchLoop u vps 0 w = (Inr m, w1)"
    and rest: "(if m > 0
       then bindE (qCountUserProblems u) (\<lambda>existing.
         if existing + m > MaxProblemsPerUser
         then throw (New ErrProblemLimitReached ''upload would exceed the maximum of 20 problems per user'')
         else ret ())
       else ret ()) w1 = (Inr x, w')"
    unfolding ValidateUploadBatch_def bindE_Inr by blast
  have "db w1 = db w" using keepsD [OF batchLoop_frame [where I = "\<lambda>d. d = db w"] refl loop] .
  moreover note batchLoop_Inr [OF loop]
  moreover have "0 \<le> new_problems vps" by (simp add: new_problems_def)
  ultimately show ?thesis using rest
    by (auto simp: success qCountUserProblems_def owned_def split: if_splits)
qed

section \<open>Visibility\<close>

definition may_see :: "uuid \<Rightarrow> problem_row \<Rightarrow> bool" where
  "may_see u p \<longleftrightarrow> p_Status p = ''published'' \<and> (p_Visibility p \<noteq> ''private'' \<or> p_OwnerUserID p = Some u)"

lemma GetProblem_Inr:
  assumes "GetProblem unmarshal slug u w = (Inr pr, w')" and "cache_ok unmarshal w"
  shows "\<exists>p v. find_problem slug (db w) = Some p \<and> may_see u p \<and> p_CurrentVersionID p = Some (pv_ID v) \<and>
    v \<in> set (d_versions (db w)) \<and>
    loadProblemFromDir unmarshal (files w) (pv_ArtifactPath v) (JoinPath [baseDir w, pv_ArtifactPath v]) = Inr pr"
proof -
  let ?w = "w\<lparr>fpos := Suc (Suc (fpos w))\<rparr>"
  from assms(1) obtain p v where
    p: "find_problem slug (db w) = Some p" "may_see u p" "p_CurrentVersionID p = Some (pv_ID v)"
      "v \<in> set (d_versions (db w))"
    and get: "GetByPath unmarshal (pv_ArtifactPath v) ?w = (Inr pr, w')"
    by (auto simp: GetProblem_def qGetProblemCatalogBySlug_def qGetProblemWithArtifactBySlug_def success
        may_see_def bind_eq_Some_conv dest!: find_version_SomeD split: if_splits)
  have "cache_ok unmarshal ?w" using assms(2) by (simp add: cache_ok_def)
  from GetByPath_transparent [OF this get] p show ?thesis
    by (auto simp: wrap_def split: sum.splits)
qed

lemma ListProblems_Inr:
  assumes "ListProblems ilike q n off w = (Inr (ms, cnt), w')"
  shows "\<forall>m \<in> set ms. \<exists>p \<in> set (d_problems (db w)). p_Slug p = pm_Slug m \<and> public_listed p"
  using assms
  by (auto simp: ListProblems_def qCountPublicProblems_def qListPublicProblemsSearch_def success limit_offset_def
      with_current_version_def split: if_splits dest!: in_set_takeD in_set_dropD)

section \<open>Seeding again\<close>

definition seeded :: "string \<Rightarrow> database \<Rightarrow> bool" where
  "seeded slug d \<longleftrightarrow> (case find_problem slug d of None \<Rightarrow> False | Some p \<Rightarrow> p_CurrentVersionID p \<noteq> None)"

interpretation seeding: catalog_law "seeded slug" for slug
proof
  fix d d' assume "catalog_step d d'" "seeded slug d"
  then show "seeded slug d'"
    by cases (auto simp: seeded_def find_problem_def set_current_def set_visibility_def find_append find_upd_where
        split: option.splits)
qed

lemma insertProblem_seeded:
  assumes "insertProblemBody args w = (Inr x, w')"
    and "if ip_catalogExists args then map_option p_ID (find_problem (ip_slug args) (db w)) = Some (ip_catalogID args)
      else find_problem (ip_slug args) (db w) = None"
  shows "seeded (ip_slug args) (db w')"
proof -
  let ?s = "ip_slug args"
  have final: "seeded ?s (db w')"
    if found: "map_option p_ID (find_problem ?s (db v)) = Some i"
      and ver: "qCreateProblemVersion (seeded_version args i) v = (Inr pv, v1)"
      and cur: "qSetProblemCurrentVersion i (Some (pv_ID pv)) v1 = (Inr x, w')" for v v1 i pv
  proof -
    have "find_problem ?s (db v1) = find_problem ?s (db v)"
      using ver by (auto simp: qCreateProblemVersion_def success Let_def find_problem_def split: if_splits)
    with found obtain p where p: "find_problem ?s (db v1) = Some p" "p_ID p = i" by auto
    with cur show ?thesis
      by (auto simp: qSetProblemCurrentVersion_def success seeded_def find_problem_def find_upd_where split: if_splits)
  qed
  show ?thesis
  proof (cases "ip_catalogExists args")
    case True
    with assms show ?thesis by (auto simp: insertProblemBody_def success intro: final)
  next
    case False
    with assms obtain p v v1 pv where
      p: "qCreateProblemCatalog ?s None ''public'' ''published'' (m_Title (pr_Manifest (ip_problem args))) w = (Inr p, v)"
      and "qCreateProblemVersion (seeded_version args (p_ID p)) v = (Inr pv, v1)"
        "qSetProblemCurrentVersion (p_ID p) (Some (pv_ID pv)) v1 = (Inr x, w')"
      by (auto simp: insertProblemBody_def success)
    moreover from create_problem_step [OF p] False assms(2)
    have "map_option p_ID (find_problem ?s (db v)) = Some (p_ID p)"
      by (auto simp: find_problem_def find_append)
    ultimately show ?thesis by (intro final)
  qed
qed

definition same_files :: "filesystem \<Rightarrow> string \<Rightarrow> 'z fs_world_scheme \<Rightarrow> bool" where
  "same_files fs base w \<longleftrightarrow> files w = fs \<and> baseDir w = base"

lemma stable_files: "stable (same_files fs base)"
  by (simp add: stable_def same_files_def)

lemma keeps_files [keeps_intro]:
  "keeps (same_files fs base) (on_dir f es)" "keeps (same_files fs base) (GetByPath unmarshal a)"
  by (auto simp: keeps_def on_dir_def GetByPath_def same_files_def from_result_def ret_def throw_def
      split: sum.split option.split)

lemmas keeps_files_db [keeps_intro] = keeps_stable [OF stable_files] keeps_stable_in_tx [OF stable_files]

lemma keeps_files_seedSlug: "keeps (same_files fs base) (seedSlug unmarshal sha256 slug)"
  unfolding seedSlug_def seedFrom_def insertProblemTx_def insertProblemBody_def qGetProblemCatalogBySlug_def
    qCreateProblemCatalog_def qCreateProblemVersion_def qSetProblemCurrentVersion_def Let_def
  by (intro keeps_intro)


lemma lookup_cases:
  assumes "qGetProblemCatalogBySlug slug w = (r, w')"
  shows "db w' = db w \<and> (case r of
    Inr p \<Rightarrow> find_problem slug (db w) = Some p
  | Inl e \<Rightarrow> errors_is e ErrNoRows \<longrightarrow> find_problem slug (db w) = None)"
  using assms
  by (auto simp: qGetProblemCatalogBySlug_def reads_def roundtrip_def Let_def one_row_def
      split: fault.splits option.splits)

lemma seedFrom_seeded:
  assumes "seedFrom unmarshal sha256 slug found w = (Inr (), w')"
    and "map_option p_ID (find_problem slug (db w)) = found"
  shows "seeded slug (db w')"
proof -
  from assms(1) obtain ver w1 pr w2 sha w3 lang w4 where
    runs: "on_dir latestVersionDir [slug] w = (Inr ver, w1)"
      "GetByPath unmarshal (slug @ ''/'' @ ver) w1 = (Inr pr, w2)"
      "on_dir (dirSHA256 sha256) [slug, ver] w2 = (Inr sha, w3)"
      "on_dir detectReferenceLanguage [slug, ver, ''reference''] w3 = (Inr lang, w4)"
    and tx: "insertProblemTx \<lparr>ip_slug = slug, ip_catalogID = (case found of None \<Rightarrow> 0 | Some i \<Rightarrow> i),
        ip_catalogExists = (found \<noteq> None), ip_problem = pr, ip_artifactPath = slug @ ''/'' @ ver, ip_sha = sha,
        ip_refLang = lang, ip_version = versionStrToInt ver\<rparr> w4 = (Inr (), w')"
    unfolding seedFrom_def Let_def bindE_Inr mapErr_Inr by blast
  have same: "db w4 = db w"
    using runs keepsD [OF keeps_db_on_dir [where I = "\<lambda>d. d = db w"]]
      keepsD [OF keeps_db_GetByPath [where I = "\<lambda>d. d = db w"]] by metis
  from tx obtain w5 where "insertProblemBody \<lparr>ip_slug = slug, ip_catalogID = (case found of None \<Rightarrow> 0 | Some i \<Rightarrow> i),
        ip_catalogExists = (found \<noteq> None), ip_problem = pr, ip_artifactPath = slug @ ''/'' @ ver, ip_sha = sha,
        ip_refLang = lang, ip_version = versionStrToInt ver\<rparr> (w4\<lparr>fpos := Suc (fpos w4)\<rparr>) = (Inr (), w5)" "db w' = db w5"
    by (auto simp: insertProblemTx_def success)
  with insertProblem_seeded [OF this(1)] assms(2) same show ?thesis by (cases found) auto
qed

lemma seedSlug_seeded:
  assumes "seedSlug unmarshal sha256 slug w = (Inr (), w')"
  shows "seeded slug (db w')"
proof -
  obtain r w1 where look: "qGetProblemCatalogBySlug slug w = (r, w1)" by fastforce
  note found = lookup_cases [OF look]
  show ?thesis
  proof (cases r)
    case (Inl e)
    with assms look have "seedFrom unmarshal sha256 slug None w1 = (Inr (), w')" "errors_is e ErrNoRows"
      by (auto simp: seedSlug_def tryE_def throw_def split: if_splits)
    with found Inl seedFrom_seeded [of unmarshal sha256 slug None w1 w'] show ?thesis by auto
  next
    case (Inr p)
    show ?thesis
    proof (cases "p_CurrentVersionID p = None")
      case True
      with assms look Inr have "seedFrom unmarshal sha256 slug (Some (p_ID p)) w1 = (Inr (), w')"
        by (simp add: seedSlug_def tryE_def)
      with found Inr seedFrom_seeded [of unmarshal sha256 slug "Some (p_ID p)" w1 w'] show ?thesis by auto
    next
      case False
      with assms look Inr have "w' = w1" by (auto simp: seedSlug_def tryE_def ret_def)
      with found Inr False show ?thesis by (simp add: seeded_def)
    qed
  qed
qed

lemma seedSlug_again: "seeded slug (db w) \<Longrightarrow> seedSlug unmarshal sha256 slug w = (r, w') \<Longrightarrow> db w' = db w"
proof -
  assume seeded: "seeded slug (db w)" and run: "seedSlug unmarshal sha256 slug w = (r, w')"
  obtain s w1 where look: "qGetProblemCatalogBySlug slug w = (s, w1)" by fastforce
  from lookup_cases [OF look] look run seeded show ?thesis
    by (auto simp: seedSlug_def tryE_def throw_def ret_def seeded_def split: sum.splits option.splits if_splits)
qed

abbreviation seed_entry where
  "seed_entry unmarshal sha256 \<equiv> (\<lambda>(slug, isDir). if \<not> isDir then ret ()
     else mapErr (ErrWrap (''seeding '' @ slug)) (seedSlug unmarshal sha256 slug))"

lemma seed_loop_seeded:
  "forE es (seed_entry unmarshal sha256) w = (Inr (), w') \<Longrightarrow>
     (\<forall>slug. (slug, True) \<in> set es \<longrightarrow> seeded slug (db w')) \<and> same_files (files w) (baseDir w) w'"
proof (induction es arbitrary: w)
  case (Cons e es)
  obtain slug isDir where e: "e = (slug, isDir)" by fastforce
  from Cons.prems obtain w1 where first: "seed_entry unmarshal sha256 e w = (Inr (), w1)"
    and rest: "forE es (seed_entry unmarshal sha256) w1 = (Inr (), w')"
    by (auto simp: success)
  have files: "same_files (files w) (baseDir w) w1"
    using first keepsD [OF keeps_files_seedSlug, of "files w" "baseDir w" w unmarshal sha256 slug]
    by (auto simp: e success same_files_def split: if_splits)
  have "seeded slug (db w')" if isDir
  proof -
    have "seeded slug (db w1)" using first that by (auto simp: e success intro: seedSlug_seeded)
    moreover have "keeps_db (seeded slug) (forE es (seed_entry unmarshal sha256))"
    proof -
      have step: "keeps_db (seeded slug) (seedSlug unmarshal sha256 s)" for s
      proof (rule keepsI, rule wpI)
        fix v r v' assume "seeded slug (db v)" "seedSlug unmarshal sha256 s v = (r, v')"
        with keepsD [OF seedSlug_steps [of "db v"] _ this(2)] seeding.steps_keep show "seeded slug (db v')" by blast
      qed
      show ?thesis by (intro keeps_intro step)
    qed
    ultimately show ?thesis using rest by (auto dest: keepsD)
  qed
  with Cons.IH [OF rest] files e show ?case by (auto simp: same_files_def)
qed (simp add: success same_files_def)

lemma seed_loop_again:
  "(\<forall>slug. (slug, True) \<in> set es \<longrightarrow> seeded slug (db w)) \<Longrightarrow>
     forE es (seed_entry unmarshal sha256) w = (r, w') \<Longrightarrow> db w' = db w"
proof (induction es arbitrary: w r w')
  case (Cons e es)
  obtain slug isDir where e: "e = (slug, isDir)" by fastforce
  obtain s w1 where first: "seed_entry unmarshal sha256 e w = (s, w1)" by fastforce
  have "db w1 = db w"
  proof (cases isDir)
    case True
    with first e have "\<exists>s'. seedSlug unmarshal sha256 slug w = (s', w1)"
      by (auto simp: mapErr_def tryE_def ret_def throw_def split: prod.splits sum.splits)
    with seedSlug_again Cons.prems(1) True e show ?thesis by fastforce
  qed (use first e in \<open>simp add: ret_def\<close>)
  note same = this
  have "w' = w1 \<or> (\<exists>r. forE es (seed_entry unmarshal sha256) w1 = (r, w'))"
    using Cons.prems(2) first by (auto simp: bindE_def split: sum.splits)
  then show ?case
  proof
    assume "\<exists>r. forE es (seed_entry unmarshal sha256) w1 = (r, w')"
    then obtain r' where "forE es (seed_entry unmarshal sha256) w1 = (r', w')" by blast
    from Cons.IH [OF _ this] Cons.prems(1) same show ?thesis by simp
  qed (use same in simp)
qed (simp add: ret_def)


section \<open>Properties\<close>

text \<open>
  C23. Uploads, new versions, changes of visibility and seeding keep the tables consistent under
  every failure of the database and of the file system: identifiers, slugs and version numbers
  stay unique, a current version belongs to its problem, every version satisfies the checks of
  the schema, no problem or version is lost or changed except for its current version and
  visibility, and the game tables keep their own invariant.
\<close>

theorem catalog_invariant:
  assumes "catalog_inv (db w)" and "games_inv (db w)" and "run_problem_call unmarshal uni sha256 c w = (r, w')"
  shows "catalog_inv (db w') \<and> catalog_kept (db w) (db w') \<and> games_inv (db w')"
proof -
  note steps = run_problem_call_steps [OF assms(3)]
  have "catalog_kept (db w) (db w)" by (auto simp: catalog_kept_def same_problem_def)
  then show ?thesis
    using catalog.steps_keep [OF steps assms(1)] history.steps_keep [OF steps] game_tables.steps_keep [OF steps assms(2)]
    by blast
qed

theorem catalog_invariant_witness:
  "\<exists>w'. run_problem_call sample_unmarshal ascii_unicode id (CallUpload (sample_vp '''' ''easy'') 1 ''private'') upload_world = (Inr (), w') \<and>
     length (d_versions (db w')) = 3 \<and> catalog_inv (db w') \<and> games_inv (db w')"
proof -
  let ?m = "run_problem_call sample_unmarshal ascii_unicode id (CallUpload (sample_vp '''' ''easy'') 1 ''private'')"
  obtain r w' where run: "?m upload_world = (r, w')" by fastforce
  have "fst (?m upload_world) = Inr ()" "length (d_versions (db (snd (?m upload_world)))) = 3" by code_simp+
  then have "r = Inr ()" "length (d_versions (db w')) = 3" unfolding run by simp_all
  moreover have "catalog_inv (db upload_world)" "games_inv (db upload_world)" by code_simp+
  ultimately show ?thesis using catalog_invariant [OF _ _ run] run by blast
qed

text \<open>
  C24. Visibility: a problem is served only if it is published and public, unlisted or owned by the
  reader, and then as its current version; to anybody else a private problem answers exactly like
  a slug that does not exist; and listings show public, published problems only.
\<close>

theorem problem_visibility:
  assumes "cache_ok unmarshal w"
  shows "(\<forall>pr w'. GetProblem unmarshal slug u w = (Inr pr, w') \<longrightarrow>
      (\<exists>p v. find_problem slug (db w) = Some p \<and> may_see u p \<and> p_CurrentVersionID p = Some (pv_ID v) \<and>
         v \<in> set (d_versions (db w)) \<and>
         loadProblemFromDir unmarshal (files w) (pv_ArtifactPath v) (JoinPath [baseDir w, pv_ArtifactPath v]) = Inr pr)) \<and>
    (all_fine w \<longrightarrow> (\<forall>p. find_problem slug (db w) = Some p \<longrightarrow> \<not> may_see u p) \<longrightarrow>
      fst (GetProblem unmarshal slug u w) = Inl (New ErrProblemNotFound ''problem not found'')) \<and>
    (\<forall>ms cnt w'. ListProblems ilike q n off w = (Inr (ms, cnt), w') \<longrightarrow>
      (\<forall>m \<in> set ms. \<exists>p \<in> set (d_problems (db w)). p_Slug p = pm_Slug m \<and> public_listed p))"
proof -
  have "fst (GetProblem unmarshal slug u w) = Inl (New ErrProblemNotFound ''problem not found'')"
    if "all_fine w" "\<forall>p. find_problem slug (db w) = Some p \<longrightarrow> \<not> may_see u p"
    using that
    by (auto simp: GetProblem_def qGetProblemCatalogBySlug_def reads_def roundtrip_def all_fine_def Let_def
        mapErr_def tryE_def bindE_def throw_def ret_def may_see_def one_row_def split: option.splits)
  then show ?thesis using GetProblem_Inr [OF _ assms] ListProblems_Inr by blast
qed

theorem problem_visibility_witness:
  "fst (GetProblem sample_unmarshal ''secret'' 2 upload_world) = Inl (New ErrProblemNotFound ''problem not found'') \<and>
   fst (GetProblem sample_unmarshal ''no-such'' 2 upload_world) = Inl (New ErrProblemNotFound ''problem not found'') \<and>
   map_option p_Visibility (find_problem ''secret'' (db upload_world)) = Some ''private''"
proof -
  have ok: "cache_ok sample_unmarshal upload_world" "all_fine upload_world"
    by (simp_all add: cache_ok_def upload_world_def sample_exec_world_def sample_fs_world_def sample_world_def
        world.defs fs_world.defs all_fine_def)
  have found: "map_option (\<lambda>p. (may_see 2 p, p_Visibility p)) (find_problem ''secret'' (db upload_world)) = Some (False, ''private'')"
    "find_problem ''no-such'' (db upload_world) = None" by code_simp+
  then have "\<forall>p. find_problem ''secret'' (db upload_world) = Some p \<longrightarrow> \<not> may_see 2 p"
    "\<forall>p. find_problem ''no-such'' (db upload_world) = Some p \<longrightarrow> \<not> may_see 2 p"
    "map_option p_Visibility (find_problem ''secret'' (db upload_world)) = Some ''private''" by auto
  then show ?thesis
    using problem_visibility [OF ok(1), of "''secret''" 2] problem_visibility [OF ok(1), of "''no-such''" 2] ok(2)
    by blast
qed



text \<open>
  C26. Limits: handling an upload of any number of problems never brings a user above twenty problems,
  whatever fails in the middle, and an accepted batch adds versions only to problems of the user
  that have fewer than ten.
\<close>

theorem upload_limits:
  assumes "owned u (db w) \<le> MaxProblemsPerUser" and "uploadBatch uni sha256 u vis vps w = (r, w')"
  shows "owned u (db w') \<le> MaxProblemsPerUser \<and>
    (\<forall>res vp. r = Inr res \<longrightarrow> vp \<in> set vps \<longrightarrow> is_new vp \<or> may_add_version u (m_Slug (vp_Manifest vp)) (db w))"
proof -
  obtain x w1 where check: "ValidateUploadBatch vps u w = (x, w1)" by fastforce
  have same: "db w1 = db w"
  proof -
    have "keeps_db (\<lambda>d. d = db w) (ValidateUploadBatch vps u)"
      unfolding ValidateUploadBatch_def qCountUserProblems_def by (intro keeps_intro batchLoop_frame)
    from keepsD [OF this refl check] show ?thesis .
  qed
  show ?thesis
  proof (cases x)
    case (Inl e)
    with assms check same show ?thesis by (auto simp: uploadBatch_def bindE_def)
  next
    case (Inr y)
    with assms(2) check have loop: "uploadLoop uni sha256 u vis vps w1 = (r, w')" by (simp add: uploadBatch_def bindE_def)
    from uploadLoop_owned [OF loop] ValidateUploadBatch_Inr [OF check [unfolded Inr]] assms(1) same
    show ?thesis by auto
  qed
qed

theorem upload_limits_witness:
  "\<exists>res w'. uploadBatch ascii_unicode id 1 ''private'' [sample_vp '''' ''easy''] upload_world = (Inr res, w') \<and>
     owned 1 (db w') = 3 \<and> owned 1 (db w') \<le> MaxProblemsPerUser"
proof -
  let ?m = "uploadBatch ascii_unicode id 1 ''private'' [sample_vp '''' ''easy'']"
  obtain r w' where run: "?m upload_world = (r, w')" by fastforce
  have "map_sum id (map ur_Version) (fst (?m upload_world)) = Inr [1]" "owned 1 (db (snd (?m upload_world))) = 3"
    "owned 1 (db upload_world) \<le> MaxProblemsPerUser" by code_simp+
  then show ?thesis using upload_limits [OF _ run] run unfolding run map_sum_Inr by auto
qed

text \<open>
  C27. Seeding is idempotent: once it has completed, running it again changes no table, whatever
  round trips fail then.
\<close>

theorem seeding_idempotent:
  assumes "SeedBuiltins unmarshal sha256 w = (Inr (), w1)" and "SeedBuiltins unmarshal sha256 w1 = (r, w2)"
  shows "db w2 = db w1"
proof -
  from assms(1) obtain es where es: "ReadDir (files w) (baseDir w) = Inr es"
    and run: "forE es (seed_entry unmarshal sha256) w = (Inr (), w1)"
    by (auto simp: SeedBuiltins_def success)
  from seed_loop_seeded [OF run] have "ReadDir (files w1) (baseDir w1) = Inr es"
    "\<forall>slug. (slug, True) \<in> set es \<longrightarrow> seeded slug (db w1)"
    using es by (auto simp: same_files_def)
  moreover from this(1) assms(2) have "forE es (seed_entry unmarshal sha256) w1 = (r, w2)"
    by (simp add: SeedBuiltins_def bindE_def from_result_def wrap_def ret_def)
  ultimately show ?thesis using seed_loop_again by blast
qed

definition seed_world :: "(rat \<times> time) option exec_world" where
  "seed_world = sample_exec_world\<lparr>baseDir := ''/p'', files := \<lparr>f_nodes = [(''/p'', Dir), (''/p/sum'', Dir), (''/p/sum/v2'', Dir),
     (''/p/sum/v10'', Dir), (''/p/sum/v10/manifest.json'', File ''M''), (''/p/sum/v10/statement.md'', File ''S''),
     (''/p/sum/v10/reference'', Dir), (''/p/sum/v10/reference/sol.PY'', File ''good''),
     (''/p/sum/v10/tests'', Dir), (''/p/sum/v10/tests/1.in'', File ''1''), (''/p/sum/v10/tests/1.out'', File ''2'')],
     f_bad = []\<rparr>\<rparr>"

theorem seeding_idempotent_witness:
  "\<exists>w1 r w2. SeedBuiltins sample_unmarshal id seed_world = (Inr (), w1) \<and>
     map pv_ArtifactPath (d_versions (db w1)) = [''a'', ''a'', ''sum/v10''] \<and>
     SeedBuiltins sample_unmarshal id w1 = (r, w2) \<and> db w2 = db w1"
proof -
  obtain x w1 where run: "SeedBuiltins sample_unmarshal id seed_world = (x, w1)" by fastforce
  have "fst (SeedBuiltins sample_unmarshal id seed_world) = Inr ()"
    "map pv_ArtifactPath (d_versions (db (snd (SeedBuiltins sample_unmarshal id seed_world)))) = [''a'', ''a'', ''sum/v10'']"
    by code_simp+
  then have x: "x = Inr ()" "map pv_ArtifactPath (d_versions (db w1)) = [''a'', ''a'', ''sum/v10'']"
    unfolding run by simp_all
  obtain r w2 where again: "SeedBuiltins sample_unmarshal id w1 = (r, w2)" by fastforce
  from seeding_idempotent [OF run [unfolded x(1)] again] run x again show ?thesis
    by (intro exI [of _ w1] exI [of _ r] exI [of _ w2]) simp
qed

text \<open>
  The limit of versions is checked against the number before the batch: an archive that names one
  problem twice passes the check of a problem with nine versions and leaves it with eleven.
\<close>

definition nine_world :: "(rat \<times> time) option exec_world" where
  "nine_world = upload_world\<lparr>
     db := (db upload_world)\<lparr>d_versions := d_versions (db upload_world) @
        map (\<lambda>n. (sample_version 2)\<lparr>pv_ID := n, pv_Version := n - 10\<rparr>) [12, 13, 14, 15, 16, 17, 18, 19]\<rparr>,
     seqs := (seqs upload_world)\<lparr>seq_versions := 20\<rparr>,
     files := (files upload_world)\<lparr>f_nodes := f_nodes (files upload_world) @ [(''/tmp/c'', Dir)]\<rparr>\<rparr>"

lemma version_limit_bypassed:
  "let again = (sample_vp ''secret'' ''hard'')\<lparr>vp_Dir := ''/tmp/c''\<rparr>;
       (r, w') = uploadBatch ascii_unicode id 1 ''private'' [sample_vp ''secret'' ''hard'', again] nine_world in
   map_sum id (map ur_Version) r = Inr [10, 11] \<and>
   count_where (\<lambda>v. pv_ProblemID v = 2) (d_versions (db w')) = 11"
  by code_simp

end
