(* ===== verification/Hub.thy ===== *)
theory Hub
  imports Database "HOL-Library.Sublist" "HOL-Library.Multiset"
begin

text \<open>
  \<^verbatim>\<open>internal/ws\<close>: the send queue and the writer goroutine of one WebSocket client (\<^verbatim>\<open>client.go\<close>) and the
  hub of rooms, one per game (\<^verbatim>\<open>hub.go\<close>). A client is a bounded queue fed by \<^verbatim>\<open>Send\<close>, closed once by
  \<^verbatim>\<open>Close\<close> and drained by \<^verbatim>\<open>WritePump\<close>; its events are the atomic steps that the mutex and the channel
  allow. The iteration order of a Go map is the argument \<open>ord\<close> of the operations that depend on it.
\<close>

section \<open>Clients\<close>

datatype frame = TextFrame string | PingFrame | CloseFrame

record Client =
  c_UserID :: uuid
  c_send :: "string list"
  c_closed :: bool
  c_pumping :: bool
  c_conn :: "frame list"

definition send_capacity :: nat where
  "send_capacity = 64"

definition NewClient :: "uuid \<Rightarrow> Client" where
  "NewClient userID = \<lparr>c_UserID = userID, c_send = [], c_closed = False, c_pumping = True, c_conn = []\<rparr>"

definition Close :: "Client \<Rightarrow> Client" where
  "Close c = (if c_closed c then c else c\<lparr>c_closed := True\<rparr>)"

definition Send :: "string \<Rightarrow> Client \<Rightarrow> Client" where
  "Send msg c =
     (if c_closed c then c
      else if length (c_send c) < send_capacity then c\<lparr>c_send := c_send c @ [msg]\<rparr>
      else c)"

text \<open>
  One turn of the loop of \<^verbatim>\<open>WritePump\<close>: a receive from the queue, which waits while it is open and empty,
  or a tick; \<open>ok\<close> tells whether the write to the connection succeeds.
\<close>

definition PumpReceive :: "bool \<Rightarrow> Client \<Rightarrow> Client" where
  "PumpReceive ok c =
     (if \<not> c_pumping c then c
      else case c_send c of
        [] \<Rightarrow>
          if c_closed c
          then c\<lparr>c_pumping := False, c_conn := (if ok then c_conn c @ [CloseFrame] else c_conn c)\<rparr>
          else c
      | msg # rest \<Rightarrow>
          if ok then c\<lparr>c_send := rest, c_conn := c_conn c @ [TextFrame msg]\<rparr>
          else c\<lparr>c_send := rest, c_pumping := False\<rparr>)"

definition PumpTick :: "bool \<Rightarrow> Client \<Rightarrow> Client" where
  "PumpTick ok c =
     (if \<not> c_pumping c then c
      else if ok then c\<lparr>c_conn := c_conn c @ [PingFrame]\<rparr>
      else c\<lparr>c_pumping := False\<rparr>)"

datatype client_event = Sending string | Closing | Receiving bool | Ticking bool

fun client_step :: "client_event \<Rightarrow> Client \<Rightarrow> Client" where
  "client_step (Sending m) = Send m"
| "client_step Closing = Close"
| "client_step (Receiving ok) = PumpReceive ok"
| "client_step (Ticking ok) = PumpTick ok"

definition client_run :: "client_event list \<Rightarrow> Client \<Rightarrow> Client" where
  "client_run es c = foldl (\<lambda>c e. client_step e c) c es"

section \<open>The hub\<close>

text \<open>
  \<open>h_rooms\<close> is the map of the hub, from games to room addresses; \<open>h_heap\<close> holds the rooms themselves,
  each a list of the addresses of its clients, and \<open>h_next\<close> is the next free address. Rooms are pointers
  because \<^verbatim>\<open>Join\<close> keeps using the room it found after it has released the lock of the hub.
\<close>

record Hub =
  h_rooms :: "int \<rightharpoonup> nat"
  h_heap :: "nat \<Rightarrow> nat list"
  h_next :: nat
  h_clients :: "nat \<Rightarrow> Client"

definition NewHub :: "(nat \<Rightarrow> Client) \<Rightarrow> Hub" where
  "NewHub cs = \<lparr>h_rooms = Map.empty, h_heap = (\<lambda>_. []), h_next = 0, h_clients = cs\<rparr>"

definition joinRoom :: "int \<Rightarrow> Hub \<Rightarrow> nat \<times> Hub" where
  "joinRoom gameID h =
     (case h_rooms h gameID of
        Some r \<Rightarrow> (r, h)
      | None \<Rightarrow>
          (h_next h,
           h\<lparr>h_rooms := (h_rooms h)(gameID \<mapsto> h_next h),
             h_heap := (h_heap h)(h_next h := []),
             h_next := h_next h + 1\<rparr>))"

definition enterRoom :: "nat \<Rightarrow> nat \<Rightarrow> Hub \<Rightarrow> Hub" where
  "enterRoom r c h = h\<lparr>h_heap := (h_heap h)(r := List.insert c (h_heap h r))\<rparr>"

definition Join :: "int \<Rightarrow> nat \<Rightarrow> Hub \<Rightarrow> Hub" where
  "Join gameID c h = (let (r, h') = joinRoom gameID h in enterRoom r c h')"

definition Leave :: "int \<Rightarrow> nat \<Rightarrow> Hub \<Rightarrow> Hub" where
  "Leave gameID c h =
     (case h_rooms h gameID of
        None \<Rightarrow> h
      | Some r \<Rightarrow>
          let h' = h\<lparr>h_heap := (h_heap h)(r := removeAll c (h_heap h r))\<rparr> in
          if h_heap h' r = [] then h'\<lparr>h_rooms := (h_rooms h')(gameID := None)\<rparr> else h')"

definition sendTo :: "string \<Rightarrow> nat \<Rightarrow> Hub \<Rightarrow> Hub" where
  "sendTo msg c h = h\<lparr>h_clients := (h_clients h)(c := Send msg (h_clients h c))\<rparr>"

definition Broadcast :: "(nat list \<Rightarrow> nat list) \<Rightarrow> int \<Rightarrow> string \<Rightarrow> Hub \<Rightarrow> Hub" where
  "Broadcast ord gameID msg h =
     (case h_rooms h gameID of
        None \<Rightarrow> h
      | Some r \<Rightarrow> foldl (\<lambda>h c. sendTo msg c h) h (ord (h_heap h r)))"

definition SendToUser :: "(nat list \<Rightarrow> nat list) \<Rightarrow> int \<Rightarrow> uuid \<Rightarrow> string \<Rightarrow> Hub \<Rightarrow> Hub" where
  "SendToUser ord gameID userID msg h =
     (case h_rooms h gameID of
        None \<Rightarrow> h
      | Some r \<Rightarrow>
          (case List.find (\<lambda>c. c_UserID (h_clients h c) = userID) (ord (h_heap h r)) of
             None \<Rightarrow> h
           | Some c \<Rightarrow> sendTo msg c h))"

text \<open>The calls of the program on the hub and on its clients, one after the other.\<close>

datatype hub_event =
    Joining int nat
  | Leaving int nat
  | Broadcasting "nat list \<Rightarrow> nat list" int string
  | Telling "nat list \<Rightarrow> nat list" int uuid string
  | OnClient nat client_event

fun hub_step :: "hub_event \<Rightarrow> Hub \<Rightarrow> Hub" where
  "hub_step (Joining g c) h = Join g c h"
| "hub_step (Leaving g c) h = Leave g c h"
| "hub_step (Broadcasting ord g m) h = Broadcast ord g m h"
| "hub_step (Telling ord g u m) h = SendToUser ord g u m h"
| "hub_step (OnClient c e) h = h\<lparr>h_clients := (h_clients h)(c := client_step e (h_clients h c))\<rparr>"

definition hub_run :: "hub_event list \<Rightarrow> Hub \<Rightarrow> Hub" where
  "hub_run es h = foldl (\<lambda>h e. hub_step e h) h es"

section \<open>What a client delivers\<close>

fun texts :: "frame list \<Rightarrow> string list" where
  "texts [] = []"
| "texts (TextFrame m # fs) = m # texts fs"
| "texts (PingFrame # fs) = texts fs"
| "texts (CloseFrame # fs) = texts fs"

lemma texts_append [simp]: "texts (xs @ ys) = texts xs @ texts ys"
  by (induction xs rule: texts.induct) auto

text \<open>The messages among the events, and those of them the queue took.\<close>

fun offered :: "client_event list \<Rightarrow> string list" where
  "offered [] = []"
| "offered (Sending m # es) = m # offered es"
| "offered (_ # es) = offered es"

definition takes :: "Client \<Rightarrow> bool" where
  "takes c \<longleftrightarrow> \<not> c_closed c \<and> length (c_send c) < send_capacity"

fun taken :: "client_event \<Rightarrow> Client \<Rightarrow> string list" where
  "taken (Sending m) c = (if takes c then [m] else [])"
| "taken _ c = []"

fun accepted :: "client_event list \<Rightarrow> Client \<Rightarrow> string list" where
  "accepted [] c = []"
| "accepted (e # es) c = taken e c @ accepted es (client_step e c)"

lemmas client_defs = NewClient_def Send_def Close_def PumpReceive_def PumpTick_def takes_def

lemma accepted_append [simp]:
  "accepted (es @ fs) c = accepted es c @ accepted fs (client_run es c)"
  by (induction es arbitrary: c) (auto simp: client_run_def)

lemma client_run_Nil [simp]: "client_run [] c = c"
  by (simp add: client_run_def)

lemma client_run_snoc [simp]: "client_run (es @ [e]) c = client_step e (client_run es c)"
  by (simp add: client_run_def)

lemma client_run_Cons [simp]: "client_run (e # es) c = client_run es (client_step e c)"
  by (simp add: client_run_def)

lemma subseq_accepted: "subseq (accepted es c) (offered es)"
proof (induction es arbitrary: c)
  case (Cons e es)
  then show ?case by (cases e) auto
qed simp

text \<open>
  \<open>client_inv as c\<close>: the queue is within its capacity, and the messages \<open>as\<close> the client took are what was
  written, then at most one message lost with a broken connection, then what is still queued. A close
  frame is the last thing written and only after the queue was drained.
\<close>

definition client_inv :: "string list \<Rightarrow> Client \<Rightarrow> bool" where
  "client_inv as c \<longleftrightarrow>
     length (c_send c) \<le> send_capacity \<and>
     (\<exists>lost. as = texts (c_conn c) @ lost @ c_send c \<and> length lost \<le> (if c_pumping c then 0 else 1)) \<and>
     (CloseFrame \<in> set (c_conn c) \<longrightarrow>
        \<not> c_pumping c \<and> c_closed c \<and> c_send c = [] \<and> texts (c_conn c) = as \<and>
        (\<exists>fs. c_conn c = fs @ [CloseFrame] \<and> CloseFrame \<notin> set fs))"

lemma client_inv_new: "client_inv [] (NewClient u)"
  by (simp add: client_inv_def client_defs)

lemma client_inv_step: "client_inv as c \<Longrightarrow> client_inv (as @ taken e c) (client_step e c)"
proof (cases e)
  case (Receiving ok)
  then show "client_inv as c \<Longrightarrow> ?thesis"
    by (cases "c_send c"; cases ok) (auto simp: client_inv_def client_defs)
qed (auto simp: client_inv_def client_defs)

lemma client_inv_run: "client_inv (accepted es (NewClient u)) (client_run es (NewClient u))"
  by (induction es rule: rev_induct) (simp_all add: client_inv_new client_inv_step)

fun failing :: "client_event \<Rightarrow> bool" where
  "failing (Receiving ok) = (\<not> ok)"
| "failing (Ticking ok) = (\<not> ok)"
| "failing _ = False"

text \<open>
  C37. Delivery. Whatever calls of Send and Close and turns of the writer a client sees, in whatever
  order and with whatever write errors: the queue never holds more than 64 messages; the messages it
  took are a subsequence of those it was offered; what reaches the connection is a prefix of the messages
  taken, in order and without duplicates, all but at most one lost with the connection being still
  queued; and a close frame is sent at most once, as the last frame, when everything was delivered.
\<close>

theorem client_delivery:
  "let c = client_run es (NewClient u); as = accepted es (NewClient u) in
     length (c_send c) \<le> 64 \<and> subseq as (offered es) \<and>
     (\<exists>lost. as = texts (c_conn c) @ lost @ c_send c \<and> length lost \<le> (if c_pumping c then 0 else 1)) \<and>
     (CloseFrame \<notin> set (c_conn c) \<or>
        c_closed c \<and> texts (c_conn c) = as \<and>
        (\<exists>fs. c_conn c = fs @ [CloseFrame] \<and> CloseFrame \<notin> set fs))"
  using client_inv_run [of es u] unfolding client_inv_def Let_def
  by (auto simp: subseq_accepted send_capacity_def)

theorem client_delivery_witness:
  "texts (c_conn (client_run [Sending ''a'', Sending ''b'', Closing, Sending ''c'', Receiving True, Receiving True,
       Receiving True] (NewClient 7))) = [''a'', ''b''] \<and>
   CloseFrame \<in> set (c_conn (client_run [Sending ''a'', Sending ''b'', Closing, Sending ''c'', Receiving True,
       Receiving True, Receiving True] (NewClient 7)))"
  using client_delivery [of "[Sending ''a'', Sending ''b'', Closing, Sending ''c'', Receiving True, Receiving True,
       Receiving True]" 7]
  by (simp add: client_defs send_capacity_def)

lemma c_closed_step: "c_closed c \<Longrightarrow> c_closed (client_step e c)"
  by (cases e) (auto simp: client_defs split: list.splits)

lemma drain_step:
  assumes "c_closed c" "c_pumping c" "\<not> failing e" "c_pumping (client_step e c)"
  shows "texts (c_conn (client_step e c)) @ c_send (client_step e c) = texts (c_conn c) @ c_send c"
    and "length (c_send (client_step e c)) + (if \<exists>ok. e = Receiving ok then 1 else 0) = length (c_send c)"
  using assms by (cases e; auto simp: client_defs split: list.splits if_splits)+

lemma drained_step:
  assumes "c_closed c" "c_pumping c" "\<not> failing e" "\<not> c_pumping (client_step e c)"
  shows "c_send c = [] \<and> c_send (client_step e c) = [] \<and>
    c_conn (client_step e c) = c_conn c @ [CloseFrame]"
  using assms by (cases e; auto simp: client_defs split: list.splits if_splits)

lemma stopped_step:
  "\<not> c_pumping c \<Longrightarrow> c_closed c \<Longrightarrow> c_conn (client_step e c) = c_conn c \<and>
     c_send (client_step e c) = c_send c \<and> \<not> c_pumping (client_step e c)"
  by (cases e) (auto simp: client_defs)

lemma stopped_run:
  "\<not> c_pumping c \<Longrightarrow> c_closed c \<Longrightarrow> c_conn (client_run es c) = c_conn c \<and>
     c_send (client_run es c) = c_send c \<and> \<not> c_pumping (client_run es c)"
  by (induction es arbitrary: c) (simp_all add: stopped_step c_closed_step)

definition turns :: "client_event list \<Rightarrow> nat" where
  "turns es = length (filter (\<lambda>e. \<exists>ok. e = Receiving ok) es)"

lemma drain_run:
  assumes "c_closed c" "c_pumping c" "list_all (\<lambda>e. \<not> failing e) es" "length (c_send c) < turns es"
  shows "\<not> c_pumping (client_run es c) \<and> c_send (client_run es c) = [] \<and>
    texts (c_conn (client_run es c)) = texts (c_conn c) @ c_send c \<and>
    last (c_conn (client_run es c)) = CloseFrame"
  using assms
proof (induction es arbitrary: c)
  case (Cons e es)
  have e: "\<not> failing e" and closed: "c_closed (client_step e c)"
    using Cons.prems by (simp_all add: c_closed_step)
  show ?case
  proof (cases "c_pumping (client_step e c)")
    case True
    have "length (c_send (client_step e c)) < turns es"
      using drain_step(2) [OF Cons.prems(1,2) e True] Cons.prems(4)
      by (cases "\<exists>ok. e = Receiving ok") (auto simp: turns_def)
    with Cons.IH [OF closed True] drain_step(1) [OF Cons.prems(1,2) e True] Cons.prems(3)
    show ?thesis by simp
  next
    case False
    then show ?thesis
      using drained_step [OF Cons.prems(1,2) e False] stopped_run [OF False closed, of es] by simp
  qed
qed (simp add: turns_def)

text \<open>
  C38. Liveness of the writer. After Close, as long as no write fails, the writer of a client finishes:
  whatever else happens meanwhile (late calls of Send, further calls of Close, ticks), once it had one
  turn more than the messages queued it has stopped, every message the client had taken before is on the
  connection, and the last frame is the close frame.
\<close>

theorem writer_finishes:
  assumes "c_pumping (client_run es (NewClient u))"
    and "list_all (\<lambda>e. \<not> failing e) fs"
    and "length (c_send (client_run es (NewClient u))) < turns fs"
  shows "\<not> c_pumping (client_run (es @ Closing # fs) (NewClient u)) \<and>
    c_send (client_run (es @ Closing # fs) (NewClient u)) = [] \<and>
    texts (c_conn (client_run (es @ Closing # fs) (NewClient u))) = accepted es (NewClient u) \<and>
    last (c_conn (client_run (es @ Closing # fs) (NewClient u))) = CloseFrame"
proof -
  let ?c = "client_run es (NewClient u)"
  have run: "client_run (es @ Closing # fs) (NewClient u) = client_run fs (Close ?c)"
    by (simp add: client_run_def)
  have "texts (c_conn ?c) @ c_send ?c = accepted es (NewClient u)"
    using client_inv_run [of es u] assms(1) by (auto simp: client_inv_def)
  with drain_run [of "Close ?c" fs] assms show ?thesis
    unfolding run by (auto simp: Close_def)
qed

theorem writer_finishes_witness:
  "texts (c_conn (client_run ([Sending ''a'', Receiving True, Sending ''b''] @
      Closing # [Sending ''c'', Receiving True, Ticking True, Receiving True]) (NewClient 7)))
   = [''a'', ''b'']"
  using writer_finishes [of "[Sending ''a'', Receiving True, Sending ''b'']" 7
      "[Sending ''c'', Receiving True, Ticking True, Receiving True]"]
  by (simp add: client_defs turns_def send_capacity_def)


section \<open>Rooms\<close>

definition members :: "Hub \<Rightarrow> int \<Rightarrow> nat set" where
  "members h g = (case h_rooms h g of None \<Rightarrow> {} | Some r \<Rightarrow> set (h_heap h r))"

text \<open>Different games have different rooms, no room is empty, and no room lists a client twice.\<close>

definition hub_inv :: "Hub \<Rightarrow> bool" where
  "hub_inv h \<longleftrightarrow>
     (\<forall>g r. h_rooms h g = Some r \<longrightarrow> r < h_next h \<and> h_heap h r \<noteq> [] \<and> distinct (h_heap h r)) \<and>
     (\<forall>g g' r. h_rooms h g = Some r \<longrightarrow> h_rooms h g' = Some r \<longrightarrow> g = g')"

lemma hub_inv_new: "hub_inv (NewHub cs)"
  by (simp add: hub_inv_def NewHub_def)

lemma hub_inv_clients [simp]: "hub_inv (h\<lparr>h_clients := x\<rparr>) = hub_inv h"
  by (simp add: hub_inv_def)

lemma members_clients [simp]: "members (h\<lparr>h_clients := x\<rparr>) = members h"
  by (simp add: members_def fun_eq_iff split: option.splits)

lemma hub_invD:
  assumes "hub_inv h" "h_rooms h g = Some r"
  shows "r < h_next h" "h_heap h r \<noteq> []" "distinct (h_heap h r)" "h_rooms h g' = Some r \<Longrightarrow> g' = g"
  using assms unfolding hub_inv_def by blast+

lemma Join_None:
  "h_rooms h g = None \<Longrightarrow> Join g c h =
     h\<lparr>h_rooms := (h_rooms h)(g \<mapsto> h_next h), h_heap := (h_heap h)(h_next h := [c]), h_next := h_next h + 1\<rparr>"
  by (simp add: Join_def joinRoom_def enterRoom_def)

lemma Join_Some:
  "h_rooms h g = Some r \<Longrightarrow> Join g c h = h\<lparr>h_heap := (h_heap h)(r := List.insert c (h_heap h r))\<rparr>"
  by (simp add: Join_def joinRoom_def enterRoom_def)

lemma hub_inv_join: "hub_inv h \<Longrightarrow> hub_inv (Join g c h)"
proof (cases "h_rooms h g")
  case (Some r)
  assume "hub_inv h"
  with Some show ?thesis
    by (auto simp: Join_Some hub_inv_def List.insert_def)
next
  case None
  assume inv: "hub_inv h"
  have fresh: "h_rooms h g' \<noteq> Some (h_next h)" for g'
    using hub_invD(1) [OF inv] by blast
  from inv fresh show ?thesis
    unfolding hub_inv_def Join_None [OF None]
    by (simp, metis less_Suc_eq less_irrefl_nat not_None_eq option.inject)
qed

lemma members_join:
  assumes "hub_inv h"
  shows "members (Join g c h) = (members h)(g := insert c (members h g))"
proof (cases "h_rooms h g")
  case (Some r)
  then show ?thesis
    using hub_invD(4) [OF assms] by (auto simp: Join_Some members_def fun_eq_iff split: option.splits)
next
  case None
  then show ?thesis
    using hub_invD(1) [OF assms] by (auto simp: Join_None members_def fun_eq_iff split: option.splits)
qed

lemma removeAll_Nil_iff: "removeAll x xs = [] \<longleftrightarrow> set xs \<subseteq> {x}"
  by (induction xs) auto

lemma hub_inv_leave: "hub_inv h \<Longrightarrow> hub_inv (Leave g c h)"
  by (cases "h_rooms h g") (auto simp: hub_inv_def Leave_def Let_def distinct_removeAll)

lemma members_leave:
  assumes "hub_inv h"
  shows "members (Leave g c h) = (members h)(g := members h g - {c})"
proof (cases "h_rooms h g")
  case (Some r)
  then show ?thesis
    using hub_invD(4) [OF assms]
    by (auto simp: Leave_def Let_def members_def fun_eq_iff removeAll_Nil_iff split: option.splits)
qed (auto simp: Leave_def members_def fun_eq_iff)

lemma sends_rooms:
  "h_rooms (foldl (\<lambda>h c. sendTo m c h) h cs) = h_rooms h \<and>
   h_heap (foldl (\<lambda>h c. sendTo m c h) h cs) = h_heap h \<and>
   h_next (foldl (\<lambda>h c. sendTo m c h) h cs) = h_next h"
  by (induction cs arbitrary: h) (simp_all add: sendTo_def)

lemma sends_clients:
  "distinct cs \<Longrightarrow> h_clients (foldl (\<lambda>h c. sendTo m c h) h cs) c =
     (if c \<in> set cs then Send m (h_clients h c) else h_clients h c)"
  by (induction cs arbitrary: h) (auto simp: sendTo_def)

lemma broadcast_rooms:
  "h_rooms (Broadcast ord g m h) = h_rooms h \<and> h_heap (Broadcast ord g m h) = h_heap h \<and>
   h_next (Broadcast ord g m h) = h_next h"
  by (simp add: Broadcast_def sends_rooms split: option.splits)

lemma tell_rooms:
  "h_rooms (SendToUser ord g u m h) = h_rooms h \<and> h_heap (SendToUser ord g u m h) = h_heap h \<and>
   h_next (SendToUser ord g u m h) = h_next h"
  by (simp add: SendToUser_def sendTo_def split: option.splits)

text \<open>Go iterates a map in any order, but visits each key once.\<close>

definition any_order :: "(nat list \<Rightarrow> nat list) \<Rightarrow> bool" where
  "any_order ord \<longleftrightarrow> (\<forall>xs. mset (ord xs) = mset xs)"

lemma any_orderD: "any_order ord \<Longrightarrow> set (ord xs) = set xs" "any_order ord \<Longrightarrow> distinct (ord xs) = distinct xs"
  unfolding any_order_def by (metis set_mset_mset, metis mset_eq_imp_distinct_iff)

lemma broadcast_clients:
  assumes "hub_inv h" "any_order ord"
  shows "h_clients (Broadcast ord g m h) c =
    (if c \<in> members h g then Send m (h_clients h c) else h_clients h c)"
proof (cases "h_rooms h g")
  case (Some r)
  then have "distinct (ord (h_heap h r))"
    using assms by (simp add: hub_inv_def any_orderD)
  with Some assms(2) show ?thesis
    by (simp add: Broadcast_def sends_clients members_def any_orderD)
qed (simp add: Broadcast_def members_def)


text \<open>
  The contract of a registry of rooms, whatever its state: every step adds the clients that join and
  removes those that leave. Its client is the history of the steps, which determines the members.
\<close>

locale room_registry =
  fixes inv :: "'s \<Rightarrow> bool"
    and mem :: "'s \<Rightarrow> 'g \<Rightarrow> 'c set"
    and step :: "'e \<Rightarrow> 's \<Rightarrow> 's"
    and change :: "'e \<Rightarrow> 'g \<Rightarrow> 'c \<Rightarrow> bool \<Rightarrow> bool"
  assumes inv_step: "inv s \<Longrightarrow> inv (step e s)"
    and mem_step: "inv s \<Longrightarrow> c \<in> mem (step e s) g \<longleftrightarrow> change e g c (c \<in> mem s g)"
begin

lemma inv_run: "inv s \<Longrightarrow> inv (foldl (\<lambda>s e. step e s) s es)"
  by (induction es arbitrary: s) (simp_all add: inv_step)

lemma mem_run:
  "inv s \<Longrightarrow> c \<in> mem (foldl (\<lambda>s e. step e s) s es) g \<longleftrightarrow>
     foldl (\<lambda>p e. change e g c p) (c \<in> mem s g) es"
  by (induction es arbitrary: s) (simp_all add: inv_step mem_step)

end

fun present_step :: "hub_event \<Rightarrow> int \<Rightarrow> nat \<Rightarrow> bool \<Rightarrow> bool" where
  "present_step (Joining g' c') g c p = (p \<or> g' = g \<and> c' = c)"
| "present_step (Leaving g' c') g c p = (p \<and> \<not> (g' = g \<and> c' = c))"
| "present_step _ g c p = p"

definition present :: "hub_event list \<Rightarrow> int \<Rightarrow> nat \<Rightarrow> bool" where
  "present es g c = foldl (\<lambda>p e. present_step e g c p) False es"

lemma hub_inv_step: "hub_inv h \<Longrightarrow> hub_inv (hub_step e h)"
  by (cases e) (simp_all add: hub_inv_join hub_inv_leave,
      simp_all add: hub_inv_def broadcast_rooms tell_rooms)

lemma members_sends [simp]:
  "members (Broadcast ord g m h) = members h" "members (SendToUser ord g u m h) = members h"
  by (simp_all add: members_def broadcast_rooms tell_rooms fun_eq_iff split: option.splits)

interpretation hub_registry: room_registry hub_inv members hub_step present_step
proof
  fix h e g c
  assume inv: "hub_inv h"
  then show "hub_inv (hub_step e h)"
    by (rule hub_inv_step)
  show "c \<in> members (hub_step e h) g \<longleftrightarrow> present_step e g c (c \<in> members h g)"
    by (cases e) (auto simp: members_join [OF inv] members_leave [OF inv])
qed

lemma hub_inv_run: "hub_inv h \<Longrightarrow> hub_inv (hub_run es h)"
  unfolding hub_run_def by (rule hub_registry.inv_run)

lemma members_run: "c \<in> members (hub_run es (NewHub cs)) g \<longleftrightarrow> present es g c"
  using hub_registry.mem_run [OF hub_inv_new [of cs]]
  by (simp add: hub_run_def present_def) (simp add: members_def NewHub_def)


section \<open>What reaches a client through the hub\<close>

fun told :: "hub_event \<Rightarrow> Hub \<Rightarrow> nat \<Rightarrow> client_event list" where
  "told (Broadcasting ord g m) h c = (if c \<in> members h g then [Sending m] else [])"
| "told (Telling ord g u m) h c =
     (case h_rooms h g of
        None \<Rightarrow> []
      | Some r \<Rightarrow>
          if List.find (\<lambda>c. c_UserID (h_clients h c) = u) (ord (h_heap h r)) = Some c
          then [Sending m] else [])"
| "told (OnClient c' e) h c = (if c' = c then [e] else [])"
| "told _ h c = []"

fun heard :: "hub_event list \<Rightarrow> Hub \<Rightarrow> nat \<Rightarrow> client_event list" where
  "heard [] h c = []"
| "heard (e # es) h c = told e h c @ heard es (hub_step e h) c"

fun ordered :: "hub_event \<Rightarrow> bool" where
  "ordered (Broadcasting ord _ _) = any_order ord"
| "ordered (Telling ord _ _ _) = any_order ord"
| "ordered _ = True"

lemma client_run_append: "client_run (es @ fs) c = client_run fs (client_run es c)"
  by (simp add: client_run_def)

lemma join_leave_clients:
  "h_clients (Join g c h) = h_clients h" "h_clients (Leave g c h) = h_clients h"
  by (simp_all add: Join_def joinRoom_def enterRoom_def Leave_def Let_def split: option.splits)

lemma step_client:
  "hub_inv h \<Longrightarrow> ordered e \<Longrightarrow>
     h_clients (hub_step e h) c = client_run (told e h c) (h_clients h c)"
  by (cases e) (auto simp: join_leave_clients broadcast_clients SendToUser_def sendTo_def split: option.splits)

lemma run_client:
  "hub_inv h \<Longrightarrow> list_all ordered es \<Longrightarrow>
     h_clients (hub_run es h) c = client_run (heard es h c) (h_clients h c)"
  by (induction es arbitrary: h)
    (simp_all add: hub_run_def step_client hub_inv_step client_run_append)


text \<open>
  The two critical sections of \<^verbatim>\<open>Join\<close> interleaved with a \<^verbatim>\<open>Leave\<close>: client 2 finds the room of game 1, the
  last other client leaves and the hub forgets the room, and client 2 then enters a room nobody can
  find. It is connected, but no broadcast of its game reaches it.
\<close>

lemma join_race:
  fixes cs :: "nat \<Rightarrow> Client"
  defines "h0 \<equiv> Join 1 1 (NewHub cs)"
  defines "h1 \<equiv> enterRoom (fst (joinRoom 1 h0)) 2 (Leave 1 1 (snd (joinRoom 1 h0)))"
  shows "2 \<notin> members h1 1" "h_clients (Broadcast id 1 msg h1) = h_clients h1"
  by (simp_all add: h0_def h1_def Join_def joinRoom_def enterRoom_def Leave_def NewHub_def members_def
      Broadcast_def)

text \<open>What can reach client \<open>c\<close> with the events \<open>es\<close>, the last of them being \<open>e\<close>.\<close>

fun addressed :: "hub_event list \<Rightarrow> hub_event \<Rightarrow> uuid \<Rightarrow> nat \<Rightarrow> string \<Rightarrow> bool" where
  "addressed es (Broadcasting ord g m) u c m' \<longleftrightarrow> m' = m \<and> present es g c"
| "addressed es (Telling ord g u' m) u c m' \<longleftrightarrow> m' = m \<and> u' = u \<and> present es g c"
| "addressed es (OnClient c' e) u c m' \<longleftrightarrow> c' = c \<and> e = Sending m'"
| "addressed es _ u c m' \<longleftrightarrow> False"

lemma c_UserID_run: "c_UserID (client_run es c) = c_UserID c"
proof (induction es arbitrary: c)
  case (Cons e es)
  then show ?case
    by (cases e) (simp_all add: client_defs split: list.splits)
qed simp

lemma offered_append [simp]: "offered (es @ fs) = offered es @ offered fs"
  by (induction es rule: offered.induct) auto

lemma set_offered: "set (offered es) = {m. Sending m \<in> set es}"
  by (induction es rule: offered.induct) auto

lemma told_addressed:
  assumes "hub_inv h" "ordered e" "Sending m \<in> set (told e h c)"
    and "\<And>g. c \<in> members h g \<longleftrightarrow> present es g c"
  shows "addressed es e (c_UserID (h_clients h c)) c m"
proof (cases e)
  case (Telling ord g u m')
  then obtain r where r: "h_rooms h g = Some r"
    and find: "List.find (\<lambda>c. c_UserID (h_clients h c) = u) (ord (h_heap h r)) = Some c" and m: "m' = m"
    using assms(3) by (cases "h_rooms h g") (auto split: if_splits)
  have "c \<in> set (h_heap h r)" "c_UserID (h_clients h c) = u"
    using find assms(2) Telling any_orderD(1) [of ord "h_heap h r"]
    by (auto simp: find_Some_iff dest: nth_mem)
  then show ?thesis
    using r m Telling assms(4) [of g] by (simp add: members_def)
qed (use assms in \<open>auto split: if_splits\<close>)

lemma hub_run_snoc [simp]: "hub_run (es @ [e]) h = hub_step e (hub_run es h)"
  by (simp add: hub_run_def)

lemma heard_snoc: "heard (es @ [e]) h c = heard es h c @ told e (hub_run es h) c"
  by (induction es arbitrary: h) (simp_all add: hub_run_def)

lemma heard_addressed:
  assumes "list_all ordered es" "Sending m \<in> set (heard es (NewHub cs) c)"
  shows "\<exists>i < length es. addressed (take i es) (es ! i) (c_UserID (cs c)) c m"
  using assms
proof (induction es rule: rev_induct)
  case (snoc e es)
  let ?h = "hub_run es (NewHub cs)"
  have "h_clients ?h c = client_run (heard es (NewHub cs) c) (cs c)"
    using run_client [OF hub_inv_new, of es cs c] snoc.prems(1) by (simp add: NewHub_def)
  then have u: "c_UserID (h_clients ?h c) = c_UserID (cs c)"
    by (simp add: c_UserID_run)
  consider "Sending m \<in> set (heard es (NewHub cs) c)" | "Sending m \<in> set (told e ?h c)"
    using snoc.prems(2) by (auto simp: heard_snoc)
  then show ?case
  proof cases
    case 1
    with snoc obtain i where "i < length es" "addressed (take i es) (es ! i) (c_UserID (cs c)) c m"
      by auto
    then show ?thesis
      by (intro exI [of _ i]) (simp add: nth_append)
  next
    case 2
    have "addressed es e (c_UserID (cs c)) c m"
      using told_addressed [OF hub_inv_run [OF hub_inv_new] _ 2 members_run] snoc.prems(1) u by simp
    then show ?thesis
      by (intro exI [of _ "length es"]) simp
  qed
qed simp

lemma accepted_offered: "m \<in> set (accepted es c) \<Longrightarrow> Sending m \<in> set es"
  using list_emb_set [OF subseq_accepted [of es c], of m] by (auto simp: set_offered)

lemma texts_accepted:
  "set (texts (c_conn (client_run es (NewClient u)))) \<subseteq> set (accepted es (NewClient u))"
  using client_inv_run [of es u] by (auto simp: client_inv_def)

text \<open>
  C40. Room isolation. Whatever is done with the hub and its clients, in whatever order Go visits the
  members of a room: every message on the connection of a client was either broadcast to a game while
  the client was in its room, or addressed to its own user in such a game, or sent to it directly. A
  client that is not in the room of a game sees nothing of it.
\<close>

theorem room_isolation:
  assumes "\<And>c. cs c = NewClient (u c)" and "list_all ordered es"
    and "m \<in> set (texts (c_conn (h_clients (hub_run es (NewHub cs)) c)))"
  shows "\<exists>i < length es. addressed (take i es) (es ! i) (u c) c m"
proof -
  have "h_clients (hub_run es (NewHub cs)) c = client_run (heard es (NewHub cs) c) (NewClient (u c))"
    using run_client [OF hub_inv_new assms(2), of cs c] assms(1) by (simp add: NewHub_def)
  with assms(3) have "Sending m \<in> set (heard es (NewHub cs) c)"
    using texts_accepted accepted_offered by fastforce
  from heard_addressed [OF assms(2) this] assms(1) show ?thesis
    by (simp add: NewClient_def)
qed

lemma any_order_id [simp]: "any_order id" and any_order_rev [simp]: "any_order rev"
  by (simp_all add: any_order_def)

theorem room_isolation_witness:
  "\<exists>i < 4. addressed
     (take i [Joining 1 0, Joining 1 5, Broadcasting rev 1 ''hi'', OnClient 5 (Receiving True)])
     ([Joining 1 0, Joining 1 5, Broadcasting rev 1 ''hi'', OnClient 5 (Receiving True)] ! i) 7 5 ''hi''"
  using room_isolation [of "\<lambda>_. NewClient 7" "\<lambda>_. 7"
      "[Joining 1 0, Joining 1 5, Broadcasting rev 1 ''hi'', OnClient 5 (Receiving True)]" "''hi''" 5]
  by (simp add: hub_run_def NewHub_def Join_def joinRoom_def enterRoom_def Broadcast_def sendTo_def
      client_defs send_capacity_def List.insert_def numeral_eq_Suc)

lemma tell_user:
  assumes "any_order ord"
  shows "if \<exists>c \<in> members h g. c_UserID (h_clients h c) = u
     then \<exists>c \<in> members h g. c_UserID (h_clients h c) = u \<and>
       h_clients (SendToUser ord g u m h) = (h_clients h)(c := Send m (h_clients h c))
     else SendToUser ord g u m h = h"
proof (cases "h_rooms h g")
  case None
  then show ?thesis
    by (simp add: members_def SendToUser_def)
next
  case (Some r)
  let ?P = "\<lambda>c. c_UserID (h_clients h c) = u"
  show ?thesis
  proof (cases "List.find ?P (ord (h_heap h r))")
    case None
    then have "SendToUser ord g u m h = h"
      using Some by (simp add: SendToUser_def)
    moreover have "\<not> (\<exists>c \<in> members h g. ?P c)"
      using None Some any_orderD(1) [OF assms, of "h_heap h r"] by (simp add: members_def find_None_iff)
    ultimately show ?thesis
      by simp
  next
    case (Some c)
    then have "?P c" "c \<in> set (h_heap h r)"
      using any_orderD(1) [OF assms] by (auto simp: find_Some_iff dest: nth_mem)
    with Some \<open>h_rooms h g = Some r\<close> show ?thesis
      by (auto simp: members_def SendToUser_def sendTo_def)
  qed
qed

text \<open>
  Broadcasting reaches the room. A broadcast hands the message to every client in the room of the
  game and to nobody else, whatever the order in which the map is visited, and leaves the rooms as they
  are; a message to one user goes to exactly one connection of that user in the room, and nowhere
  if the user has none there.
\<close>

lemma broadcast_reaches_room:
  assumes "hub_inv h" "any_order ord"
  shows "(\<forall>c. h_clients (Broadcast ord g m h) c =
            (if c \<in> members h g then Send m (h_clients h c) else h_clients h c)) \<and>
    members (Broadcast ord g m h) = members h \<and>
    (if \<exists>c \<in> members h g. c_UserID (h_clients h c) = u
     then \<exists>c \<in> members h g. c_UserID (h_clients h c) = u \<and>
       h_clients (SendToUser ord g u m h) = (h_clients h)(c := Send m (h_clients h c))
     else SendToUser ord g u m h = h)"
  using broadcast_clients [OF assms] tell_user [OF assms(2), of h g u m] by simp

end
