(* ===== verification/Executor.thy ===== *)
theory Executor
  imports Execution_Service Text_Format "HOL-Library.AList"
begin

text \<open>
  \<^verbatim>\<open>internal/executor\<close>, the parts that run in one goroutine: the configuration, what a worker does
  with a container (\<^verbatim>\<open>docker_executor.go\<close>) and the shell command it runs there. The interface
  \<^verbatim>\<open>dockerClient\<close> of \<^verbatim>\<open>docker_client.go\<close> is a record of operations over the state of the daemon;
  deadlines and cancellations of the context show as answers of these operations. The pool of workers
  and the queue are in \<^verbatim>\<open>Executor_Pool\<close>.
\<close>

section \<open>Configuration\<close>

record LangSettings =
  ls_Image :: string
  ls_SourceFile :: string
  ls_CompileCmd :: "string list"
  ls_RunCmd :: "string list"
  ls_WarmupCmd :: string
  ls_MemoryLimit :: int
  ls_TimeLimit :: int
  ls_PoolSize :: int

record Config =
  cf_DockerHost :: string
  cf_Languages :: "(Language \<times> LangSettings) list"

definition go_warmup :: string where
  "go_warmup =
     ''printf 'package main'' @ [CHR 0x5C] @ ''nimport (\"fmt\";\"bufio\";\"os\";\"sort\";\"strconv\";\"strings\";\"math\")'' @
     [CHR 0x5C] @ ''nfunc main(){fmt.Sprint();bufio.NewReader(os.Stdin);sort.Ints(nil);strconv.Itoa(0);'' @
     ''strings.Contains(\"\",\"\");math.Abs(0)}'' @ [CHR 0x5C] @
     ''n' > /tmp/w.go && go run /tmp/w.go && rm /tmp/w.go''"

definition DefaultConfig :: Config where
  "DefaultConfig = \<lparr>cf_DockerHost = '''', cf_Languages =
     [(''python'', \<lparr>ls_Image = ''python:3.14-slim'', ls_SourceFile = ''main.py'', ls_CompileCmd = [],
        ls_RunCmd = [''python'', ''main.py''], ls_WarmupCmd = '''', ls_MemoryLimit = 256 * 1024 * 1024,
        ls_TimeLimit = 10, ls_PoolSize = 10\<rparr>),
      (''go'', \<lparr>ls_Image = ''golang:1.26-alpine'', ls_SourceFile = ''main.go'', ls_CompileCmd = [],
        ls_RunCmd = [''go'', ''run'', ''main.go''], ls_WarmupCmd = go_warmup, ls_MemoryLimit = 512 * 1024 * 1024,
        ls_TimeLimit = 30, ls_PoolSize = 5\<rparr>),
      (''cpp'', \<lparr>ls_Image = ''gcc:15'', ls_SourceFile = ''main.cpp'',
        ls_CompileCmd = [''g++'', ''-O2'', ''-o'', ''solution'', ''main.cpp''], ls_RunCmd = [''./solution''],
        ls_WarmupCmd = '''', ls_MemoryLimit = 512 * 1024 * 1024, ls_TimeLimit = 30, ls_PoolSize = 5\<rparr>),
      (''java'', \<lparr>ls_Image = ''eclipse-temurin:21-jdk-alpine'', ls_SourceFile = ''Main.java'',
        ls_CompileCmd = [''javac'', ''Main.java''], ls_RunCmd = [''java'', ''Main''], ls_WarmupCmd = '''',
        ls_MemoryLimit = 512 * 1024 * 1024, ls_TimeLimit = 30, ls_PoolSize = 5\<rparr>)]\<rparr>"

definition poolSize :: int where "poolSize = 3"
definition queueMultiplier :: int where "queueMultiplier = 6"
definition nanoCPUs :: int where "nanoCPUs = 1000000000"
definition pidsLimit :: int where "pidsLimit = 64"
definition defaultMemoryLimit :: int where "defaultMemoryLimit = 100 * 1024 * 1024"

section \<open>The interface of the Docker client\<close>

record ContainerConfig =
  cc_Image :: string
  cc_Cmd :: "string list"
  cc_WorkingDir :: string
  cc_Labels :: "(string \<times> string) list"

record HostConfig =
  hc_Memory :: int
  hc_NanoCPUs :: int
  hc_PidsLimit :: int
  hc_NetworkMode :: string
  hc_CapDrop :: "string list"
  hc_SecurityOpt :: "string list"
  hc_Tmpfs :: "(string \<times> string) list"

text \<open>
  The ends of reading the stream of a command: all of it, an error, or the end of the context. The
  output of the run command can also end with the timer of the executor; \<open>elapsed\<close> is in nanoseconds.
\<close>

datatype read_end = ReadAll | ReadError err | ReadExpired err

datatype output_end =
    OutputDone (out: string) (errout: string) (elapsed: int)
  | OutputError err
  | SafetyFired (out: string) (errout: string) (elapsed: int)
  | OutputCancelled err

record 'd docker =
  IsNotFound :: "err \<Rightarrow> bool"
  ImageInspect :: "string \<Rightarrow> ('d, err, unit) sem"
  ImagePull :: "string \<Rightarrow> ('d, err, unit) sem"
  PullRead :: "string \<Rightarrow> ('d, err, unit) sem"
  ContainerList :: "string list \<Rightarrow> ('d, err, string list) sem"
  ContainerCreate :: "ContainerConfig \<Rightarrow> HostConfig \<Rightarrow> ('d, err, string) sem"
  ContainerStart :: "string \<Rightarrow> ('d, err, unit) sem"
  ContainerRemove :: "string \<Rightarrow> ('d, err, unit) sem"
  ContainerExecCreate :: "string \<Rightarrow> string list \<Rightarrow> ('d, err, string) sem"
  ContainerExecAttach :: "string \<Rightarrow> ('d, err, unit) sem"
  StreamRead :: "string \<Rightarrow> 'd \<Rightarrow> read_end \<times> 'd"
  StreamOutput :: "string \<Rightarrow> int \<Rightarrow> 'd \<Rightarrow> output_end \<times> 'd"
  ContainerExecInspect :: "string \<Rightarrow> ('d, err, int) sem"
  ContainerInspect :: "string \<Rightarrow> ('d, err, bool option) sem"
  CopyToContainer :: "string \<Rightarrow> string \<Rightarrow> (string \<times> string) list \<Rightarrow> ('d, err, unit) sem"

definition ignore :: "('w, 'e, unit) sem \<Rightarrow> ('w, 'e, unit) sem" where
  "ignore m = tryE m (\<lambda>_. ret ())"

section \<open>Running a command\<close>

definition second :: int where "second = 1000000000"

fun join :: "string \<Rightarrow> string list \<Rightarrow> string" where
  "join sep [] = ''''"
| "join sep [s] = s"
| "join sep (s # ss) = s @ sep @ join sep ss"

definition maxLogSize :: nat where "maxLogSize = 10 * 1024"

definition truncateString :: "string \<Rightarrow> nat \<Rightarrow> string" where
  "truncateString s maxLen = (if length s \<le> maxLen then s else take maxLen s @ ''...[truncated]'')"

text \<open>\<open>int(timeLimit.Seconds())\<close> is the number of whole seconds of a limit that is not negative.\<close>

definition buildShellCommand :: "LangSettings \<Rightarrow> bool \<Rightarrow> int \<Rightarrow> string" where
  "buildShellCommand cfg hasStdin timeLimit =
     (let parts = (if ls_CompileCmd cfg \<noteq> [] then [join '' '' (ls_CompileCmd cfg)] else []);
          runCmd = join '' '' (ls_RunCmd cfg) @ (if hasStdin then '' < input.txt'' else '''');
          secs = timeLimit div second;
          runCmd = (if 0 < secs then ''timeout '' @ itoa (nat secs) @ ''s '' @ runCmd else runCmd)
      in if parts \<noteq> [] then join '' && '' (parts @ [runCmd]) else runCmd)"

definition limit_of :: "LangSettings \<Rightarrow> int \<Rightarrow> int" where
  "limit_of langConfig timeLimit =
     (let limit = timeLimit;
          limit = (if limit = 0 \<and> 0 < ls_TimeLimit langConfig then ls_TimeLimit langConfig * second else limit)
      in if limit = 0 then 5 * second else limit)"

definition result_of :: "int \<Rightarrow> bool \<Rightarrow> string \<Rightarrow> string \<Rightarrow> int \<Rightarrow> ExecutionResult" where
  "result_of exitCode safetyFired stdout stderr used =
     (let timedOut = safetyFired \<or> exitCode = 124 in
      \<lparr>xr_Stdout = truncateString stdout maxLogSize,
       xr_Stderr = truncateString stderr maxLogSize @
         (if timedOut then CHR ''\<newline>'' # ''Execution timed out.'' else ''''),
       xr_ExitCode = (if timedOut then 124 else exitCode), xr_TimeUsed = used, xr_MemoryUsed = 0,
       xr_Error = None\<rparr>)"

definition failed_result :: "err \<Rightarrow> ExecutionResult" where
  "failed_result e = \<lparr>xr_Stdout = '''', xr_Stderr = '''', xr_ExitCode = 0, xr_TimeUsed = 0,
     xr_MemoryUsed = 0, xr_Error = Some e\<rparr>"

text \<open>A run answers with a result and possibly an error, both at once.\<close>

type_synonym workResult = "ExecutionResult \<times> err option"

definition failed :: "string \<Rightarrow> err \<Rightarrow> workResult" where
  "failed m e = (failed_result e, Some (ErrWrap m e))"

section \<open>Work on one container\<close>

definition sh :: "string \<Rightarrow> string list" where
  "sh cmd = [''/bin/sh'', ''-c'', cmd]"

definition execInContainer ::
  "'d docker \<Rightarrow> string \<Rightarrow> LangSettings \<Rightarrow> bool \<Rightarrow> int \<Rightarrow> 'd \<Rightarrow> workResult \<times> 'd" where
  "execInContainer dk containerID langConfig hasStdin timeLimit d =
     (let limit = limit_of langConfig timeLimit;
          cmd = buildShellCommand langConfig hasStdin limit in
      case ContainerExecCreate dk containerID (sh cmd) d of
        (Inl err, d) \<Rightarrow> (failed ''failed to create exec'' err, d)
      | (Inr execID, d) \<Rightarrow>
      (case ContainerExecAttach dk execID d of
        (Inl err, d) \<Rightarrow> (failed ''failed to attach exec'' err, d)
      | (Inr _, d) \<Rightarrow>
      (case StreamOutput dk execID (limit + 30 * second) d of
        (OutputError err, d) \<Rightarrow> (failed ''error reading output'' err, d)
      | (OutputCancelled err, d) \<Rightarrow> ((failed_result err, Some err), d)
      | (OutputDone stdout stderr used, d) \<Rightarrow>
          (case ContainerExecInspect dk execID d of
             (r, d) \<Rightarrow> ((result_of (case r of Inl _ \<Rightarrow> 0 | Inr exitCode \<Rightarrow> exitCode) False stdout stderr used, None), d))
      | (SafetyFired stdout stderr used, d) \<Rightarrow>
          (case ContainerExecInspect dk execID d of
             (r, d) \<Rightarrow> ((result_of (case r of Inl _ \<Rightarrow> 0 | Inr exitCode \<Rightarrow> exitCode) True stdout stderr used, None), d)))))"

definition copyFilesToContainer :: "'d docker \<Rightarrow> string \<Rightarrow> (string \<times> string) list \<Rightarrow> ('d, err, unit) sem" where
  "copyFilesToContainer dk containerID fs = CopyToContainer dk containerID ''/app'' fs"

definition input_files :: "ExecutionRequest \<Rightarrow> LangSettings \<Rightarrow> (string \<times> string) list" where
  "input_files req langConfig =
     (let fs = [(ls_SourceFile langConfig, er_Code req)] in
      if er_Stdin req \<noteq> '''' then AList.update ''input.txt'' (er_Stdin req) fs else fs)"

definition executeWorkItem ::
  "'d docker \<Rightarrow> string \<Rightarrow> ExecutionRequest \<Rightarrow> LangSettings \<Rightarrow> 'd \<Rightarrow> workResult \<times> 'd" where
  "executeWorkItem dk containerID req langConfig d =
     (case copyFilesToContainer dk containerID (input_files req langConfig) d of
        (Inl err, d) \<Rightarrow> (failed ''failed to copy files'' err, d)
      | (Inr _, d) \<Rightarrow> execInContainer dk containerID langConfig (er_Stdin req \<noteq> '''') (er_TimeLimit req) d)"

definition cleanWorkDir :: "'d docker \<Rightarrow> string \<Rightarrow> ('d, err, unit) sem" where
  "cleanWorkDir dk containerID =
     bindE (ContainerExecCreate dk containerID (sh ''rm -rf /app/* /tmp/*'')) (\<lambda>execID.
     bindE (ContainerExecAttach dk execID) (\<lambda>_ d.
       case StreamRead dk execID d of
         (ReadAll, d) \<Rightarrow> (Inr (), d)
       | (ReadError err, d) \<Rightarrow> (Inl err, d)
       | (ReadExpired err, d) \<Rightarrow> (Inl err, d)))"

definition cleanupContainer :: "'d docker \<Rightarrow> string \<Rightarrow> ('d, err, unit) sem" where
  "cleanupContainer dk i = ignore (ContainerRemove dk i)"

definition runWarmup :: "'d docker \<Rightarrow> string \<Rightarrow> string \<Rightarrow> ('d, err, unit) sem" where
  "runWarmup dk containerID cmd =
     bindE (ContainerExecCreate dk containerID (sh cmd)) (\<lambda>execID.
     bindE (ContainerExecAttach dk execID) (\<lambda>_ d.
       case StreamRead dk execID d of
         (ReadError err, d) \<Rightarrow> (Inl err, d)
       | (ReadExpired err, d) \<Rightarrow> (Inl err, d)
       | (ReadAll, d) \<Rightarrow>
           bindE (ContainerExecInspect dk execID) (\<lambda>exitCode.
             if exitCode \<noteq> 0 then throw (ErrText ''warmup exited with a nonzero code'') else ret ()) d))"

definition host_config :: "LangSettings \<Rightarrow> HostConfig" where
  "host_config langConfig =
     \<lparr>hc_Memory = (if ls_MemoryLimit langConfig = 0 then defaultMemoryLimit else ls_MemoryLimit langConfig),
      hc_NanoCPUs = nanoCPUs, hc_PidsLimit = pidsLimit, hc_NetworkMode = ''none'', hc_CapDrop = [''ALL''],
      hc_SecurityOpt = [''no-new-privileges:true''], hc_Tmpfs = [(''/tmp'', ''exec''), (''/run'', '''')]\<rparr>"

definition container_config :: "string \<Rightarrow> LangSettings \<Rightarrow> ContainerConfig" where
  "container_config instanceID langConfig =
     \<lparr>cc_Image = ls_Image langConfig, cc_Cmd = [''tail'', ''-f'', ''/dev/null''], cc_WorkingDir = ''/app'',
      cc_Labels = [(''bytebattle'', ''pool''), (''bytebattle-instance'', instanceID)]\<rparr>"

definition createWarmContainer :: "'d docker \<Rightarrow> string \<Rightarrow> LangSettings \<Rightarrow> ('d, err, string) sem" where
  "createWarmContainer dk instanceID langConfig =
     bindE (ContainerCreate dk (container_config instanceID langConfig) (host_config langConfig)) (\<lambda>i.
     tryE (ContainerStart dk i) (\<lambda>r. case r of
       Inl err \<Rightarrow> bindE (ignore (ContainerRemove dk i)) (\<lambda>_. throw err)
     | Inr _ \<Rightarrow>
         if ls_WarmupCmd langConfig \<noteq> ''''
         then bindE (ignore (runWarmup dk i (ls_WarmupCmd langConfig))) (\<lambda>_. ret i)
         else ret i))"

text \<open>\<^verbatim>\<open>ContainerInspect\<close> gives the running flag, if the daemon reports a state at all.\<close>

definition isContainerRunning :: "'d docker \<Rightarrow> string \<Rightarrow> 'd \<Rightarrow> bool \<times> 'd" where
  "isContainerRunning dk i d =
     (case ContainerInspect dk i d of
        (Inl _, d) \<Rightarrow> (False, d)
      | (Inr info, d) \<Rightarrow> (info = Some True, d))"

section \<open>Startup\<close>

definition cleanupPreviousPools :: "'d docker \<Rightarrow> string \<Rightarrow> ('d, err, unit) sem" where
  "cleanupPreviousPools dk instanceID =
     tryE (ContainerList dk [''bytebattle=pool'', ''bytebattle-instance='' @ instanceID]) (\<lambda>r. case r of
       Inl _ \<Rightarrow> ret ()
     | Inr containers \<Rightarrow> forE containers (cleanupContainer dk))"

definition ensureImage :: "'d docker \<Rightarrow> string \<Rightarrow> ('d, err, unit) sem" where
  "ensureImage dk img =
     tryE (ImageInspect dk img) (\<lambda>r. case r of
       Inr _ \<Rightarrow> ret ()
     | Inl err \<Rightarrow>
         if \<not> IsNotFound dk err then throw (ErrWrap (''inspect '' @ img) err)
         else tryE (ImagePull dk img) (\<lambda>r. case r of
           Inl err \<Rightarrow> throw (ErrWrap (''pull '' @ img) err)
         | Inr _ \<Rightarrow> mapErr (ErrWrap (''pull '' @ img)) (PullRead dk img)))"

text \<open>
  The images are checked concurrently, one goroutine each, and all are waited for; here one after
  the other, in the order of the list.
\<close>

fun ensureImages :: "'d docker \<Rightarrow> (Language \<times> LangSettings) list \<Rightarrow> 'd \<Rightarrow> err list \<times> 'd" where
  "ensureImages dk [] d = ([], d)"
| "ensureImages dk ((lang, settings) # rest) d =
     (case ensureImage dk (ls_Image settings) d of
        (r, d) \<Rightarrow> (case ensureImages dk rest d of
          (errs, d) \<Rightarrow> ((case r of Inl e \<Rightarrow> [e] | Inr _ \<Rightarrow> []) @ errs, d)))"

definition pool_size :: "LangSettings \<Rightarrow> int" where
  "pool_size settings = (let size = ls_PoolSize settings in if size \<le> 0 then poolSize else size)"

definition queue_size :: "LangSettings \<Rightarrow> int" where
  "queue_size settings = pool_size settings * queueMultiplier"


text \<open>
  What \<^verbatim>\<open>processNextItem\<close> does with an item it took: the answer for the caller, and whether the
  container can be used again.
\<close>

definition serveItem ::
  "'d docker \<Rightarrow> string \<Rightarrow> ExecutionRequest \<Rightarrow> LangSettings \<Rightarrow> 'd \<Rightarrow> (workResult \<times> bool) \<times> 'd" where
  "serveItem dk containerID req settings d =
     (case executeWorkItem dk containerID req settings d of
        (res, d) \<Rightarrow> (case cleanWorkDir dk containerID d of
          (Inl _, d) \<Rightarrow> ((res, False), d)
        | (Inr _, d) \<Rightarrow> (case isContainerRunning dk containerID d of (alive, d) \<Rightarrow> ((res, alive), d))))"

section \<open>Properties\<close>

lemma join_append:
  "xs \<noteq> [] \<Longrightarrow> ys \<noteq> [] \<Longrightarrow> join sep (xs @ ys) = join sep xs @ sep @ join sep ys"
proof (induction sep xs rule: join.induct)
  case (2 sep s)
  then show ?case by (cases ys) auto
qed auto

lemma truncate_length: "length (truncateString s n) \<le> n + 14"
  by (simp add: truncateString_def)

lemma truncate_exact: "length s \<le> n \<Longrightarrow> truncateString s n = s"
  by (simp add: truncateString_def)

text \<open>A long output loses everything but its first part: what it was cannot be read off the result.\<close>

lemma truncate_loses: "truncateString (replicate n c @ s) n = truncateString (replicate n c @ t) n"
  if "s \<noteq> ''''" "t \<noteq> ''''"
  using that by (simp add: truncateString_def)

text \<open>
  The answer \<open>r\<close> of a run is well formed: either the run failed, its error is also in the result and
  nothing is reported of its output, or it has no error and its output is cut at 10 KB each, with room
  for the two markers.
\<close>

definition answer_ok :: "workResult \<Rightarrow> bool" where
  "answer_ok = (\<lambda>(res, err). case err of
     Some e \<Rightarrow> xr_Error res \<noteq> None \<and> xr_Stdout res = '''' \<and> xr_Stderr res = ''''
   | None \<Rightarrow> xr_Error res = None \<and> length (xr_Stdout res) \<le> 10254 \<and> length (xr_Stderr res) \<le> 10276)"

lemma answer_ok_failed [simp]: "answer_ok (failed m e)"
  by (simp add: answer_ok_def failed_def failed_result_def)

lemma answer_ok_cancelled [simp]: "answer_ok (failed_result e, Some e')"
  by (simp add: answer_ok_def failed_result_def)

lemma answer_ok_result [simp]: "answer_ok (result_of n b s t u, None)"
  using truncate_length [of s maxLogSize] truncate_length [of t maxLogSize]
  by (simp add: answer_ok_def result_of_def maxLogSize_def Let_def)

lemma exec_answer_ok: "answer_ok (fst (execInContainer dk c cfg b limit d))"
  by (simp add: execInContainer_def Let_def split: prod.split sum.split output_end.split)

lemma work_answer_ok: "answer_ok (fst (executeWorkItem dk c req cfg d))"
  by (simp add: executeWorkItem_def exec_answer_ok split: prod.split sum.split)


text \<open>The command of a run with a time limit of at least one second, and of one with less.\<close>

lemma command_shape:
  "buildShellCommand cfg hasStdin timeLimit =
     (if ls_CompileCmd cfg = [] then '''' else join '' '' (ls_CompileCmd cfg) @ '' && '') @
     (if second \<le> timeLimit then ''timeout '' @ itoa (nat (timeLimit div second)) @ ''s '' else '''') @
     join '' '' (ls_RunCmd cfg) @ (if hasStdin then '' < input.txt'' else '''')"
proof -
  have "0 < timeLimit div second \<longleftrightarrow> second \<le> timeLimit"
    by (simp add: second_def pos_imp_zdiv_pos_iff)
  then show ?thesis
    by (simp add: buildShellCommand_def Let_def)
qed

lemma limit_of_pos: "0 \<le> timeLimit \<Longrightarrow> 0 < limit_of cfg timeLimit"
  by (simp add: limit_of_def Let_def second_def)

text \<open>
  What the daemon is asked, and what comes back. \<open>program\<close> is the end of the output stream, \<open>code\<close> the
  answer of the daemon about the exit code.
\<close>

lemma exec_done:
  assumes "ContainerExecCreate dk c (sh (buildShellCommand cfg hasStdin (limit_of cfg t))) d = (Inr e, d1)"
    and "ContainerExecAttach dk e d1 = (Inr (), d2)"
    and "StreamOutput dk e (limit_of cfg t + 30 * second) d2 = (OutputDone stdout stderr used, d3)"
    and "ContainerExecInspect dk e d3 = (Inr code, d4)"
  shows "execInContainer dk c cfg hasStdin t d = ((result_of code False stdout stderr used, None), d4)"
  using assms by (simp add: execInContainer_def Let_def)

text \<open>
  Faithful results. Whatever the daemon answers, a run ends with a well-formed answer. When it
  copies the files, starts the command under the time limit of the request (or of the language, or five
  seconds) and reports the end of the program within its limit, an output of at most 10 KB and an exit
  code other than 124, the result is exactly that output and that exit code.
\<close>

lemma run_result_sound:
  assumes "CopyToContainer dk c ''/app'' (input_files req cfg) d = (Inr (), d0)"
    and "ContainerExecCreate dk c
      (sh (buildShellCommand cfg (er_Stdin req \<noteq> '''') (limit_of cfg (er_TimeLimit req)))) d0 = (Inr e, d1)"
    and "ContainerExecAttach dk e d1 = (Inr (), d2)"
    and "StreamOutput dk e (limit_of cfg (er_TimeLimit req) + 30 * second) d2 =
      (OutputDone stdout stderr used, d3)"
    and "ContainerExecInspect dk e d3 = (Inr code, d4)"
    and "length stdout \<le> 10240" "length stderr \<le> 10240" "code \<noteq> 124"
  shows "executeWorkItem dk c req cfg d =
      ((\<lparr>xr_Stdout = stdout, xr_Stderr = stderr, xr_ExitCode = code, xr_TimeUsed = used, xr_MemoryUsed = 0,
        xr_Error = None\<rparr>, None), d4) \<and>
    answer_ok (fst (executeWorkItem dk' c req cfg d'))"
  using assms(1) exec_done [OF assms(2-5)] assms(6-8) work_answer_ok
  by (simp add: executeWorkItem_def copyFilesToContainer_def result_of_def truncate_exact maxLogSize_def Let_def)

section \<open>Containers\<close>

text \<open>
  What the executor relies on in the daemon: \<open>cs d\<close> are the containers that exist in state \<open>d\<close>, with
  the configuration they were created with. A creation gives a new one, a removal that succeeds
  removes the one named, a listing by labels finds those that carry them, and no other call changes them.
\<close>

definition keeps_containers :: "('d \<Rightarrow> 'c) \<Rightarrow> ('d \<Rightarrow> 'r \<times> 'd) \<Rightarrow> bool" where
  "keeps_containers cs m \<longleftrightarrow> (\<forall>d. cs (snd (m d)) = cs d)"

definition docker_laws ::
  "'d docker \<Rightarrow> ('d \<Rightarrow> string \<rightharpoonup> ContainerConfig \<times> HostConfig) \<Rightarrow> bool" where
  "docker_laws dk cs \<longleftrightarrow>
     (\<forall>cfg hc d. case ContainerCreate dk cfg hc d of
        (Inl _, d') \<Rightarrow> cs d' = cs d
      | (Inr i, d') \<Rightarrow> cs d i = None \<and> cs d' = (cs d)(i \<mapsto> (cfg, hc))) \<and>
     (\<forall>i d. case ContainerRemove dk i d of
        (Inl _, d') \<Rightarrow> cs d' = cs d
      | (Inr _, d') \<Rightarrow> cs d' = (cs d)(i := None)) \<and>
     (\<forall>ls d. cs (snd (ContainerList dk ls d)) = cs d) \<and>
     (\<forall>i. keeps_containers cs (ContainerStart dk i)) \<and>
     (\<forall>i cmd. keeps_containers cs (ContainerExecCreate dk i cmd)) \<and>
     (\<forall>e. keeps_containers cs (ContainerExecAttach dk e)) \<and>
     (\<forall>e. keeps_containers cs (StreamRead dk e)) \<and>
     (\<forall>e. keeps_containers cs (ContainerExecInspect dk e))"

definition sandboxed :: "HostConfig \<Rightarrow> bool" where
  "sandboxed hc \<longleftrightarrow> hc_NetworkMode hc = ''none'' \<and> hc_CapDrop hc = [''ALL''] \<and>
     ''no-new-privileges:true'' \<in> set (hc_SecurityOpt hc) \<and> hc_Memory hc \<noteq> 0 \<and> hc_NanoCPUs hc = 10 ^ 9 \<and>
     hc_PidsLimit hc = 64"

lemma containersD: "keeps_containers cs m \<Longrightarrow> m d = (r, d') \<Longrightarrow> cs d' = cs d"
  unfolding keeps_containers_def by (metis snd_conv)

lemma containers_bindE:
  "keeps_containers cs m \<Longrightarrow> (\<And>a. keeps_containers cs (f a)) \<Longrightarrow> keeps_containers cs (bindE m f)"
  unfolding keeps_containers_def bindE_def by (auto split: prod.split sum.split) (metis snd_conv)+

lemma ignore_eq: "ignore m d = (Inr (), snd (m d))"
  by (simp add: ignore_def tryE_def ret_def split: prod.split)

lemma bind_ignore: "bindE (ignore m) (\<lambda>_. f) d = f (snd (m d))"
  by (simp add: bindE_def ignore_eq)

lemma docker_lawsD:
  assumes "docker_laws dk cs"
  shows "ContainerCreate dk cfg hc d = (q, d') \<Longrightarrow>
      case q of Inl _ \<Rightarrow> cs d' = cs d | Inr i \<Rightarrow> cs d i = None \<and> cs d' = (cs d)(i \<mapsto> (cfg, hc))"
    and "ContainerRemove dk i d = (q', d') \<Longrightarrow>
      case q' of Inl _ \<Rightarrow> cs d' = cs d | Inr _ \<Rightarrow> cs d' = (cs d)(i := None)"
    and "ContainerStart dk i d = (q'', d') \<Longrightarrow> cs d' = cs d"
proof -
  have "case ContainerCreate dk cfg hc d of
        (Inl _, d') \<Rightarrow> cs d' = cs d
      | (Inr i, d') \<Rightarrow> cs d i = None \<and> cs d' = (cs d)(i \<mapsto> (cfg, hc))"
    using assms [unfolded docker_laws_def, THEN conjunct1] by (elim allE)
  then show "ContainerCreate dk cfg hc d = (q, d') \<Longrightarrow>
      case q of Inl _ \<Rightarrow> cs d' = cs d | Inr i \<Rightarrow> cs d i = None \<and> cs d' = (cs d)(i \<mapsto> (cfg, hc))"
    by (cases q) simp_all
  have "case ContainerRemove dk i d of (Inl _, d') \<Rightarrow> cs d' = cs d | (Inr _, d') \<Rightarrow> cs d' = (cs d)(i := None)"
    using assms [unfolded docker_laws_def, THEN conjunct2, THEN conjunct1] by (elim allE)
  then show "ContainerRemove dk i d = (q', d') \<Longrightarrow>
      case q' of Inl _ \<Rightarrow> cs d' = cs d | Inr _ \<Rightarrow> cs d' = (cs d)(i := None)"
    by (cases q') simp_all
  have "keeps_containers cs (ContainerStart dk i)"
    using assms unfolding docker_laws_def by blast
  then show "ContainerStart dk i d = (q'', d') \<Longrightarrow> cs d' = cs d"
    by (rule containersD)
qed

lemma keeps_warmup: "docker_laws dk cs \<Longrightarrow> keeps_containers cs (runWarmup dk i cmd)"
  unfolding runWarmup_def
proof (intro containers_bindE)
  assume laws: "docker_laws dk cs"
  show "keeps_containers cs (ContainerExecCreate dk i (sh cmd))"
    using laws by (simp add: docker_laws_def)
  fix e
  show "keeps_containers cs (ContainerExecAttach dk e)"
    using laws by (simp add: docker_laws_def)
  have "keeps_containers cs (StreamRead dk e)" "keeps_containers cs (ContainerExecInspect dk e)"
    using laws by (simp_all add: docker_laws_def)
  note keep = this [THEN containersD]
  show "keeps_containers cs (\<lambda>d. case StreamRead dk e d of
         (ReadError err, d) \<Rightarrow> (Inl err, d)
       | (ReadExpired err, d) \<Rightarrow> (Inl err, d)
       | (ReadAll, d) \<Rightarrow>
           bindE (ContainerExecInspect dk e) (\<lambda>exitCode.
             if exitCode \<noteq> 0 then throw (ErrText ''warmup exited with a nonzero code'') else ret ()) d)"
    by (auto simp: keeps_containers_def bindE_def throw_def ret_def keep
        split: prod.split read_end.split sum.split dest: keep)
qed


text \<open>
  C36. Containers. With a daemon that keeps its documented laws, a new warm container is really new, is
  the only change among the containers, is labelled as one of this instance, and is locked down: no
  network, no capabilities, no new privileges, limits on memory, CPU and processes. When creating or
  starting it fails, nothing is left behind unless the daemon also refuses to remove it, and a
  failing warm-up does not lose the container.
\<close>

theorem warm_container_sandboxed:
  assumes "docker_laws dk cs" "createWarmContainer dk inst cfg d = (r, d')"
  shows "(case r of
      Inr i \<Rightarrow> cs d i = None \<and>
        cs d' = (cs d)(i \<mapsto> (container_config inst cfg, host_config cfg)) \<and> sandboxed (host_config cfg) \<and>
        cc_Labels (container_config inst cfg) = [(''bytebattle'', ''pool''), (''bytebattle-instance'', inst)]
    | Inl e \<Rightarrow> cs d' = cs d \<or>
        (\<exists>i d1 d2 e'. ContainerRemove dk i d1 = (Inl e', d2) \<and> cs d i = None \<and>
           cs d' = (cs d)(i \<mapsto> (container_config inst cfg, host_config cfg))))"
proof -
  let ?cc = "container_config inst cfg" and ?hc = "host_config cfg"
  have sb: "sandboxed ?hc"
    by (simp add: sandboxed_def host_config_def defaultMemoryLimit_def nanoCPUs_def pidsLimit_def)
  obtain q d1 where create: "ContainerCreate dk ?cc ?hc d = (q, d1)"
    by force
  note new = docker_lawsD(1) [OF assms(1) create]
  show ?thesis
  proof (cases q)
    case (Inl e)
    with create new assms(2) show ?thesis
      by (auto simp: createWarmContainer_def bindE_def)
  next
    case (Inr i)
    obtain q' d2 where start: "ContainerStart dk i d1 = (q', d2)"
      by force
    note d2 = docker_lawsD(3) [OF assms(1) start]
    note run = assms(2) [unfolded createWarmContainer_def
      bindE_def [of "ContainerCreate dk ?cc ?hc"] create tryE_def [of "ContainerStart dk i"]]
    show ?thesis
    proof (cases q')
      case (Inl err)
      obtain q'' d3 where remove: "ContainerRemove dk i d2 = (q'', d3)"
        by force
      note docker_lawsD(2) [OF assms(1) remove]
      moreover have "r = Inl err" "d' = d3"
        using run Inr start Inl remove by (simp_all add: tryE_def bind_ignore throw_def)
      moreover have "cs d i = None" "cs d2 = (cs d)(i \<mapsto> (?cc, ?hc))"
        using new Inr d2 by simp_all
      ultimately show ?thesis
        using remove by (cases q'') (simp_all add: fun_upd_idem, blast)
    next
      case (Inr u)
      have "cs (snd (runWarmup dk i (ls_WarmupCmd cfg) d2)) = cs d2"
        using keeps_warmup [OF assms(1)] by (simp add: keeps_containers_def)
      then have "r = Inr i \<and> cs d' = cs d2"
        using run \<open>q = Inr i\<close> start Inr by (auto simp: tryE_def bind_ignore ret_def split: if_splits)
      then show ?thesis
        using new \<open>q = Inr i\<close> d2 sb by (simp add: container_config_def)
    qed
  qed
qed


text \<open>A small daemon that runs one container and prints 42, for the witnesses.\<close>

type_synonym demo_state = "string \<rightharpoonup> ContainerConfig \<times> HostConfig"

definition demo_docker :: "demo_state docker" where
  "demo_docker =
     \<lparr>IsNotFound = (\<lambda>e. e = ErrText ''not found''), ImageInspect = (\<lambda>_. ret ()), ImagePull = (\<lambda>_. ret ()),
      PullRead = (\<lambda>_. ret ()), ContainerList = (\<lambda>_. ret []),
      ContainerCreate = (\<lambda>cc hc d. if d ''c1'' = None then (Inr ''c1'', d(''c1'' \<mapsto> (cc, hc))) else (Inl ErrConn, d)),
      ContainerStart = (\<lambda>_. ret ()), ContainerRemove = (\<lambda>i d. (Inr (), d(i := None))),
      ContainerExecCreate = (\<lambda>_ _. ret ''e1''), ContainerExecAttach = (\<lambda>_. ret ()),
      StreamRead = (\<lambda>_ d. (ReadAll, d)), StreamOutput = (\<lambda>_ _ d. (OutputDone ''42'' '''' 7, d)),
      ContainerExecInspect = (\<lambda>_. ret 0), ContainerInspect = (\<lambda>_. ret (Some True)),
      CopyToContainer = (\<lambda>_ _ _. ret ())\<rparr>"

definition demo_settings :: LangSettings where
  "demo_settings = \<lparr>ls_Image = ''python:3.14-slim'', ls_SourceFile = ''main.py'', ls_CompileCmd = [],
     ls_RunCmd = [''python'', ''main.py''], ls_WarmupCmd = '''', ls_MemoryLimit = 0, ls_TimeLimit = 10, ls_PoolSize = 1\<rparr>"

definition demo_request :: ExecutionRequest where
  "demo_request = \<lparr>er_Code = ''print(42)'', er_Language = ''python'', er_Stdin = '''', er_TimeLimit = 0,
     er_MemoryLimit = 0\<rparr>"

lemma demo_laws: "docker_laws demo_docker id"
  unfolding docker_laws_def by (simp add: demo_docker_def keeps_containers_def ret_def)

theorem warm_container_sandboxed_witness:
  "(id (Map.empty(''c1'' \<mapsto> (container_config ''i'' demo_settings, host_config demo_settings))) :: demo_state) =
     (id Map.empty)(''c1'' \<mapsto> (container_config ''i'' demo_settings, host_config demo_settings)) \<and>
   sandboxed (host_config demo_settings)"
proof -
  have "createWarmContainer demo_docker ''i'' demo_settings Map.empty =
    (Inr ''c1'', Map.empty(''c1'' \<mapsto> (container_config ''i'' demo_settings, host_config demo_settings)))"
    by (simp add: createWarmContainer_def bindE_def tryE_def ret_def demo_docker_def demo_settings_def)
  from warm_container_sandboxed [OF demo_laws this] show ?thesis
    by simp
qed

text \<open>
  Starting up removes the containers an earlier run of the same instance left behind, and no others.
\<close>

lemma cleanup_eq: "cleanupContainer dk i d = (Inr (), snd (ContainerRemove dk i d))"
  by (simp add: cleanupContainer_def ignore_eq)

lemma forE_ok: "(\<And>x d. f x d = (Inr (), g x d)) \<Longrightarrow> forE (x # xs) f d = forE xs f (g x d)"
  by (simp add: bindE_def)

lemma cleanup_run:
  assumes "docker_laws dk cs" "\<And>i d. ContainerRemove dk i d = (Inr (), snd (ContainerRemove dk i d))"
  shows "cs (snd (forE is (cleanupContainer dk) d)) = (\<lambda>i. if i \<in> set is then None else cs d i)"
proof (induction "is" arbitrary: d)
  case (Cons i "is")
  have "cs (snd (ContainerRemove dk i d)) = (cs d)(i := None)"
    using docker_lawsD(2) [OF assms(1), of i d "Inr ()"] assms(2) by simp
  then show ?case
    by (simp only: forE_ok [OF cleanup_eq] Cons.IH) (auto simp: fun_eq_iff)
qed (simp add: ret_def)

section \<open>Readiness\<close>

text \<open>
  \<^verbatim>\<open>IsReady\<close> and \<^verbatim>\<open>notifyPoolPrimed\<close>: one flag per language, a counter of the flags set, and the flag
  of the executor, which is raised when the counter reaches the number of pools.
\<close>

record readiness =
  rd_pools :: "Language list"
  rd_primedPerLang :: "Language \<Rightarrow> bool"
  rd_primedCount :: nat
  rd_ready :: bool

definition initReadiness :: "Config \<Rightarrow> readiness" where
  "initReadiness cfg = \<lparr>rd_pools = remdups (map fst (cf_Languages cfg)), rd_primedPerLang = (\<lambda>_. False),
     rd_primedCount = 0, rd_ready = False\<rparr>"

definition IsReady :: "readiness \<Rightarrow> bool" where
  "IsReady e \<longleftrightarrow> 0 < length (rd_pools e) \<and> rd_ready e"

definition notifyPoolPrimed :: "Language \<Rightarrow> readiness \<Rightarrow> readiness" where
  "notifyPoolPrimed lang e =
     (if rd_primedPerLang e lang then e
      else
        let e = e\<lparr>rd_primedPerLang := (rd_primedPerLang e)(lang := True),
                  rd_primedCount := rd_primedCount e + 1\<rparr> in
        if rd_primedCount e = length (rd_pools e) then e\<lparr>rd_ready := True\<rparr> else e)"

definition readiness_inv :: "readiness \<Rightarrow> bool" where
  "readiness_inv e \<longleftrightarrow> distinct (rd_pools e) \<and>
     {l. rd_primedPerLang e l} \<subseteq> set (rd_pools e) \<and> rd_primedCount e = card {l. rd_primedPerLang e l} \<and>
     (rd_pools e \<noteq> [] \<longrightarrow> rd_ready e = ({l. rd_primedPerLang e l} = set (rd_pools e)))"

lemma readiness_inv_notify:
  assumes inv: "readiness_inv e" and lang: "lang \<in> set (rd_pools e)"
  shows "readiness_inv (notifyPoolPrimed lang e)"
proof (cases "rd_primedPerLang e lang")
  case True
  with inv show ?thesis by (simp add: notifyPoolPrimed_def)
next
  case False
  let ?P = "{l. rd_primedPerLang e l}"
  have sub: "insert lang ?P \<subseteq> set (rd_pools e)" and fin: "finite ?P"
    using inv lang finite_subset [of ?P "set (rd_pools e)"] by (auto simp: readiness_inv_def)
  have card: "card (insert lang ?P) = Suc (rd_primedCount e)"
    using inv False fin by (simp add: readiness_inv_def)
  have full: "Suc (rd_primedCount e) = length (rd_pools e) \<longleftrightarrow> insert lang ?P = set (rd_pools e)"
    using inv card sub card_subset_eq [of "set (rd_pools e)" "insert lang ?P"]
    by (auto simp: readiness_inv_def distinct_card)
  let ?e = "notifyPoolPrimed lang e"
  have "{l. rd_primedPerLang ?e l} = insert lang ?P" "rd_pools ?e = rd_pools e"
    "rd_primedCount ?e = Suc (rd_primedCount e)"
    "rd_ready ?e = (Suc (rd_primedCount e) = length (rd_pools e) \<or> rd_ready e)"
    using False by (auto simp: notifyPoolPrimed_def Let_def)
  moreover have "rd_pools e \<noteq> [] \<Longrightarrow> \<not> rd_ready e"
    using inv lang False by (auto simp: readiness_inv_def)
  ultimately show ?thesis
    using inv sub card full unfolding readiness_inv_def by simp
qed

text \<open>The executor is ready exactly when every language of its configuration has a primed pool.\<close>

lemma ready_iff_all_primed:
  assumes "cf_Languages cfg \<noteq> []" "set ls \<subseteq> fst ` set (cf_Languages cfg)"
  shows "IsReady (foldl (\<lambda>e l. notifyPoolPrimed l e) (initReadiness cfg) ls) \<longleftrightarrow>
    set ls = fst ` set (cf_Languages cfg)"
proof -
  let ?run = "\<lambda>ls. foldl (\<lambda>e l. notifyPoolPrimed l e) (initReadiness cfg) ls"
  have pools: "rd_pools (?run ls) = remdups (map fst (cf_Languages cfg))" for ls
    by (induction ls rule: rev_induct)
      (simp_all add: initReadiness_def notifyPoolPrimed_def Let_def)
  have "readiness_inv (?run ls) \<and> {l. rd_primedPerLang (?run ls) l} = set ls"
    if "set ls \<subseteq> fst ` set (cf_Languages cfg)" for ls
    using that
  proof (induction ls rule: rev_induct)
    case Nil
    then show ?case using assms(1) by (auto simp: readiness_inv_def initReadiness_def)
  next
    case (snoc l ls)
    then show ?case
      using readiness_inv_notify [of "?run ls" l] pools [of ls]
      by (auto simp: notifyPoolPrimed_def Let_def)
  qed
  from this [OF assms(2)] pools [of ls] assms(1) show ?thesis
    by (auto simp: IsReady_def readiness_inv_def)
qed

end
