(* ===== verification/Executor_Pool.thy ===== *)
theory Executor_Pool
  imports Executor
begin

text \<open>
  The pool of one language in \<^verbatim>\<open>internal/executor/docker_executor.go\<close>: callers of \<^verbatim>\<open>Run\<close>, the bounded queue,
  and the workers of \<^verbatim>\<open>runWorker\<close>, as an interleaving machine. Its steps are the channel operations, the
  docker calls (whose outcome is free) and the shutdown. A request is known by the number of its caller.
\<close>

section \<open>The machine\<close>

datatype answer = Executed workResult | ShuttingDown

datatype run_result = Answered answer | Overloaded | Refused | Cancelled err

datatype caller_pc = Outside | Admitted | Waiting | Returned run_result

text \<open>
  A worker without container creates one, and after a failure waits a second or for the shutdown.
  With a container it takes an item, answers it, cleans the container and keeps or replaces it; on
  shutdown it drains the queue and removes the container.
\<close>

datatype worker_pc =
    NoContainer | Retrying | Warm nat | Working nat nat | Cleaning nat | Draining nat | Stopped

record langPool =
  lp_cap :: nat
  lp_queue :: "nat list"
  lp_down :: bool
  lp_result :: "nat \<Rightarrow> answer list"
  lp_worker :: "nat \<Rightarrow> worker_pc"
  lp_caller :: "nat \<Rightarrow> caller_pc"
  lp_containers :: "nat set"
  lp_next :: nat
  lp_primed :: bool

definition worker_to :: "nat \<Rightarrow> worker_pc \<Rightarrow> langPool \<Rightarrow> langPool" where
  "worker_to w pc s = s\<lparr>lp_worker := (lp_worker s)(w := pc)\<rparr>"

definition caller_to :: "nat \<Rightarrow> caller_pc \<Rightarrow> langPool \<Rightarrow> langPool" where
  "caller_to i pc s = s\<lparr>lp_caller := (lp_caller s)(i := pc)\<rparr>"

definition answered :: "nat \<Rightarrow> answer \<Rightarrow> langPool \<Rightarrow> langPool" where
  "answered i a s = s\<lparr>lp_result := (lp_result s)(i := lp_result s i @ [a])\<rparr>"

inductive worker_step :: "nat \<Rightarrow> langPool \<Rightarrow> langPool \<Rightarrow> bool" for w where
  create: "lp_worker s w = NoContainer \<Longrightarrow>
    worker_step w s (worker_to w (Warm (lp_next s))
      (s\<lparr>lp_containers := insert (lp_next s) (lp_containers s), lp_next := Suc (lp_next s), lp_primed := True\<rparr>))"
| create_fails: "lp_worker s w = NoContainer \<Longrightarrow> worker_step w s (worker_to w Retrying s)"
| retry: "lp_worker s w = Retrying \<Longrightarrow> worker_step w s (worker_to w NoContainer s)"
| give_up: "lp_worker s w = Retrying \<Longrightarrow> lp_down s \<Longrightarrow> worker_step w s (worker_to w Stopped s)"
| take: "lp_worker s w = Warm c \<Longrightarrow> lp_queue s = i # q \<Longrightarrow>
    worker_step w s (worker_to w (Working c i) (s\<lparr>lp_queue := q\<rparr>))"
| answer: "lp_worker s w = Working c i \<Longrightarrow> length (lp_result s i) < 1 \<Longrightarrow>
    worker_step w s (worker_to w (Cleaning c) (answered i (Executed r) s))"
| reuse: "lp_worker s w = Cleaning c \<Longrightarrow> worker_step w s (worker_to w (Warm c) s)"
| discard: "lp_worker s w = Cleaning c \<Longrightarrow>
    worker_step w s (worker_to w NoContainer (s\<lparr>lp_containers := lp_containers s - {c}\<rparr>))"
| see_shutdown: "lp_worker s w = Warm c \<Longrightarrow> lp_down s \<Longrightarrow> worker_step w s (worker_to w (Draining c) s)"
| drain: "lp_worker s w = Draining c \<Longrightarrow> lp_queue s = i # q \<Longrightarrow> length (lp_result s i) < 1 \<Longrightarrow>
    worker_step w s (answered i ShuttingDown (s\<lparr>lp_queue := q\<rparr>))"
| stop: "lp_worker s w = Draining c \<Longrightarrow> lp_queue s = [] \<Longrightarrow>
    worker_step w s (worker_to w Stopped (s\<lparr>lp_containers := lp_containers s - {c}\<rparr>))"

inductive caller_step :: "nat \<Rightarrow> langPool \<Rightarrow> langPool \<Rightarrow> bool" for i where
  admit: "lp_caller s i = Outside \<Longrightarrow> \<not> lp_down s \<Longrightarrow> caller_step i s (caller_to i Admitted s)"
| refuse: "lp_caller s i = Outside \<Longrightarrow> lp_down s \<Longrightarrow> caller_step i s (caller_to i (Returned Refused) s)"
| enqueue: "lp_caller s i = Admitted \<Longrightarrow> length (lp_queue s) < lp_cap s \<Longrightarrow>
    caller_step i s (caller_to i Waiting (s\<lparr>lp_queue := lp_queue s @ [i]\<rparr>))"
| queue_full: "lp_caller s i = Admitted \<Longrightarrow> \<not> length (lp_queue s) < lp_cap s \<Longrightarrow>
    caller_step i s (caller_to i (Returned Overloaded) s)"
| receive: "lp_caller s i = Waiting \<Longrightarrow> lp_result s i = a # as \<Longrightarrow>
    caller_step i s (caller_to i (Returned (Answered a)) (s\<lparr>lp_result := (lp_result s)(i := as)\<rparr>))"
| cancel: "lp_caller s i = Waiting \<Longrightarrow> caller_step i s (caller_to i (Returned (Cancelled e)) s)"

inductive pool_step :: "langPool \<Rightarrow> langPool \<Rightarrow> bool" where
  worker: "worker_step w s s' \<Longrightarrow> pool_step s s'"
| caller: "caller_step i s s' \<Longrightarrow> pool_step s s'"
| shutdown: "pool_step s (s\<lparr>lp_down := True\<rparr>)"

text \<open>The pool \<^verbatim>\<open>initPools\<close> makes for a language, all workers about to start.\<close>

definition initPool :: "LangSettings \<Rightarrow> langPool" where
  "initPool settings =
     \<lparr>lp_cap = nat (queue_size settings), lp_queue = [], lp_down = False, lp_result = (\<lambda>_. []),
      lp_worker = (\<lambda>w. if int w < pool_size settings then NoContainer else Stopped),
      lp_caller = (\<lambda>_. Outside), lp_containers = {}, lp_next = 0, lp_primed = False\<rparr>"

inductive reachable :: "LangSettings \<Rightarrow> langPool \<Rightarrow> bool" for settings where
  init: "reachable settings (initPool settings)"
| step: "reachable settings s \<Longrightarrow> pool_step s s' \<Longrightarrow> reachable settings s'"

inductive_cases worker_stepE: "worker_step w s s'"
inductive_cases caller_stepE: "caller_step i s s'"

section \<open>The invariant\<close>

fun container :: "worker_pc \<Rightarrow> nat option" where
  "container (Warm c) = Some c"
| "container (Working c i) = Some c"
| "container (Cleaning c) = Some c"
| "container (Draining c) = Some c"
| "container _ = None"

fun task :: "worker_pc \<Rightarrow> nat option" where
  "task (Working c i) = Some i"
| "task _ = None"

text \<open>
  \<open>owns f C n\<close>: the workers own the containers \<open>C\<close>, each its own, and no container from \<open>n\<close> on exists.
\<close>

definition owns :: "(nat \<rightharpoonup> nat) \<Rightarrow> nat set \<Rightarrow> nat \<Rightarrow> bool" where
  "owns f C n \<longleftrightarrow> inj_on f (dom f) \<and> C = ran f \<and> (\<forall>c \<in> C. c < n)"

text \<open>
  \<open>scheduled t q r\<close>: a request is at one place at most, in the queue \<open>q\<close>, with a worker, or answered.
\<close>

definition scheduled :: "(nat \<rightharpoonup> nat) \<Rightarrow> nat list \<Rightarrow> (nat \<Rightarrow> answer list) \<Rightarrow> bool" where
  "scheduled t q r \<longleftrightarrow>
     distinct q \<and> inj_on t (dom t) \<and> set q \<inter> ran t = {} \<and>
     (\<forall>i \<in> set q \<union> ran t. r i = []) \<and> (\<forall>i. length (r i) \<le> 1)"

definition pending :: "langPool \<Rightarrow> nat \<Rightarrow> bool" where
  "pending s i \<longleftrightarrow> i \<in> set (lp_queue s) \<union> ran (task \<circ> lp_worker s) \<or> lp_result s i \<noteq> []"

fun may_pend :: "caller_pc \<Rightarrow> bool" where
  "may_pend Waiting = True"
| "may_pend (Returned (Cancelled e)) = True"
| "may_pend _ = False"

definition callers_ok :: "langPool \<Rightarrow> bool" where
  "callers_ok s \<longleftrightarrow> (\<forall>i. (pending s i \<longrightarrow> may_pend (lp_caller s i)) \<and> (lp_caller s i = Waiting \<longrightarrow> pending s i))"

definition workers_ok :: "langPool \<Rightarrow> bool" where
  "workers_ok s \<longleftrightarrow> owns (container \<circ> lp_worker s) (lp_containers s) (lp_next s) \<and>
     scheduled (task \<circ> lp_worker s) (lp_queue s) (lp_result s) \<and> length (lp_queue s) \<le> lp_cap s"

definition pool_inv :: "langPool \<Rightarrow> bool" where
  "pool_inv s \<longleftrightarrow> workers_ok s \<and> callers_ok s"

lemmas pool_defs = worker_to_def caller_to_def answered_def

lemma owns_create:
  assumes "owns f C n" "f w = None"
  shows "owns (f(w \<mapsto> n)) (insert n C) (Suc n)"
proof -
  have "n \<notin> ran f"
    using assms(1) by (auto simp: owns_def)
  then have "inj_on (f(w \<mapsto> n)) (dom (f(w \<mapsto> n)))"
    using assms by (auto simp: owns_def inj_on_def ran_def)
  with assms show ?thesis
    by (auto simp: owns_def less_Suc_eq)
qed

lemma inj_dom_upd_None: "inj_on f (dom f) \<Longrightarrow> inj_on (f(w := None)) (dom (f(w := None)))"
  by (auto simp: inj_on_def)

lemma ran_upd_None:
  assumes "inj_on f (dom f)" "f w = Some c"
  shows "ran (f(w := None)) = ran f - {c}"
  using assms by (auto simp: ran_def inj_on_def dom_def) (metis option.inject)

lemma owns_drop: "owns f C n \<Longrightarrow> f w = Some c \<Longrightarrow> owns (f(w := None)) (C - {c}) n"
  unfolding owns_def using inj_dom_upd_None [of f w] by (auto simp: ran_upd_None simp del: dom_fun_upd)

lemma scheduled_take:
  assumes "scheduled t (i # q) r" "t w = None"
  shows "scheduled (t(w \<mapsto> i)) q r"
proof -
  have "inj_on (t(w \<mapsto> i)) (dom (t(w \<mapsto> i)))"
    using assms by (auto simp: scheduled_def inj_on_def ran_def)
  with assms show ?thesis
    by (auto simp: scheduled_def)
qed

lemma scheduled_answer:
  assumes "scheduled t q r" "t w = Some i"
  shows "scheduled (t(w := None)) q (r(i := r i @ [a]))"
proof -
  have "i \<in> ran t" "r i = []"
    using assms by (auto simp: scheduled_def ran_def)
  with assms inj_dom_upd_None [of t w] show ?thesis
    by (auto simp: scheduled_def ran_upd_None simp del: dom_fun_upd)
qed

lemma scheduled_drain: "scheduled t (i # q) r \<Longrightarrow> scheduled t q (r(i := r i @ [a]))"
  by (auto simp: scheduled_def)

lemma scheduled_enqueue:
  "scheduled t q r \<Longrightarrow> i \<notin> set q \<union> ran t \<Longrightarrow> r i = [] \<Longrightarrow> scheduled t (q @ [i]) r"
  by (auto simp: scheduled_def)

lemma scheduled_receive: "scheduled t q r \<Longrightarrow> r i = a # as \<Longrightarrow> scheduled t q (r(i := as))"
  unfolding scheduled_def by (metis (no_types, lifting) fun_upd_apply length_Cons list.distinct(1) Suc_leD)

lemma upd_same: "(f(x := y)) = f \<longleftrightarrow> f x = y"
  by (metis fun_upd_idem_iff)

lemma comp_worker:
  "f \<circ> lp_worker (worker_to w pc s) = (f \<circ> lp_worker s)(w := f pc)"
  by (simp add: worker_to_def fun_eq_iff)

lemma worker_to_sel [simp]:
  "lp_queue (worker_to w pc s) = lp_queue s" "lp_result (worker_to w pc s) = lp_result s"
  "lp_containers (worker_to w pc s) = lp_containers s" "lp_next (worker_to w pc s) = lp_next s"
  "lp_cap (worker_to w pc s) = lp_cap s" "lp_caller (worker_to w pc s) = lp_caller s"
  "lp_queue (answered i a s) = lp_queue s" "lp_result (answered i a s) = (lp_result s)(i := lp_result s i @ [a])"
  "lp_containers (answered i a s) = lp_containers s" "lp_next (answered i a s) = lp_next s"
  "lp_cap (answered i a s) = lp_cap s" "lp_caller (answered i a s) = lp_caller s"
  "lp_worker (answered i a s) = lp_worker s"
  by (simp_all add: worker_to_def answered_def)

lemma init_idle:
  "container \<circ> lp_worker (initPool settings) = Map.empty" "task \<circ> lp_worker (initPool settings) = Map.empty"
  by (simp_all add: initPool_def fun_eq_iff)

lemma pool_inv_init: "pool_inv (initPool settings)"
  unfolding pool_inv_def workers_ok_def callers_ok_def pending_def init_idle
  by (simp add: owns_def scheduled_def initPool_def)

lemma workers_ok_step: "worker_step w s s' \<Longrightarrow> workers_ok s \<Longrightarrow> workers_ok s'"
proof (induction rule: worker_step.induct)
  case (create s)
  then show ?case
    by (auto simp: workers_ok_def comp_worker fun_upd_idem intro: owns_create)
next
  case (take s c i q)
  then show ?case
    by (auto simp: workers_ok_def comp_worker fun_upd_idem intro: scheduled_take)
next
  case (answer s c i r)
  then show ?case
    using scheduled_answer [of "task \<circ> lp_worker s" "lp_queue s" "lp_result s" w i "Executed r"]
    by (simp add: workers_ok_def comp_worker fun_upd_idem)
next
  case (discard s c)
  then show ?case
    by (auto simp: workers_ok_def comp_worker fun_upd_idem intro: owns_drop)
next
  case (drain s c i q)
  then show ?case
    using scheduled_drain [of "task \<circ> lp_worker s" i q "lp_result s" ShuttingDown]
    by (simp add: workers_ok_def)
next
  case (stop s c)
  then show ?case
    by (auto simp: workers_ok_def comp_worker fun_upd_idem intro: owns_drop)
qed (simp_all add: workers_ok_def comp_worker fun_upd_idem)


text \<open>A worker moves requests from place to place, but neither adds nor loses one.\<close>

lemma workers_okD:
  assumes "workers_ok s"
  shows "owns (container \<circ> lp_worker s) (lp_containers s) (lp_next s)"
    and "scheduled (task \<circ> lp_worker s) (lp_queue s) (lp_result s)"
    and "inj_on (task \<circ> lp_worker s) (dom (task \<circ> lp_worker s))"
  using assms by (simp_all add: workers_ok_def scheduled_def)

lemma pending_to:
  "pending (worker_to w pc s) i \<longleftrightarrow>
     i \<in> set (lp_queue s) \<union> ran ((task \<circ> lp_worker s)(w := task pc)) \<or> lp_result s i \<noteq> []"
  by (simp add: pending_def comp_worker)

lemma pending_step:
  "worker_step w s s' \<Longrightarrow> workers_ok s \<Longrightarrow> pending s' = pending s \<and> lp_caller s' = lp_caller s"
proof (induction rule: worker_step.induct)
  case (answer s c i r)
  then have "ran ((task \<circ> lp_worker s)(w := None)) = ran (task \<circ> lp_worker s) - {i}"
    by (intro ran_upd_None workers_okD(3)) simp_all
  moreover have "i \<in> ran (task \<circ> lp_worker s)"
    using answer(1) by (intro ranI [where a = w]) simp
  ultimately show ?case
    by (simp add: fun_eq_iff pending_to) (simp add: pending_def)
next
  case (drain s c i q)
  then show ?case
    by (simp add: pending_def fun_eq_iff)
next
  case (take s c i q)
  then show ?case
    by (simp add: fun_eq_iff pending_to) (simp add: pending_def)
qed (simp_all add: fun_eq_iff pending_to fun_upd_idem, simp_all add: pending_def)

lemma callers_ok_cong:
  "callers_ok s \<Longrightarrow> pending s' = pending s \<Longrightarrow> lp_caller s' = lp_caller s \<Longrightarrow> callers_ok s'"
  by (simp add: callers_ok_def)

lemma caller_to_sel [simp]:
  "lp_queue (caller_to i pc s) = lp_queue s" "lp_result (caller_to i pc s) = lp_result s"
  "lp_containers (caller_to i pc s) = lp_containers s" "lp_next (caller_to i pc s) = lp_next s"
  "lp_cap (caller_to i pc s) = lp_cap s" "lp_worker (caller_to i pc s) = lp_worker s"
  "lp_caller (caller_to i pc s) = (lp_caller s)(i := pc)"
  by (simp_all add: caller_to_def)

lemma not_pending: "callers_ok s \<Longrightarrow> \<not> may_pend (lp_caller s i) \<Longrightarrow> \<not> pending s i"
  by (auto simp: callers_ok_def)

lemma caller_inv: "caller_step i s s' \<Longrightarrow> pool_inv s \<Longrightarrow> pool_inv s'"
proof (induction rule: caller_step.induct)
  case (enqueue s)
  then have "\<not> pending s i"
    by (intro not_pending) (simp_all add: pool_inv_def)
  with enqueue show ?case
    by (auto simp: pool_inv_def workers_ok_def callers_ok_def pending_def intro!: scheduled_enqueue)
next
  case (receive s a as)
  then have sched: "scheduled (task \<circ> lp_worker s) (lp_queue s) (lp_result s)"
    by (simp add: pool_inv_def workers_ok_def)
  with receive(2) have "as = []" "i \<notin> set (lp_queue s) \<union> ran (task \<circ> lp_worker s)"
    by (auto simp: scheduled_def) (metis One_nat_def Suc_le_mono le_0_eq length_0_conv length_Cons)
  with receive show ?case
    using scheduled_receive [OF sched receive(2)]
    by (auto simp: pool_inv_def workers_ok_def callers_ok_def pending_def)
qed (auto simp: pool_inv_def workers_ok_def callers_ok_def pending_def)

lemma pool_inv_step: "pool_step s s' \<Longrightarrow> pool_inv s \<Longrightarrow> pool_inv s'"
proof (induction rule: pool_step.induct)
  case (worker w s s')
  then show ?case
    using workers_ok_step pending_step callers_ok_cong unfolding pool_inv_def by blast
next
  case (shutdown s)
  then show ?case
    by (simp add: pool_inv_def workers_ok_def callers_ok_def pending_def)
qed (rule caller_inv)

lemma reachable_inv: "reachable settings s \<Longrightarrow> pool_inv s"
  by (induction rule: reachable.induct) (simp_all add: pool_inv_init pool_inv_step)


lemma reachable_cap: "reachable settings s \<Longrightarrow> lp_cap s = nat (queue_size settings)"
proof (induction rule: reachable.induct)
  case (step s s')
  from step(2) have "lp_cap s' = lp_cap s"
    by (elim pool_step.cases worker_stepE caller_stepE) simp_all
  with step show ?case by simp
qed (simp add: initPool_def)

section \<open>Properties of the pool\<close>

lemma containers_exclusive:
  assumes "workers_ok s" "container (lp_worker s w) = Some c" "container (lp_worker s v) = Some c"
  shows "w = v"
  using assms by (auto simp: workers_ok_def owns_def inj_on_def dom_def)

lemma no_leak: "workers_ok s \<Longrightarrow> \<forall>w. lp_worker s w = Stopped \<Longrightarrow> lp_containers s = {}"
  by (auto simp: workers_ok_def owns_def ran_def)

lemma working_unanswered: "workers_ok s \<Longrightarrow> lp_worker s w = Working c i \<Longrightarrow> lp_result s i = []"
  using ranI [of "task \<circ> lp_worker s" w i] by (simp add: workers_ok_def scheduled_def)

lemma queued_unanswered: "workers_ok s \<Longrightarrow> i \<in> set (lp_queue s) \<Longrightarrow> lp_result s i = []"
  by (simp add: workers_ok_def scheduled_def)

lemma one_worker:
  "workers_ok s \<Longrightarrow> lp_worker s w = Working c i \<Longrightarrow> lp_worker s v = Working c' i \<Longrightarrow> w = v"
  using workers_okD(3) [of s] by (auto simp: inj_on_def dom_def)

lemma working_not_queued: "workers_ok s \<Longrightarrow> lp_worker s w = Working c i \<Longrightarrow> i \<notin> set (lp_queue s)"
  using ranI [of "task \<circ> lp_worker s" w i] by (auto simp: workers_ok_def scheduled_def)

text \<open>
  C34. The pool of a language, in every interleaving of callers, workers and a shutdown. The queue never
  holds more than six requests per worker; no two workers use one container, and when all workers have
  stopped no container is left; a request is executed by one worker at most and answered at most
  once, so that the write of an answer never blocks; and the request of a waiting caller is never lost:
  it is in the queue, with a worker, or answered, while nothing is left of one that got its answer.
\<close>

theorem pool_serves_once:
  assumes "reachable settings s"
  shows "distinct (lp_queue s) \<and> length (lp_queue s) \<le> nat (queue_size settings) \<and>
    (\<forall>w v c. container (lp_worker s w) = Some c \<and> container (lp_worker s v) = Some c \<longrightarrow> w = v) \<and>
    ((\<forall>w. lp_worker s w = Stopped) \<longrightarrow> lp_containers s = {}) \<and>
    (\<forall>w c i. lp_worker s w = Working c i \<longrightarrow> i \<notin> set (lp_queue s) \<and> lp_result s i = [] \<and>
       (\<forall>v c'. lp_worker s v = Working c' i \<longrightarrow> w = v)) \<and>
    (\<forall>i \<in> set (lp_queue s). lp_result s i = []) \<and>
    (\<forall>i. lp_caller s i = Waiting \<longrightarrow> pending s i) \<and>
    (\<forall>i a. lp_caller s i = Returned (Answered a) \<longrightarrow> \<not> pending s i)"
proof -
  have inv: "workers_ok s" "callers_ok s"
    using reachable_inv [OF assms] by (simp_all add: pool_inv_def)
  then have "distinct (lp_queue s)" "length (lp_queue s) \<le> nat (queue_size settings)"
    using reachable_cap [OF assms] by (simp_all add: workers_ok_def scheduled_def)
  moreover have "\<forall>i. lp_caller s i = Waiting \<longrightarrow> pending s i"
    using inv(2) by (simp add: callers_ok_def)
  moreover have "\<forall>i a. lp_caller s i = Returned (Answered a) \<longrightarrow> \<not> pending s i"
    using not_pending [OF inv(2)] by auto
  ultimately show ?thesis
    using containers_exclusive [OF inv(1)] no_leak [OF inv(1)] working_unanswered [OF inv(1)]
      queued_unanswered [OF inv(1)] one_worker [OF inv(1)] working_not_queued [OF inv(1)] by blast
qed

section \<open>Progress\<close>

definition workers_run :: "langPool \<Rightarrow> langPool \<Rightarrow> bool" where
  "workers_run = (\<lambda>s s'. \<exists>w. worker_step w s s')\<^sup>*\<^sup>*"

lemma workers_run_step: "worker_step w s s' \<Longrightarrow> workers_run s' s'' \<Longrightarrow> workers_run s s''"
  unfolding workers_run_def by (rule converse_rtranclp_into_rtranclp) blast+

lemma workers_run_refl [simp]: "workers_run s s"
  by (simp add: workers_run_def)

lemma workers_run_trans: "workers_run s s' \<Longrightarrow> workers_run s' s'' \<Longrightarrow> workers_run s s''"
  unfolding workers_run_def by (rule rtranclp_trans)

lemma workers_run_ok: "workers_run s s' \<Longrightarrow> workers_ok s \<Longrightarrow> workers_ok s'"
  unfolding workers_run_def by (induction rule: rtranclp_induct) (auto intro: workers_ok_step)

lemma result_kept: "worker_step w s s' \<Longrightarrow> lp_result s i \<noteq> [] \<Longrightarrow> lp_result s' i \<noteq> []"
  by (induction rule: worker_step.induct) simp_all

lemma result_kept_run: "workers_run s s' \<Longrightarrow> lp_result s i \<noteq> [] \<Longrightarrow> lp_result s' i \<noteq> []"
  unfolding workers_run_def by (induction rule: rtranclp_induct) (auto dest: result_kept)

text \<open>A worker that has not stopped comes back for the next request, the queue as it was.\<close>

definition ready_for :: "nat \<Rightarrow> langPool \<Rightarrow> bool" where
  "ready_for w s \<longleftrightarrow> (\<exists>c. lp_worker s w = Warm c \<or> lp_worker s w = Draining c)"

lemma worker_to_worker [simp]: "lp_worker (worker_to w pc s) = (lp_worker s)(w := pc)"
  by (simp add: worker_to_def)

lemma comes_back:
  assumes "workers_ok s" "lp_worker s w \<noteq> Stopped"
  obtains s' where "workers_run s s'" "ready_for w s'" "lp_queue s' = lp_queue s"
proof -
  have warm: "\<exists>s'. workers_run s s' \<and> ready_for w s' \<and> lp_queue s' = lp_queue s" if "ready_for w s" for s
    using that by (intro exI [of _ s]) simp
  have create: "\<exists>s'. workers_run s s' \<and> ready_for w s' \<and> lp_queue s' = lp_queue s"
    if "lp_worker s w = NoContainer" for s
    by (intro exI conjI) (rule workers_run_step [OF worker_step.create [OF that] workers_run_refl],
      simp_all add: ready_for_def)
  have clean: "\<exists>s'. workers_run s s' \<and> ready_for w s' \<and> lp_queue s' = lp_queue s"
    if "lp_worker s w = Cleaning c" for s c
    by (intro exI conjI) (rule workers_run_step [OF worker_step.reuse [OF that] workers_run_refl],
      simp_all add: ready_for_def)
  have "\<exists>s'. workers_run s s' \<and> ready_for w s' \<and> lp_queue s' = lp_queue s"
  proof (cases "lp_worker s w")
    case Retrying
    let ?s = "worker_to w NoContainer s"
    obtain s' where "workers_run ?s s'" "ready_for w s'" "lp_queue s' = lp_queue ?s"
      using create [of ?s] by auto
    then show ?thesis
      using workers_run_step [OF worker_step.retry [OF Retrying]] by auto
  next
    case (Working c i)
    let ?s = "worker_to w (Cleaning c) (answered i (Executed (failed_result ErrConn, None)) s)"
    obtain s' where "workers_run ?s s'" "ready_for w s'" "lp_queue s' = lp_queue ?s"
      using clean [of ?s c] by auto
    moreover have "worker_step w s ?s"
      using working_unanswered [OF assms(1) Working] by (intro worker_step.answer [OF Working]) simp
    ultimately show ?thesis
      using workers_run_step [of w s ?s s'] by (intro exI [of _ s']) simp
  qed (use assms(2) warm create clean in \<open>auto simp: ready_for_def\<close>)
  then show ?thesis
    using that by blast
qed

lemma takes_next:
  assumes "workers_ok s" "ready_for w s" "lp_queue s = i # q"
  obtains s' where "workers_run s s'" "lp_worker s' w \<noteq> Stopped" "lp_queue s' = q" "lp_result s' i \<noteq> []"
proof -
  have empty: "lp_result s i = []"
    using queued_unanswered [OF assms(1)] assms(3) by simp
  obtain c where "lp_worker s w = Warm c \<or> lp_worker s w = Draining c"
    using assms(2) by (auto simp: ready_for_def)
  then show ?thesis
  proof
    assume warm: "lp_worker s w = Warm c"
    let ?t = "worker_to w (Working c i) (s\<lparr>lp_queue := q\<rparr>)"
    let ?s = "worker_to w (Cleaning c) (answered i (Executed (failed_result ErrConn, None)) ?t)"
    have "worker_step w ?t ?s"
      using empty by (intro worker_step.answer) (simp_all add: worker_to_def)
    then have "workers_run s ?s"
      using workers_run_step [OF worker_step.take [OF warm assms(3)]] workers_run_step [of w ?t ?s ?s] by auto
    then show ?thesis
      by (rule that) simp_all
  next
    assume draining: "lp_worker s w = Draining c"
    let ?s = "answered i ShuttingDown (s\<lparr>lp_queue := q\<rparr>)"
    have "worker_step w s ?s"
      using empty by (intro worker_step.drain [OF draining assms(3)]) simp
    then have "workers_run s ?s"
      using workers_run_step [of w s ?s ?s] by auto
    then show ?thesis
      by (rule that) (simp_all add: draining)
  qed
qed

lemma reaches_queued:
  assumes "workers_ok s" "lp_worker s w \<noteq> Stopped" "i \<in> set (lp_queue s)"
  shows "\<exists>s'. workers_run s s' \<and> lp_result s' i \<noteq> []"
  using assms
proof (induction "lp_queue s" arbitrary: s)
  case (Cons j q)
  obtain s1 where s1: "workers_run s s1" "ready_for w s1" "lp_queue s1 = lp_queue s"
    using comes_back [OF Cons.prems(1,2)] .
  note ok1 = workers_run_ok [OF s1(1) Cons.prems(1)]
  obtain s2 where s2: "workers_run s1 s2" "lp_worker s2 w \<noteq> Stopped" "lp_queue s2 = q" "lp_result s2 j \<noteq> []"
    using takes_next [OF ok1 s1(2), of j q] s1(3) Cons.hyps(2) by metis
  note ok2 = workers_run_ok [OF s2(1) ok1] and run = workers_run_trans [OF s1(1) s2(1)]
  show ?case
  proof (cases "i = j")
    case True
    with run s2(4) show ?thesis by blast
  next
    case False
    then have "i \<in> set (lp_queue s2)"
      using Cons.prems(3) Cons.hyps(2) s2(3) by (metis set_ConsD)
    from Cons.hyps(1) [OF s2(3) [symmetric] ok2 s2(2) this] run show ?thesis
      using workers_run_trans by blast
  qed
qed simp



text \<open>
  After the last worker has stopped nobody reads the queue. A caller that was admitted before the
  shutdown and enqueues its request after the drain waits until its own context ends.
\<close>

lemma stopped_stays:
  assumes "\<forall>w. lp_worker s w = Stopped" "lp_result s i = []" "pool_step s s'"
  shows "lp_result s' i = [] \<and> (\<forall>w. lp_worker s' w = Stopped)"
  using assms(3)
proof (cases rule: pool_step.cases)
  case (worker w)
  have "lp_worker s w = Stopped"
    using assms(1) by blast
  with worker show ?thesis
    by (elim worker_stepE) simp_all
next
  case (caller j)
  then show ?thesis
    using assms(1,2) by (elim caller_stepE) auto
qed (use assms(1,2) in simp)

lemma admitted_too_late:
  assumes "pool_size settings = 1"
  shows "\<exists>s. reachable settings s \<and> lp_caller s 0 = Waiting \<and> lp_result s 0 = [] \<and>
    (\<forall>w. lp_worker s w = Stopped) \<and>
    (\<forall>s'. pool_step s s' \<longrightarrow> lp_result s' 0 = [] \<and> (\<forall>w. lp_worker s' w = Stopped))"
proof -
  let ?s0 = "initPool settings"
  let ?s1 = "caller_to 0 Admitted ?s0"
  let ?s2 = "worker_to 0 (Warm 0) (?s1\<lparr>lp_containers := insert 0 (lp_containers ?s1), lp_next := Suc 0,
    lp_primed := True\<rparr>)"
  let ?s3 = "?s2\<lparr>lp_down := True\<rparr>"
  let ?s4 = "worker_to 0 (Draining 0) ?s3"
  let ?s5 = "worker_to 0 Stopped (?s4\<lparr>lp_containers := lp_containers ?s4 - {0}\<rparr>)"
  let ?s6 = "caller_to 0 Waiting (?s5\<lparr>lp_queue := lp_queue ?s5 @ [0]\<rparr>)"
  note reach = reachable.step [OF _ pool_step.worker [where w = 0]] reachable.step [OF _ pool_step.caller [where i = 0]]
    reachable.step [OF _ pool_step.shutdown]
  have "reachable settings ?s1"
    by (rule reach(2) [OF reachable.init], rule caller_step.admit) (simp_all add: initPool_def)
  moreover have "worker_step 0 ?s1 ?s2"
    using worker_step.create [of ?s1 0] assms by (simp add: initPool_def caller_to_def)
  ultimately have "reachable settings ?s2"
    by (rule reach(1))
  then have "reachable settings ?s3"
    by (rule reach(3))
  moreover have "worker_step 0 ?s3 ?s4"
    by (rule worker_step.see_shutdown) (simp_all add: worker_to_def)
  ultimately have "reachable settings ?s4"
    by (rule reach(1))
  moreover have "worker_step 0 ?s4 ?s5"
    by (rule worker_step.stop) (simp_all add: worker_to_def caller_to_def initPool_def)
  ultimately have "reachable settings ?s5"
    by (rule reach(1))
  moreover have "caller_step 0 ?s5 ?s6"
    by (rule caller_step.enqueue) (simp_all add: initPool_def queue_size_def queueMultiplier_def assms
        worker_to_def caller_to_def)
  ultimately have r: "reachable settings ?s6"
    by (rule reach(2))
  have stopped: "\<forall>w. lp_worker ?s6 w = Stopped" and empty: "lp_result ?s6 0 = []"
    by (auto simp: initPool_def assms worker_to_def caller_to_def)
  show ?thesis
  proof (intro exI conjI)
    show "reachable settings ?s6" by (rule r)
    show "lp_caller ?s6 0 = Waiting" by simp
    show "lp_result ?s6 0 = []" by (rule empty)
    show "\<forall>w. lp_worker ?s6 w = Stopped" by (rule stopped)
    show "\<forall>s'. pool_step ?s6 s' \<longrightarrow> lp_result s' 0 = [] \<and> (\<forall>w. lp_worker s' w = Stopped)"
      by (intro allI impI, rule stopped_stays [OF stopped empty])
  qed
qed

text \<open>A small pool with a waiting caller, for the witnesses.\<close>

definition one_worker_settings :: LangSettings where
  "one_worker_settings = \<lparr>ls_Image = ''python:3.14-slim'', ls_SourceFile = ''main.py'', ls_CompileCmd = [],
     ls_RunCmd = [''python'', ''main.py''], ls_WarmupCmd = '''', ls_MemoryLimit = 0, ls_TimeLimit = 10, ls_PoolSize = 1\<rparr>"

definition waiting_pool :: langPool where
  "waiting_pool = caller_to 0 Waiting
     (caller_to 0 Admitted (initPool one_worker_settings)\<lparr>lp_queue := [0]\<rparr>)"

lemma waiting_pool_reachable: "reachable one_worker_settings waiting_pool"
proof -
  let ?s = "caller_to 0 Admitted (initPool one_worker_settings)"
  have "reachable one_worker_settings ?s"
    by (rule reachable.step [OF reachable.init pool_step.caller [OF caller_step.admit]])
      (simp_all add: initPool_def)
  moreover have "caller_step 0 ?s waiting_pool"
    using caller_step.enqueue [of ?s 0] unfolding waiting_pool_def
    by (simp add: initPool_def queue_size_def pool_size_def queueMultiplier_def one_worker_settings_def)
  ultimately show ?thesis
    using reachable.step pool_step.caller by blast
qed

theorem pool_serves_once_witness: "pending waiting_pool 0 \<and> lp_containers waiting_pool = {}"
proof -
  have "lp_caller waiting_pool 0 = Waiting"
    by (simp add: waiting_pool_def)
  moreover have "lp_containers waiting_pool = {}"
    by (simp add: waiting_pool_def initPool_def)
  ultimately show ?thesis
    using pool_serves_once [OF waiting_pool_reachable] by blast
qed


end
