(* ===== verification/Server_Auth.thy ===== *)
theory Server_Auth
  imports Entrance
begin

text \<open>
  The HTTP layer of \<^verbatim>\<open>internal/server\<close>, its part about who is asking: the middleware of
  \<^verbatim>\<open>auth_middleware.go\<close>, the error handlers of \<^verbatim>\<open>http_server.go\<close> and the handlers of \<^verbatim>\<open>auth_handler.go\<close>.
  The context of a request is what the middleware puts there, the session of the caller. A handler
  returns a value or an error; the generated code around it, which decodes the request, calls the
  strict middleware and encodes the answer, is the function \<open>serve\<close>.
\<close>

section \<open>Requests and responses\<close>

type_synonym ctx = "session option"

definition userIDFromContext :: "ctx \<Rightarrow> uuid option" where
  "userIDFromContext c = map_option s_UserID c"

definition sessionFromContext :: "ctx \<Rightarrow> session option" where
  "sessionFromContext c = c"

text \<open>\<open>userID, _ := userIDFromContext(ctx)\<close>: without a session the zero UUID.\<close>

definition callerID :: "ctx \<Rightarrow> uuid" where
  "callerID c = (case userIDFromContext c of None \<Rightarrow> 0 | Some u \<Rightarrow> u)"

datatype 'a response =
    JSON (resp_status: nat) 'a
  | JSONError (resp_status: nat) string string
  | PlainError (resp_status: nat) string

fun error_text :: "err \<Rightarrow> string" where
  "error_text (AppErr a) = Message a"
| "error_text ErrNoRows = ''no rows in result set''"
| "error_text (PgError c con) = ''ERROR (SQLSTATE '' @ c @ '')''"
| "error_text ErrConn = ''connection error''"
| "error_text (ErrText m) = m"
| "error_text (ErrWrap m e) = m @ '': '' @ error_text e"
| "error_text ErrGameAlreadyFinished = ''game already finished''"
| "error_text SvcErrInvalidName = ''name must be between 1 and 100 characters''"
| "error_text SvcErrInvalidEmail = ''invalid email format''"
| "error_text SvcErrInvalidCode = ''invalid or expired verification code''"
| "error_text SvcErrTooManyAttempts = ''too many verification attempts''"
| "error_text SvcErrCodeRecentlySent = ''a code was recently sent, please wait before requesting a new one''"
| "error_text PrbErrExecutorNotReady = ''executor not ready''"

definition writeHTTPError :: "err \<Rightarrow> 'a response" where
  "writeHTTPError e = (case errors_as_app e of
       Some ae \<Rightarrow> JSONError (HTTPStatus ae) (error_code_string (ErrorCode ae)) (Message ae)
     | None \<Rightarrow> JSONError 500 (error_code_string ErrInternal) ''internal error'')"

definition responseErrorHandler :: "err \<Rightarrow> 'a response" where
  "responseErrorHandler e = (case errors_as_app e of
       Some ae \<Rightarrow> JSONError (HTTPStatus ae) (error_code_string (ErrorCode ae)) (Message ae)
     | None \<Rightarrow> JSONError 500 (error_code_string ErrInternal) (error_text e))"

definition requestErrorHandler :: "err \<Rightarrow> 'a response" where
  "requestErrorHandler e = JSONError 400 (error_code_string ErrValidation) (error_text e)"

section \<open>Middleware\<close>

definition bearerToken :: "string \<Rightarrow> string" where
  "bearerToken h = (if take 7 h = ''Bearer '' then drop 7 h else '''')"

definition optionalAuthMiddleware ::
  "SessionService \<Rightarrow> (ctx \<Rightarrow> 'z world_scheme \<Rightarrow> 'r \<times> 'z world_scheme) \<Rightarrow> string \<Rightarrow>
   'z world_scheme \<Rightarrow> 'r \<times> 'z world_scheme" where
  "optionalAuthMiddleware svc nextH h w =
     (let token = bearerToken h in
      if token \<noteq> '''' then
        (case ValidateToken token w of
           (Inr session, w1) \<Rightarrow> (case TryRefresh svc session w1 of (_, w2) \<Rightarrow> nextH (Some session) w2)
         | (Inl _, w1) \<Rightarrow> nextH None w1)
      else nextH None w)"

definition unauthorized :: err where
  "unauthorized = New ErrInvalidToken ''unauthorized''"

definition requireAuth ::
  "(ctx \<Rightarrow> 'w \<Rightarrow> 'a response \<times> 'w) \<Rightarrow> ctx \<Rightarrow> 'w \<Rightarrow> 'a response \<times> 'w" where
  "requireAuth nextH c w =
     (if userIDFromContext c = None then (writeHTTPError unauthorized, w) else nextH c w)"

definition strictAuthMiddleware ::
  "(string \<Rightarrow> bool) \<Rightarrow> string \<Rightarrow> (ctx \<Rightarrow> ('w, err, 'a) sem) \<Rightarrow> ctx \<Rightarrow> ('w, err, 'a) sem" where
  "strictAuthMiddleware publicOps operationID f =
     (if publicOps operationID then f
      else (\<lambda>c. if userIDFromContext c = None then throw unauthorized else f c))"

text \<open>
  The operations of the specification with their \<^verbatim>\<open>security\<close>: none given, or a list of alternatives.
\<close>

definition publicOpsFromSpec :: "(string \<times> string list option) list \<Rightarrow> string \<Rightarrow> bool" where
  "publicOpsFromSpec operations op \<longleftrightarrow> (\<exists>(i, security) \<in> set operations. i = op \<and> security = Some [])"

definition openapi_operations :: "(string \<times> string list option) list" where
  "openapi_operations =
     [(''PostAuthEnter'', Some []), (''PostAuthConfirm'', Some []), (''GetAuthMe'', Some [''BearerAuth'']),
      (''PatchAuthMe'', Some [''BearerAuth'']), (''GetAuthMeStats'', Some [''BearerAuth'']),
      (''PostAuthLogout'', Some [''BearerAuth'']), (''ListProblems'', Some []),
      (''ListMyProblems'', Some [''BearerAuth'']), (''GetProblem'', Some []), (''PatchProblem'', Some [''BearerAuth'']),
      (''CreateGame'', Some [''BearerAuth'']), (''ListGames'', Some [''BearerAuth'']), (''GetGame'', Some [''BearerAuth'']),
      (''DeleteGame'', Some [''BearerAuth'']), (''StartGame'', Some [''BearerAuth'']),
      (''CompleteGame'', Some [''BearerAuth'']), (''GetGameByToken'', Some []),
      (''JoinGameByToken'', Some [''BearerAuth'']), (''LeaveGame'', Some [''BearerAuth'']),
      (''PostExecute'', Some [''BearerAuth'']), (''GetGameSolutions'', Some [''BearerAuth'']),
      (''TimeoutGame'', Some [''BearerAuth'']), (''CancelGame'', Some [''BearerAuth''])]"

text \<open>One request to an operation of the specification, from its header to its response.\<close>

definition respond :: "nat \<Rightarrow> (err + 'a) \<times> 'w \<Rightarrow> 'a response \<times> 'w" where
  "respond st r = (case r of (Inl e, w) \<Rightarrow> (responseErrorHandler e, w) | (Inr a, w) \<Rightarrow> (JSON st a, w))"

definition serve ::
  "SessionService \<Rightarrow> (string \<Rightarrow> bool) \<Rightarrow> string \<Rightarrow> nat \<Rightarrow> (ctx \<Rightarrow> ('z, 'a) op) \<Rightarrow> string \<Rightarrow>
   'z world_scheme \<Rightarrow> 'a response \<times> 'z world_scheme" where
  "serve svc publicOps operationID st f =
     optionalAuthMiddleware svc (\<lambda>c w. respond st (strictAuthMiddleware publicOps operationID f c w))"

section \<open>Handlers\<close>

definition entranceAppErr :: "err \<Rightarrow> err" where
  "entranceAppErr e =
     (if errors_is e SvcErrInvalidEmail then New ErrInvalidEmail (error_text e)
      else if errors_is e SvcErrInvalidCode then New ErrInvalidCode (error_text e)
      else if errors_is e SvcErrTooManyAttempts then New ErrTooManyAttempts (error_text e)
      else if errors_is e SvcErrCodeRecentlySent then New ErrCodeRecentlySent (error_text e)
      else New ErrInternal ''internal server error'')"

definition PostAuthEnter :: "'z world_scheme entranceService \<Rightarrow> string \<Rightarrow> ('z, string) op" where
  "PostAuthEnter es email = bindE (mapErr entranceAppErr (SendCode es email)) (\<lambda>_. ret ''ok'')"

record confirmResponse =
  cr_Token :: string
  cr_ExpiresAt :: time
  cr_UserId :: uuid
  cr_Email :: "string option"
  cr_Name :: "string option"

definition PostAuthConfirm ::
  "'z world_scheme entranceService \<Rightarrow> string \<Rightarrow> string \<Rightarrow> ('z, confirmResponse) op" where
  "PostAuthConfirm es email code =
     bindE (mapErr entranceAppErr (VerifyCode es email code)) (\<lambda>session.
     let resp = \<lparr>cr_Token = s_Token session, cr_ExpiresAt = s_ExpiresAt session, cr_UserId = s_UserID session,
                 cr_Email = None, cr_Name = None\<rparr> in
     tryE (GetByID (s_UserID session)) (\<lambda>r. case r of
       Inr user \<Rightarrow> ret (resp\<lparr>cr_Email := Some (u_Email user), cr_Name := u_Name user\<rparr>)
     | Inl _ \<Rightarrow> ret resp))"

definition internal_error :: "err \<Rightarrow> err" where
  "internal_error e = New ErrInternal ''internal server error''"

definition with_user :: "ctx \<Rightarrow> (uuid \<Rightarrow> ('z, 'a) op) \<Rightarrow> ('z, 'a) op" where
  "with_user c f = (case userIDFromContext c of None \<Rightarrow> throw unauthorized | Some userID \<Rightarrow> f userID)"

definition GetAuthMe :: "ctx \<Rightarrow> ('z, uuid \<times> string option \<times> string option) op" where
  "GetAuthMe c = with_user c (\<lambda>userID.
     bindE (mapErr internal_error (GetByID userID)) (\<lambda>user. ret (userID, Some (u_Email user), u_Name user)))"

definition GetAuthMeStats :: "ctx \<Rightarrow> ('z, int \<times> int \<times> int) op" where
  "GetAuthMeStats c = with_user c (\<lambda>userID. mapErr internal_error (GetStats userID))"

definition PostAuthLogout :: "ctx \<Rightarrow> ('z, string) op" where
  "PostAuthLogout c =
     (case sessionFromContext c of
        None \<Rightarrow> ret ''ok''
      | Some session \<Rightarrow>
          tryE (EndSession (s_ID session)) (\<lambda>r. case r of
            Inr _ \<Rightarrow> ret ''ok''
          | Inl err \<Rightarrow>
              (case errors_as_app err of
                 None \<Rightarrow> throw (internal_error err)
               | Some appErr \<Rightarrow>
                   if ErrorCode appErr \<noteq> ErrSessionNotFound then throw (internal_error err) else ret ''ok'')))"

definition PatchAuthMe :: "ctx \<Rightarrow> string \<Rightarrow> ('z, uuid \<times> string option) op" where
  "PatchAuthMe c name = with_user c (\<lambda>userID.
     tryE (UpdateName userID name) (\<lambda>r. case r of
       Inl err \<Rightarrow>
         if errors_is err SvcErrInvalidName then throw (New ErrValidation (error_text err))
         else throw (internal_error err)
     | Inr user \<Rightarrow> ret (userID, u_Name user)))"


section \<open>The gate\<close>

lemma ValidateToken_db: "ValidateToken tok w = (r, w') \<Longrightarrow> db w' = db w \<and> now w' = now w \<and> faults w' = faults w"
  by (auto simp: ValidateToken_def qGetSessionByToken_def bindE_def mapErr_def tryE_def throw_def ret_def
      clock_def reads_def roundtrip_def Let_def split: if_splits fault.splits sum.splits)

text \<open>The sessions a refresh may have prolonged; everything else in the tables is the same.\<close>

definition only_prolonged :: "session \<Rightarrow> database \<Rightarrow> database \<Rightarrow> bool" where
  "only_prolonged s d d' \<longleftrightarrow>
     (\<exists>t t'. d' = d\<lparr>d_sessions := upd_where (\<lambda>x. s_ID x = int32 (s_ID s))
        (\<lambda>x. x\<lparr>s_ExpiresAt := t, s_UpdatedAt := t'\<rparr>) (d_sessions d)\<rparr>) \<or> d' = d"

lemma TryRefresh_prolongs:
  "TryRefresh c s w = (r, w') \<Longrightarrow>
     r = Inr () \<and> only_prolonged s (db w) (db w') \<and> now w' = now w \<and> faults w' = faults w"
  unfolding only_prolonged_def
  by (auto simp: TryRefresh_def RefreshSession_def qUpdateSessionExpiry_def clock_def bindE_def ret_def
      tryE_def mapErr_def throw_def writes_def roundtrip_def Let_def
      split: if_splits fault.splits option.splits sum.splits)
    ((rule exI, rule exI, rule refl)+)

text \<open>
  C31. The authentication gate. A request to an operation that is not public either is answered 401
  and changes nothing, or carries the token of a session that exists and has not expired; then the
  handler runs with exactly this session as its caller, and before it starts nothing changed in the
  tables except that this one session may have been prolonged. Without faults a valid token always
  gets through.
\<close>

theorem auth_gate:
  assumes "\<not> publicOps op" and "serve svc publicOps op st f h w = (resp, w')"
  shows "(resp = JSONError 401 ''INVALID_TOKEN'' ''unauthorized'' \<and> db w' = db w \<and>
      (all_fine w \<longrightarrow> \<not> (\<exists>s. session_by_token (bearerToken h) (db w) = Some s \<and> bearerToken h \<noteq> '''' \<and>
         now w \<le> s_ExpiresAt s))) \<or>
    (\<exists>s w1. bearerToken h \<noteq> '''' \<and> session_by_token (bearerToken h) (db w) = Some s \<and>
       now w \<le> s_ExpiresAt s \<and> only_prolonged s (db w) (db w1) \<and> now w1 = now w \<and>
       (resp, w') = respond st (f (Some s) w1))"
proof (cases "\<exists>s w1. bearerToken h \<noteq> '''' \<and> ValidateToken (bearerToken h) w = (Inr s, w1)")
  case True
  then obtain s w1 where tok: "bearerToken h \<noteq> ''''" and val: "ValidateToken (bearerToken h) w = (Inr s, w1)"
    by blast
  obtain u w2 where ref: "TryRefresh svc s w1 = (u, w2)"
    by force
  have "(resp, w') = respond st (f (Some s) w2)"
    using assms tok val ref
    by (simp add: serve_def optionalAuthMiddleware_def strictAuthMiddleware_def userIDFromContext_def Let_def)
  with tok ValidateToken_db [OF val] TryRefresh_prolongs [OF ref] val [unfolded ValidateToken_Inr] show ?thesis
    by (intro disjI2 exI [of _ s] exI [of _ w2]) auto
next
  case False
  let ?none = "\<lambda>w1. serve svc publicOps op st f h w = (JSONError 401 ''INVALID_TOKEN'' ''unauthorized'', w1)"
  have resp: "respond st (strictAuthMiddleware publicOps op f None w1) =
      (JSONError 401 ''INVALID_TOKEN'' ''unauthorized'', w1)" for w1
    using assms(1)
    by (simp add: strictAuthMiddleware_def userIDFromContext_def throw_def respond_def
        responseErrorHandler_def unauthorized_def New_def httpStatusCode_def)
  have "\<exists>w1. ?none w1 \<and> db w1 = db w"
    using False ValidateToken_db
    by (cases "ValidateToken (bearerToken h) w")
      (auto simp: serve_def optionalAuthMiddleware_def Let_def resp split: sum.split)
  moreover have "\<not> (\<exists>s. session_by_token (bearerToken h) (db w) = Some s \<and> bearerToken h \<noteq> '''' \<and>
         now w \<le> s_ExpiresAt s)" if "all_fine w"
    using False that by (auto simp: ValidateToken_Inr all_fine_def)
  ultimately show ?thesis
    using assms(2) by auto
qed



lemma bearer_sample [simp]:
  "bearerToken (CHR ''B'' # CHR ''e'' # CHR ''a'' # CHR ''r'' # CHR ''e'' # CHR ''r'' # CHR '' '' # tok) = tok"
  by (simp add: bearerToken_def)

theorem auth_gate_witness:
  "fst (serve \<lparr>sessionDuration = 3600\<rparr> (publicOpsFromSpec openapi_operations) ''GetAuthMe'' 200 GetAuthMe
     ''Basic x'' session_world) = JSONError 401 ''INVALID_TOKEN'' ''unauthorized''"
proof -
  let ?r = "serve \<lparr>sessionDuration = 3600\<rparr> (publicOpsFromSpec openapi_operations) ''GetAuthMe'' 200 GetAuthMe
     ''Basic x'' session_world"
  have "\<not> publicOpsFromSpec openapi_operations ''GetAuthMe''" by code_simp
  moreover have "bearerToken ''Basic x'' = ''''" by code_simp
  moreover obtain r w' where run: "?r = (r, w')" by fastforce
  ultimately show ?thesis using auth_gate [OF _ run] by simp
qed

section \<open>Logging out\<close>

lemma only_prolonged_session:
  assumes "only_prolonged s d d'" "session_by_token tok d = Some s"
  shows "\<exists>s'. session_by_token tok d' = Some s' \<and> s_ID s' = s_ID s \<and> s_UserID s' = s_UserID s"
  using assms by (auto simp: only_prolonged_def session_by_token_def find_upd_where)

lemma only_prolonged_inv: "only_prolonged s d d' \<Longrightarrow> sessions_inv d \<Longrightarrow> sessions_inv d'"
  by (auto simp: only_prolonged_def intro: sessions_inv_upd)

lemma only_prolonged_keeps:
  assumes "only_prolonged s d d'" "x \<in> set (d_sessions d)"
  obtains y where "y \<in> set (d_sessions d')" "s_Token y = s_Token x" "s_ID y = s_ID x"
proof (cases "d' = d")
  case False
  with assms(1) obtain t t' where "d' = d\<lparr>d_sessions := upd_where (\<lambda>x. s_ID x = int32 (s_ID s))
      (\<lambda>x. x\<lparr>s_ExpiresAt := t, s_UpdatedAt := t'\<rparr>) (d_sessions d)\<rparr>"
    unfolding only_prolonged_def by blast
  then have d': "d_sessions d' = map (\<lambda>x. if s_ID x = int32 (s_ID s)
      then x\<lparr>s_ExpiresAt := t, s_UpdatedAt := t'\<rparr> else x) (d_sessions d)"
    by (simp add: upd_where_def)
  show ?thesis
    by (rule that [of "if s_ID x = int32 (s_ID s) then x\<lparr>s_ExpiresAt := t, s_UpdatedAt := t'\<rparr> else x"])
      (use assms(2) in \<open>simp_all add: d'\<close>)
qed (use assms(2) that in simp)

lemma strict_Some [simp]: "strictAuthMiddleware publicOps op f (Some s) = f (Some s)"
  by (simp add: strictAuthMiddleware_def userIDFromContext_def)

lemma strict_None: "\<not> publicOps op \<Longrightarrow> strictAuthMiddleware publicOps op f None = throw unauthorized"
  by (simp add: strictAuthMiddleware_def userIDFromContext_def)

lemma TryRefresh_fine: "TryRefresh c s w = (r, w') \<Longrightarrow> all_fine w \<Longrightarrow> all_fine w'"
  using TryRefresh_prolongs by (fastforce simp: all_fine_def)

lemma refused [simp]:
  "respond st (throw unauthorized w) = (JSONError 401 ''INVALID_TOKEN'' ''unauthorized'', w)"
  by (simp add: respond_def throw_def responseErrorHandler_def unauthorized_def New_def httpStatusCode_def)

lemma unknown_refused:
  assumes "\<not> publicOps op" "session_by_token tok (db w) = None"
  shows "fst (serve svc publicOps op st f (''Bearer '' @ tok) w) = JSONError 401 ''INVALID_TOKEN'' ''unauthorized''"
proof (cases "ValidateToken tok w")
  case (Pair r w1)
  moreover obtain e where "r = Inl e"
    using Pair assms(2) by (cases r) (auto simp: ValidateToken_Inr)
  ultimately show ?thesis
    by (simp add: serve_def optionalAuthMiddleware_def Let_def strict_None assms(1))
qed

lemma serve_valid:
  assumes "all_fine w" "tok \<noteq> ''''" "session_by_token tok (db w) = Some s" "now w \<le> s_ExpiresAt s"
  obtains w1 where "serve svc publicOps op st f (''Bearer '' @ tok) w =
      respond st (strictAuthMiddleware publicOps op f (Some s) w1)"
    and "only_prolonged s (db w) (db w1)" "all_fine w1" "now w1 = now w"
proof -
  have val: "ValidateToken tok w = (Inr s, w\<lparr>fpos := Suc (fpos w)\<rparr>)"
    using assms by (simp add: ValidateToken_Inr all_fine_def)
  obtain u w2 where ref: "TryRefresh svc s (w\<lparr>fpos := Suc (fpos w)\<rparr>) = (u, w2)"
    by force
  show ?thesis
  proof (rule that [of w2])
    show "serve svc publicOps op st f (''Bearer '' @ tok) w =
        respond st (strictAuthMiddleware publicOps op f (Some s) w2)"
      using val ref assms(2) by (simp add: serve_def optionalAuthMiddleware_def Let_def)
    show "only_prolonged s (db w) (db w2)" "all_fine w2" "now w2 = now w"
      using TryRefresh_prolongs [OF ref] TryRefresh_fine [OF ref] assms(1) by simp_all
  qed
qed

text \<open>
  C32. Logging out. A logout with a valid token succeeds, and from then on the token is worth nothing: it
  is not valid any more, every protected operation answers 401, and so does a second logout. No
  other session is lost.
\<close>

theorem logout_ends_session:
  assumes "sessions_inv (db w)" "all_fine w" "tok \<noteq> ''''" "session_by_token tok (db w) = Some s"
    and "now w \<le> s_ExpiresAt s" "int32 (s_ID s) = s_ID s"
    and "serve svc publicOps ''PostAuthLogout'' 200 PostAuthLogout (''Bearer '' @ tok) w = (resp, w')"
  shows "resp = JSON 200 ''ok'' \<and> session_by_token tok (db w') = None \<and>
    (\<forall>op st f. \<not> publicOps op \<longrightarrow>
      fst (serve svc publicOps op st f (''Bearer '' @ tok) w') = JSONError 401 ''INVALID_TOKEN'' ''unauthorized'') \<and>
    (\<forall>x \<in> set (d_sessions (db w)). s_Token x \<noteq> tok \<longrightarrow> session_by_token (s_Token x) (db w') \<noteq> None)"
proof -
  obtain w1 where run: "serve svc publicOps ''PostAuthLogout'' 200 PostAuthLogout (''Bearer '' @ tok) w =
      respond 200 (strictAuthMiddleware publicOps ''PostAuthLogout'' PostAuthLogout (Some s) w1)"
    and pro: "only_prolonged s (db w) (db w1)" and fine: "all_fine w1"
    using serve_valid [OF assms(2-5)] by metis
  have inv1: "sessions_inv (db w1)"
    using only_prolonged_inv [OF pro assms(1)] .
  obtain s' where s': "session_by_token tok (db w1) = Some s'" "s_ID s' = s_ID s"
    using only_prolonged_session [OF pro assms(4)] by blast
  let ?w = "w1\<lparr>fpos := Suc (fpos w1), db := (db w1)\<lparr>d_sessions :=
      del_where (\<lambda>x. s_ID x = int32 (s_ID s)) (d_sessions (db w1))\<rparr>\<rparr>"
  have "EndSession (s_ID s) w1 = (Inr (), ?w)"
    unfolding EndSession_Inr using fine s' assms(6)
    by (auto simp: all_fine_def dest!: session_by_token_SomeD)
  then have w': "resp = JSON 200 ''ok''" "w' = ?w"
    using run assms(7) by (auto simp: PostAuthLogout_def sessionFromContext_def tryE_def ret_def respond_def)
  have gone: "session_by_token tok (db w') = None"
    using inv1 s' assms(6) by (simp add: w' session_by_token_del sessions_inv_def)
  have "\<forall>op st f. \<not> publicOps op \<longrightarrow>
      fst (serve svc publicOps op st f (''Bearer '' @ tok) w') = JSONError 401 ''INVALID_TOKEN'' ''unauthorized''"
    using unknown_refused [OF _ gone] by blast
  moreover have "session_by_token (s_Token x) (db w') \<noteq> None"
    if "x \<in> set (d_sessions (db w))" "s_Token x \<noteq> tok" for x
  proof -
    note x = that
    obtain y where y: "y \<in> set (d_sessions (db w1))" "s_Token y = s_Token x" "s_ID y = s_ID x"
      using only_prolonged_keeps [OF pro x(1)] .
    obtain z where z: "session_by_token (s_Token x) (db w1) = Some z"
      using y(1,2) by (cases "session_by_token (s_Token x) (db w1)") (auto simp: session_by_token_def find_None_iff)
    then have "z \<in> set (d_sessions (db w1))" "s_Token z = s_Token x"
      by (auto dest: session_by_token_SomeD)
    then have "s_ID z \<noteq> s_ID s"
      using find_session_unique [OF inv1 s'(1), of z] s' x(2) by (auto dest!: session_by_token_SomeD)
    then show ?thesis
      using inv1 z assms(6) by (simp add: w' session_by_token_del sessions_inv_def)
  qed
  ultimately show ?thesis
    using w'(1) gone by blast
qed


theorem logout_ends_session_witness:
  "fst (serve \<lparr>sessionDuration = 3600\<rparr> (publicOpsFromSpec openapi_operations) ''PostAuthLogout'' 200 PostAuthLogout
     (''Bearer '' @ s_Token sample_session) session_world) = JSON 200 ''ok''"
proof -
  let ?r = "serve \<lparr>sessionDuration = 3600\<rparr> (publicOpsFromSpec openapi_operations) ''PostAuthLogout'' 200 PostAuthLogout
     (''Bearer '' @ s_Token sample_session) session_world"
  obtain r w' where run: "?r = (r, w')" by fastforce
  have "all_fine session_world" "now session_world \<le> s_ExpiresAt sample_session"
    "int32 (s_ID sample_session) = s_ID sample_session"
    using session_world_facts by (simp_all add: all_fine_def session_world_def sample_world_def wrap_int_def)
  from logout_ends_session [OF session_world_facts(1) this(1) sample_token_nonempty session_world_facts(2) this(2,3) run]
  show ?thesis unfolding run fst_conv by (elim conjE)
qed

end
