(* ===== verification/Server_Game.thy ===== *)
theory Server_Game
  imports Server_Auth Problem_Service
begin

text \<open>
  The handlers of \<^verbatim>\<open>internal/server/handler.go\<close> for games, problems, the sandbox and uploads. They carry
  the prefix \<open>handle\<close>, since the methods of \<^verbatim>\<open>HTTPServer\<close> have the names of the service methods they
  call. Optional fields of a request are values of an option type.
\<close>

section \<open>Games as the API shows them\<close>

record api_game =
  ag_Id :: int
  ag_IsPublic :: bool
  ag_IsSolo :: bool
  ag_ProblemIds :: "string list"
  ag_CreatorId :: uuid
  ag_Status :: game_status
  ag_Participants :: "participant list"
  ag_CreatedAt :: time
  ag_UpdatedAt :: time
  ag_StartedAt :: "time option"
  ag_WinnerId :: "uuid option"
  ag_InviteToken :: "uuid option"
  ag_TimeLimitMinutes :: "int option"

definition toAPIGame :: "game \<Rightarrow> participant list \<Rightarrow> string list \<Rightarrow> bool \<Rightarrow> api_game" where
  "toAPIGame g participants problemIDs showToken =
     \<lparr>ag_Id = g_ID g, ag_IsPublic = g_IsPublic g, ag_IsSolo = g_IsSolo g, ag_ProblemIds = problemIDs,
      ag_CreatorId = g_CreatorID g, ag_Status = g_Status g, ag_Participants = participants,
      ag_CreatedAt = g_CreatedAt g, ag_UpdatedAt = g_UpdatedAt g, ag_StartedAt = g_StartedAt g,
      ag_WinnerId = g_WinnerID g, ag_InviteToken = (if showToken then Some (g_InviteToken g) else None),
      ag_TimeLimitMinutes = g_TimeLimitMinutes g\<rparr>"

definition enrichGame :: "game \<Rightarrow> bool \<Rightarrow> ('z, api_game) op" where
  "enrichGame game showToken =
     bindE (GetParticipants (g_ID game)) (\<lambda>participants.
     bindE (GetGameProblemIDs (g_ID game)) (\<lambda>problemIDs.
     ret (toAPIGame game participants problemIDs showToken)))"

fun isParticipantOf :: "uuid \<Rightarrow> participant list \<Rightarrow> bool" where
  "isParticipantOf userID [] = False"
| "isParticipantOf userID (p # ps) = (if pt_ID p = userID then True else isParticipantOf userID ps)"

section \<open>Handlers of games\<close>

definition handleListGames :: "int option \<Rightarrow> int option \<Rightarrow> ctx \<Rightarrow> ('z, api_game list \<times> int) op" where
  "handleListGames limitP offsetP c =
     (let userID = callerID c;
          limit = (case limitP of None \<Rightarrow> 10 | Some l \<Rightarrow> l);
          offset = (case offsetP of None \<Rightarrow> 0 | Some l \<Rightarrow> l) in
      bindE (ListGames limit offset userID) (\<lambda>(games, total).
      let gameIDs = map g_ID games in
      bindE (GetParticipantsByGameIDs gameIDs) (\<lambda>participantMap.
      bindE (GetGameProblemIDsByGameIDs gameIDs) (\<lambda>problemIDsMap.
      ret (map (\<lambda>g.
             let showToken = g_IsPublic g \<or> isParticipantOf userID (participantMap (g_ID g)) in
             toAPIGame g (participantMap (g_ID g)) (problemIDsMap (g_ID g)) showToken) games, total)))))"

definition handleCreateGame ::
  "string list \<Rightarrow> bool option \<Rightarrow> bool option \<Rightarrow> int option \<Rightarrow> ctx \<Rightarrow> ('z, api_game) op" where
  "handleCreateGame problemIds isPublicP isSoloP minutesP c =
     (let isPublic = (isPublicP = None \<or> isPublicP = Some True);
          isSolo = (isSoloP = Some True);
          isPublic = (if isSolo then False else isPublic);
          timeLimitMinutes = map_option int16 minutesP in
      bindE (CreateGame (callerID c) problemIds isPublic isSolo timeLimitMinutes) (\<lambda>game.
      enrichGame game True))"

definition handleGetGame :: "int \<Rightarrow> ctx \<Rightarrow> ('z, api_game) op" where
  "handleGetGame i c =
     bindE (GetGame i) (\<lambda>game.
     bindE (CanAccessGame game (callerID c)) (\<lambda>_. enrichGame game True))"

definition handleDeleteGame :: "int \<Rightarrow> ctx \<Rightarrow> ('z, bool) op" where
  "handleDeleteGame i c = bindE (DeleteGame i (callerID c)) (\<lambda>_. ret True)"

definition handleStartGame :: "int \<Rightarrow> ctx \<Rightarrow> ('z, api_game) op" where
  "handleStartGame i c = bindE (StartGame i (callerID c)) (\<lambda>game. enrichGame game True)"

definition handleCompleteGame :: "int \<Rightarrow> uuid \<Rightarrow> ctx \<Rightarrow> ('z, api_game) op" where
  "handleCompleteGame i winnerId c = bindE (CompleteGame i (callerID c) winnerId) (\<lambda>game. enrichGame game True)"

definition handleLeaveGame :: "int \<Rightarrow> ctx \<Rightarrow> ('z, api_game) op" where
  "handleLeaveGame i c = bindE (LeaveGame i (callerID c)) (\<lambda>game. enrichGame game (g_IsPublic game))"

definition handleCancelGame :: "int \<Rightarrow> ctx \<Rightarrow> ('z, api_game) op" where
  "handleCancelGame i c = bindE (CancelGame i (callerID c)) (\<lambda>game. enrichGame game True)"

definition handleTimeoutGame :: "int \<Rightarrow> ctx \<Rightarrow> ('z, api_game) op" where
  "handleTimeoutGame i c = bindE (TimeoutGame i (callerID c)) (\<lambda>game. enrichGame game False)"

definition handleGetGameByToken :: "uuid \<Rightarrow> ('z, api_game) op" where
  "handleGetGameByToken token =
     bindE (GetGameByToken token) (\<lambda>game. enrichGame game (g_IsPublic game))"

definition handleJoinGameByToken :: "uuid \<Rightarrow> ctx \<Rightarrow> ('z, api_game) op" where
  "handleJoinGameByToken token c =
     bindE (JoinGameByToken token (callerID c)) (\<lambda>game. enrichGame game True)"

record api_solution =
  as_UserId :: uuid
  as_Name :: "string option"
  as_ProblemId :: string
  as_Code :: string
  as_Language :: string
  as_SolvedAt :: "time option"

definition handleGetGameSolutions :: "int \<Rightarrow> ctx \<Rightarrow> ('z, api_solution list) op" where
  "handleGetGameSolutions i c =
     bindE (GetGame i) (\<lambda>game.
     bindE (CanAccessGame game (callerID c)) (\<lambda>_.
     bindE (GetGameSolutions i) (\<lambda>rows.
     ret (map (\<lambda>(r, username, name). \<lparr>as_UserId = sol_UserID r, as_Name = name, as_ProblemId = sol_ProblemID r,
            as_Code = sol_Code r, as_Language = sol_Language r, as_SolvedAt = sol_CreatedAt r\<rparr>) rows))))"

section \<open>Handlers of problems\<close>

record api_problem =
  ap_Id :: string
  ap_Title :: string
  ap_Description :: string
  ap_Difficulty :: string
  ap_TimeLimitMs :: int
  ap_MemoryLimitMb :: int
  ap_TestCount :: "int option"

definition toAPIProblem :: "Problem \<Rightarrow> api_problem" where
  "toAPIProblem p =
     \<lparr>ap_Id = pr_Slug p, ap_Title = m_Title (pr_Manifest p), ap_Description = pr_Statement p,
      ap_Difficulty = m_Difficulty (pr_Manifest p), ap_TimeLimitMs = m_TimeLimitMs (pr_Manifest p),
      ap_MemoryLimitMb = m_MemoryLimitMb (pr_Manifest p), ap_TestCount = Some (int (length (pr_TestCases p)))\<rparr>"

definition handleListProblems ::
  "(string \<Rightarrow> string \<Rightarrow> bool) \<Rightarrow> string option \<Rightarrow> int option \<Rightarrow> int option \<Rightarrow>
   ('z, api_problem list \<times> int) op" where
  "handleListProblems ilike qP limitP offsetP =
     (let q = (case qP of None \<Rightarrow> '''' | Some q \<Rightarrow> q);
          limit = (case limitP of None \<Rightarrow> 50 | Some l \<Rightarrow> if 0 < l then l else 50);
          offset = (case offsetP of None \<Rightarrow> 0 | Some l \<Rightarrow> if 0 \<le> l then l else 0) in
      bindE (ListProblems ilike q limit offset) (\<lambda>(problemsList, total).
      ret (map (\<lambda>pm. \<lparr>ap_Id = pm_Slug pm, ap_Title = pm_Title pm, ap_Description = '''',
             ap_Difficulty = pm_Difficulty pm, ap_TimeLimitMs = pm_TimeLimitMs pm,
             ap_MemoryLimitMb = pm_MemoryLimitMb pm, ap_TestCount = Some (pm_TestCaseCount pm)\<rparr>) problemsList,
           total)))"

definition handleListMyProblems ::
  "(string \<Rightarrow> string \<Rightarrow> bool) \<Rightarrow> string option \<Rightarrow> ctx \<Rightarrow> ('z, MyProblemRow list) op" where
  "handleListMyProblems ilike qP c =
     ListMyProblems ilike (callerID c) (case qP of None \<Rightarrow> '''' | Some q \<Rightarrow> q)"

definition handleGetProblem ::
  "(string \<Rightarrow> err + Manifest) \<Rightarrow> string \<Rightarrow> ctx \<Rightarrow> ('z fs_world_scheme, err, api_problem) sem" where
  "handleGetProblem unmarshal problemId c =
     bindE (GetProblem unmarshal problemId (callerID c)) (\<lambda>p. ret (toAPIProblem p))"

definition handlePatchProblem :: "string \<Rightarrow> string \<Rightarrow> ctx \<Rightarrow> ('z, string \<times> string) op" where
  "handlePatchProblem problemId visibility c =
     bindE (UpdateVisibility problemId (callerID c) visibility) (\<lambda>_. ret (problemId, visibility))"

section \<open>The sandbox and uploads\<close>

record api_execution =
  ae_Stdout :: string
  ae_Stderr :: string
  ae_ExitCode :: int
  ae_TimeUsedMs :: int

definition executeBody ::
  "'l limiter_api \<Rightarrow> runner \<Rightarrow> ExecutionRequest \<Rightarrow> uuid \<Rightarrow> (('l, 'z) exec_world_scheme, err, api_execution) sem" where
  "executeBody api run req userID =
     bindE (CheckRateLimit api userID) (\<lambda>_ w.
       case Execute run req w of
         ((result, Some err), w1) \<Rightarrow> (Inl err, w1)
       | ((result, None), w1) \<Rightarrow>
           (Inr \<lparr>ae_Stdout = xr_Stdout result, ae_Stderr = xr_Stderr result, ae_ExitCode = xr_ExitCode result,
                 ae_TimeUsedMs = xr_TimeUsed result div 1000000\<rparr>, w1))"

definition handlePostExecute ::
  "'l limiter_api \<Rightarrow> runner \<Rightarrow> string \<Rightarrow> string \<Rightarrow> string \<Rightarrow> ctx \<Rightarrow> ('l, 'z) exec_world_scheme \<Rightarrow>
   ((err + api_execution) \<times> ('l, 'z) exec_world_scheme) option" where
  "handlePostExecute api run code language input c w =
     (let userID = callerID c;
          req = \<lparr>er_Code = code, er_Language = language, er_Stdin = input, er_TimeLimit = 0, er_MemoryLimit = 0\<rparr> in
      case TryAcquireSlot userID ''execute'' w of
        (False, w1) \<Rightarrow> Some (Inl (New ErrExecutionInProgress ''execution already in progress''), w1)
      | (True, w1) \<Rightarrow>
          (case executeBody api run req userID w1 of
             (r, w2) \<Rightarrow> map_option (\<lambda>w3. (r, w3)) (ReleaseSlot userID ''execute'' w2)))"

text \<open>A multipart form: whether it could be parsed, the visibility, the file with its size.\<close>

record upload_form =
  uf_Parsed :: bool
  uf_Visibility :: string
  uf_File :: "(upload \<times> int) option"

definition mapUploadError :: "err \<Rightarrow> err" where
  "mapUploadError e = (case errors_as_app e of Some ae \<Rightarrow> AppErr ae | None \<Rightarrow> New ErrInternal ''upload failed'')"

definition archive_error :: "err \<Rightarrow> err" where
  "archive_error e =
     (if errors_is e PrbErrExecutorNotReady then New ErrExecutorNotReady ''executor not ready''
      else New ErrArchiveInvalid (error_text e))"

definition removeDir :: "string \<Rightarrow> 'z fs_world_scheme \<Rightarrow> 'z fs_world_scheme" where
  "removeDir d w = w\<lparr>files := RemoveAll d (files w)\<rparr>"

definition cleanupValidated :: "ValidatedProblem list \<Rightarrow> 'z fs_world_scheme \<Rightarrow> 'z fs_world_scheme" where
  "cleanupValidated validated =
     removeDir (if length validated = 1 then vp_Dir (hd validated) else DirPath (vp_Dir (hd validated)))"

definition handleUploadProblem ::
  "(string \<Rightarrow> err + Manifest) \<Rightarrow> runner \<Rightarrow> bool \<Rightarrow> unicode \<Rightarrow> (string \<Rightarrow> string) \<Rightarrow> err + string \<Rightarrow> upload_form \<Rightarrow>
   ctx \<Rightarrow> ('l, 'z) exec_world_scheme \<Rightarrow> UploadResult list response \<times> ('l, 'z) exec_world_scheme" where
  "handleUploadProblem unmarshal run ready uni sha256 tmp form c w =
     (let userID = callerID c; visibility = uf_Visibility form in
      if \<not> uf_Parsed form
        then (writeHTTPError (New ErrArchiveInvalid ''failed to parse multipart form''), w)
      else if visibility \<notin> {''public'', ''unlisted'', ''private''}
        then (writeHTTPError (New ErrValidation ''visibility must be public, unlisted, or private''), w)
      else (case uf_File form of
        None \<Rightarrow> (writeHTTPError (New ErrArchiveInvalid ''file field is required''), w)
      | Some (f, sz) \<Rightarrow>
      (case ValidateArchive unmarshal run ready tmp f sz w of
        (Inl uploadErr, w1) \<Rightarrow> (writeHTTPError (archive_error uploadErr), w1)
      | (Inr validated, w1) \<Rightarrow>
      (case ValidateUploadBatch validated userID w1 of
        (Inl err, w2) \<Rightarrow> (writeHTTPError err, cleanupValidated validated w2)
      | (Inr _, w2) \<Rightarrow>
      (case uploadLoop uni sha256 userID visibility validated w2 of
        (Inl err, w3) \<Rightarrow> (writeHTTPError (mapUploadError err), cleanupValidated validated w3)
      | (Inr results, w3) \<Rightarrow>
          (JSON 201 results,
           if 1 < length validated then removeDir (DirPath (vp_Dir (hd validated))) w3 else w3))))))"

definition handleUploadProblemVersion ::
  "(string \<Rightarrow> err + Manifest) \<Rightarrow> runner \<Rightarrow> bool \<Rightarrow> (string \<Rightarrow> string) \<Rightarrow> err + string \<Rightarrow> upload_form \<Rightarrow> string \<Rightarrow>
   ctx \<Rightarrow> ('l, 'z) exec_world_scheme \<Rightarrow> UploadResult response \<times> ('l, 'z) exec_world_scheme" where
  "handleUploadProblemVersion unmarshal run ready sha256 tmp form slug c w =
     (let userID = callerID c in
      if \<not> uf_Parsed form
        then (writeHTTPError (New ErrArchiveInvalid ''failed to parse multipart form''), w)
      else (case uf_File form of
        None \<Rightarrow> (writeHTTPError (New ErrArchiveInvalid ''file field is required''), w)
      | Some (f, sz) \<Rightarrow>
      (case ValidateArchive unmarshal run ready tmp f sz w of
        (Inl uploadErr, w1) \<Rightarrow> (writeHTTPError (archive_error uploadErr), w1)
      | (Inr validated, w1) \<Rightarrow>
          if length validated \<noteq> 1
          then (writeHTTPError (New ErrArchiveInvalid ''versioning endpoint requires a single-problem archive''),
                if 1 < length validated then removeDir (DirPath (vp_Dir (hd validated))) w1 else w1)
          else (case UploadNewVersionAs sha256 (hd validated) slug userID w1 of
            (Inl err, w2) \<Rightarrow> (writeHTTPError (mapUploadError err), removeDir (vp_Dir (hd validated)) w2)
          | (Inr res, w2) \<Rightarrow> (JSON 201 res, w2)))))"

section \<open>Who sees an invite token\<close>

lemma isParticipantOf_iff: "isParticipantOf u ps \<longleftrightarrow> u \<in> pt_ID ` set ps"
  by (induction ps) auto

text \<open>The requests that answer with games, and the games they answer with.\<close>

datatype game_request =
    ReqList "int option" "int option"
  | ReqCreate "string list" "bool option" "bool option" "int option"
  | ReqGet int
  | ReqStart int
  | ReqComplete int uuid
  | ReqLeave int
  | ReqCancel int
  | ReqTimeout int
  | ReqByToken uuid
  | ReqJoin uuid

definition one :: "('z, api_game) op \<Rightarrow> ('z, api_game list) op" where
  "one m = bindE m (\<lambda>ag. ret [ag])"

fun handle :: "game_request \<Rightarrow> ctx \<Rightarrow> ('z, api_game list) op" where
  "handle (ReqList l off) c = bindE (handleListGames l off c) (\<lambda>(games, total). ret games)"
| "handle (ReqCreate slugs pub solo mins) c = one (handleCreateGame slugs pub solo mins c)"
| "handle (ReqGet i) c = one (handleGetGame i c)"
| "handle (ReqStart i) c = one (handleStartGame i c)"
| "handle (ReqComplete i u) c = one (handleCompleteGame i u c)"
| "handle (ReqLeave i) c = one (handleLeaveGame i c)"
| "handle (ReqCancel i) c = one (handleCancelGame i c)"
| "handle (ReqTimeout i) c = one (handleTimeoutGame i c)"
| "handle (ReqByToken t) c = one (handleGetGameByToken t)"
| "handle (ReqJoin t) c = one (handleJoinGameByToken t c)"

lemma one_Inr [success]: "one m w = (Inr ags, w') \<longleftrightarrow> (\<exists>ag. ags = [ag] \<and> m w = (Inr ag, w'))"
  by (auto simp: one_def success)

lemma enrichGame_Inr:
  assumes "enrichGame g show w = (Inr ag, w')"
  shows "db w' = db w \<and> ag_Id ag = g_ID g \<and> ag_IsPublic ag = g_IsPublic g \<and>
     ag_CreatorId ag = g_CreatorID g \<and> ag_IsSolo ag = g_IsSolo g \<and>
     ag_TimeLimitMinutes ag = g_TimeLimitMinutes g \<and>
     ag_InviteToken ag = (if show then Some (g_InviteToken g) else None)"
proof -
  from assms obtain ps w1 qs where runs: "GetParticipants (g_ID g) w = (Inr ps, w1)"
      "GetGameProblemIDs (g_ID g) w1 = (Inr qs, w')" and ag: "ag = toAPIGame g ps qs show"
    unfolding enrichGame_def bindE_Inr ret_iff by blast
  have "db w1 = db w"
    using runs(1) unfolding GetParticipants_def qGetParticipants_def bindE_Inr reads_Inr ret_iff
    by (elim exE conjE) simp
  moreover have "db w' = db w1"
    using runs(2) unfolding GetGameProblemIDs_def qGetGameProblemIDs_def reads_Inr by (elim conjE) simp
  ultimately show ?thesis
    by (simp add: ag toAPIGame_def)
qed

definition may_know_token :: "uuid \<Rightarrow> database \<Rightarrow> api_game \<Rightarrow> bool" where
  "may_know_token u d ag \<longleftrightarrow> ag_IsPublic ag \<or> ag_CreatorId ag = u \<or> is_participant (ag_Id ag) u d"

lemma append_all_mem: "v \<in> set (append_all rows k) \<longleftrightarrow> (k, v) \<in> set rows"
proof -
  have "v \<in> set (foldl (\<lambda>m (k, v). m(k := m k @ [v])) m rows k) \<longleftrightarrow> v \<in> set (m k) \<or> (k, v) \<in> set rows" for m
  proof (induction rows arbitrary: m)
    case (Cons r rows)
    obtain k' v' where "r = (k', v')" by force
    then show ?case using Cons.IH [of "m(k' := m k' @ [v'])"] by auto
  qed simp
  then show ?thesis by (simp add: append_all_def)
qed


lemma batch_member:
  assumes "GetParticipantsByGameIDs is w = (Inr m, w')" "isParticipantOf u (m i)"
  shows "is_participant i u (db w)"
  using assms
  by (auto simp: GetParticipantsByGameIDs_def qGetParticipantsByGameIDs_def success isParticipantOf_iff
      append_all_mem join_users_def is_participant_def) blast

lemma creator_starts: "StartGame i u w = (Inr g, w') \<Longrightarrow> g_CreatorID g = u"
  by (auto simp: StartGame_def qStartGame_def qCountGameParticipants_def success started_def
      split: option.splits if_splits)

lemma creator_cancels: "CancelGame i u w = (Inr g, w') \<Longrightarrow> g_CreatorID g = u"
  by (auto simp: CancelGame_def qCancelGame_def success cancelled_def split: option.splits if_splits)

lemma completeGame_row:
  assumes "completeGame i v w = (Inr g, w')"
  shows "\<exists>g0. find_game (int32 i) (db w) = Some g0 \<and> g = completed (now w) (Some v) g0"
proof -
  let ?w = "w\<lparr>fpos := Suc (fpos w)\<rparr>"
  from assms obtain game w2 w3 where game: "getGameForUpdate i ?w = (Inr game, w2)"
    and run: "(if g_Status game \<noteq> Active then throw (New ErrGameNotInProgress ''game is not in progress'')
      else bindE (qIsGameParticipant (g_ID game) v) (\<lambda>ok.
      if \<not> ok then throw (New ErrInvalidWinner ''winner must be one of the players'')
      else qCompleteGame (g_ID game) (Some v))) w2 = (Inr g, w3)"
    unfolding completeGame_def in_tx_Inr bindE_Inr by blast
  from run obtain w4 where "qIsGameParticipant (g_ID game) v w2 = (Inr True, w4)"
    "qCompleteGame (g_ID game) (Some v) w4 = (Inr g, w3)"
    by (cases "g_Status game \<noteq> Active") (simp_all add: throw_iff bindE_Inr split: if_splits, metis (full_types) Inl_Inr_False)
  with game show ?thesis
    by (auto simp: getGameForUpdate_Inr qIsGameParticipant_Inr qCompleteGame_Inr)
qed

lemma creator_completes: "CompleteGame i u v w = (Inr g, w') \<Longrightarrow> g_CreatorID g = u"
  by (auto simp: CompleteGame_def bindE_Inr throw_iff GetGame_Inr completed_def split: if_splits
      dest!: completeGame_row)

lemma creator_creates: "CreateGame u slugs pub solo mins w = (Inr g, w') \<Longrightarrow> g_CreatorID g = u"
  by (auto simp: CreateGame_def success new_game_def split: if_splits)

lemma joiner_plays: "JoinGameByToken t u w = (Inr g, w') \<Longrightarrow> is_participant (g_ID g) u (db w')"
  by (auto simp: JoinGameByToken_def JoinGame_def success split: if_splits)

lemma CanAccessGame_Inr:
  "CanAccessGame g u w = (Inr (), w') \<Longrightarrow> (g_IsPublic g \<or> is_participant (g_ID g) u (db w)) \<and> db w' = db w"
  by (auto simp: CanAccessGame_def ret_iff throw_iff bindE_Inr qIsGameParticipant_Inr split: if_splits)

lemma enriched:
  assumes "bindE m (\<lambda>game. enrichGame game (show game)) w = (Inr ag, w')"
  obtains g w1 where "m w = (Inr g, w1)" "db w' = db w1" "ag_Id ag = g_ID g" "ag_IsPublic ag = g_IsPublic g"
    "ag_CreatorId ag = g_CreatorID g" "ag_InviteToken ag = (if show g then Some (g_InviteToken g) else None)"
proof -
  from assms obtain g w1 where "m w = (Inr g, w1)" "enrichGame g (show g) w1 = (Inr ag, w')"
    unfolding bindE_Inr by blast
  with that show ?thesis using enrichGame_Inr by blast
qed

lemma listed_token:
  assumes "handleListGames l off c w = (Inr (gs, cnt), w')" "ag \<in> set gs"
  shows "db w' = db w \<and> (ag_InviteToken ag \<noteq> None \<longrightarrow> may_know_token (callerID c) (db w) ag)"
proof -
  from assms(1) obtain games w1 pm w2 qm where
    list: "ListGames (case l of None \<Rightarrow> 10 | Some l \<Rightarrow> l) (case off of None \<Rightarrow> 0 | Some l \<Rightarrow> l) (callerID c) w =
      (Inr (games, cnt), w1)"
    and batch: "GetParticipantsByGameIDs (map g_ID games) w1 = (Inr pm, w2)"
      "GetGameProblemIDsByGameIDs (map g_ID games) w2 = (Inr qm, w')"
    and gs: "gs = map (\<lambda>g. toAPIGame g (pm (g_ID g)) (qm (g_ID g))
      (g_IsPublic g \<or> isParticipantOf (callerID c) (pm (g_ID g)))) games"
    unfolding handleListGames_def Let_def bindE_Inr by (auto simp: ret_iff bindE_Inr)
  have "db w1 = db w" "db w2 = db w1" "db w' = db w2"
    using list batch
    by (auto simp: ListGames_def Let_def qCountGamesForUser_def qListGamesForUser_def GetParticipantsByGameIDs_def
        qGetParticipantsByGameIDs_def GetGameProblemIDsByGameIDs_def qGetGameProblemIDsByGameIDs_def
        bindE_Inr ret_iff reads_Inr)
  moreover have "ag_InviteToken ag \<noteq> None \<longrightarrow> may_know_token (callerID c) (db w1) ag"
    using assms(2) batch_member [OF batch(1)]
    by (auto simp: gs toAPIGame_def may_know_token_def split: if_splits)
  ultimately show ?thesis by simp
qed

text \<open>
  Every request but a listing is one operation that yields the row of the game, which is then enriched;
  the operation and the choice of the handler whether to show the token:
\<close>

fun row_of :: "game_request \<Rightarrow> uuid \<Rightarrow> ('z, game) op" where
  "row_of (ReqCreate slugs pub solo mins) u =
     CreateGame u slugs (if solo = Some True then False else (pub = None \<or> pub = Some True)) (solo = Some True)
       (map_option int16 mins)"
| "row_of (ReqGet i) u = bindE (GetGame i) (\<lambda>game. bindE (CanAccessGame game u) (\<lambda>_. ret game))"
| "row_of (ReqStart i) u = StartGame i u"
| "row_of (ReqComplete i v) u = CompleteGame i u v"
| "row_of (ReqLeave i) u = LeaveGame i u"
| "row_of (ReqCancel i) u = CancelGame i u"
| "row_of (ReqTimeout i) u = TimeoutGame i u"
| "row_of (ReqByToken t) u = GetGameByToken t"
| "row_of (ReqJoin t) u = JoinGameByToken t u"
| "row_of (ReqList l off) u = throw ErrNoRows"

fun shows_token :: "game_request \<Rightarrow> game \<Rightarrow> bool" where
  "shows_token (ReqLeave i) g = g_IsPublic g"
| "shows_token (ReqByToken t) g = g_IsPublic g"
| "shows_token (ReqTimeout i) g = False"
| "shows_token _ g = True"

lemma handle_row:
  assumes "handle r c w = (Inr ags, w')" "\<not> (\<exists>l off. r = ReqList l off)"
  shows "\<exists>ag. ags = [ag] \<and>
    bindE (row_of r (callerID c)) (\<lambda>game. enrichGame game (shows_token r game)) w = (Inr ag, w')"
  using assms
  by (cases r) (auto simp: one_Inr bindE_Inr ret_iff handleCreateGame_def handleGetGame_def handleStartGame_def
      handleCompleteGame_def handleLeaveGame_def handleCancelGame_def handleTimeoutGame_def
      handleGetGameByToken_def handleJoinGameByToken_def Let_def)

lemma row_known:
  assumes "row_of r u w = (Inr g, w')" "shows_token r g"
  shows "g_IsPublic g \<or> g_CreatorID g = u \<or> is_participant (g_ID g) u (db w')"
  using assms
  by (cases r) (auto simp: bindE_Inr ret_iff throw_iff dest: creator_creates creator_starts creator_completes
      creator_cancels joiner_plays CanAccessGame_Inr)

text \<open>
  C33. Invite tokens. Whatever request about games is answered, with whatever faults: a game in the
  answer shows its invite token only if the game is public, or the caller created it or plays in it; an
  answer to a lookup by token or to a time-out never shows the token of a private game.
\<close>

theorem invite_token_guarded:
  assumes "handle r c w = (Inr ags, w')" and "ag \<in> set ags" and "ag_InviteToken ag = Some t"
  shows "may_know_token (callerID c) (db w') ag \<and>
    ((\<exists>tok. r = ReqByToken tok) \<or> (\<exists>i. r = ReqLeave i) \<longrightarrow> ag_IsPublic ag) \<and> (\<forall>i. r \<noteq> ReqTimeout i)"
proof (cases "\<exists>l off. r = ReqList l off")
  case True
  with assms obtain l off n where r: "r = ReqList l off" and "handleListGames l off c w = (Inr (ags, n), w')"
    by (auto simp: bindE_Inr ret_iff)
  with listed_token [OF this(2) assms(2)] assms(3) show ?thesis by simp
next
  case False
  with handle_row [OF assms(1)] assms(2) have
    "bindE (row_of r (callerID c)) (\<lambda>game. enrichGame game (shows_token r game)) w = (Inr ag, w')"
    by auto
  then obtain g w1 where g: "row_of r (callerID c) w = (Inr g, w1)" "db w' = db w1" "ag_Id ag = g_ID g"
    "ag_IsPublic ag = g_IsPublic g" "ag_CreatorId ag = g_CreatorID g"
    "ag_InviteToken ag = (if shows_token r g then Some (g_InviteToken g) else None)"
    by (rule enriched)
  with assms(3) have shown: "shows_token r g"
    by (simp split: if_splits)
  then have "(\<exists>tok. r = ReqByToken tok) \<or> (\<exists>i. r = ReqLeave i) \<longrightarrow> g_IsPublic g" "\<forall>i. r \<noteq> ReqTimeout i"
    by auto
  with row_known [OF g(1) shown] g show ?thesis
    by (simp add: may_know_token_def)
qed

definition player_ctx :: ctx where
  "player_ctx = Some (sample_session\<lparr>s_UserID := 2\<rparr>)"

theorem invite_token_guarded_witness:
  "\<exists>ag w'. handle (ReqList None None) player_ctx active_world = (Inr [ag], w') \<and>
     ag_InviteToken ag \<noteq> None \<and> may_know_token 2 (db w') ag"
proof -
  let ?r = "handle (ReqList None None) player_ctx active_world"
  have len: "map_sum id (map (\<lambda>ag. (ag_Id ag, ag_InviteToken ag \<noteq> None))) (fst ?r) = Inr [(1, True)]"
    by code_simp
  obtain r w' where run: "?r = (r, w')" by fastforce
  with len obtain ag where r: "r = Inr [ag]" "ag_InviteToken ag \<noteq> None"
    by (cases r) auto
  then obtain t where t: "ag_InviteToken ag = Some t" by blast
  have "callerID player_ctx = 2"
    by (simp add: callerID_def userIDFromContext_def player_ctx_def)
  with invite_token_guarded [OF run [unfolded r(1)] _ t] run r show ?thesis by auto
qed

text \<open>
  A time limit does not fit: the handler converts the minutes of the request to sixteen bits without a
  check, so that 65546 minutes become ten, and 40000 a negative limit.
\<close>

lemma time_limit_wraps:
  "map_sum id ag_TimeLimitMinutes (fst (handleCreateGame [''two-sum-easy''] None (Some True) (Some 65546)
     player_ctx sample_world)) = Inr (Some 10)"
  "map_sum id ag_TimeLimitMinutes (fst (handleCreateGame [''two-sum-easy''] None (Some True) (Some 40000)
     player_ctx sample_world)) = Inr (Some (- 25536))"
  by code_simp+

text \<open>Solo games are never public, whatever the request says.\<close>

lemma solo_not_public:
  assumes "handleCreateGame slugs pub (Some True) mins c w = (Inr ag, w')"
  shows "\<not> ag_IsPublic ag \<and> ag_IsSolo ag"
proof -
  from assms obtain g w1 where "CreateGame (callerID c) slugs False True (map_option int16 mins) w = (Inr g, w1)"
    "enrichGame g True w1 = (Inr ag, w')"
    by (auto simp: handleCreateGame_def bindE_Inr Let_def)
  then show ?thesis
    by (auto simp: CreateGame_def success new_game_def split: if_splits dest!: enrichGame_Inr)
qed

end
