(* ===== verification/Server_WS.thy ===== *)
theory Server_WS
  imports Server_Game Submission_Service Hub
begin

text \<open>
  The WebSocket part of \<^verbatim>\<open>internal/server/handler.go\<close> and \<^verbatim>\<open>internal/ws/messages.go\<close>: who is let into the
  room of a game, what a new connection is told, and what becomes of a submitted solution. The state
  is the world of the services together with the hub. \<^verbatim>\<open>json.Marshal\<close> of a server message is the argument
  \<open>marshal\<close>; a frame of the client that does not decode to a submission is ignored, so a frame is an
  optional \<open>ClientMessage\<close>.
\<close>

section \<open>Messages\<close>

record ClientMessage =
  cm_Code :: string
  cm_Language :: string

record ServerMessage =
  msg_Type :: string
  msg_UserID :: uuid
  msg_WinnerID :: uuid
  msg_Accepted :: bool
  msg_Stdout :: string
  msg_Stderr :: string
  msg_Message :: string
  msg_ErrorCode :: string
  msg_FailedTest :: "nat option"
  msg_ProblemID :: string
  msg_ProblemIdx :: int
  msg_Code :: string
  msg_Language :: string
  msg_Progress :: "uuid \<rightharpoonup> int"

definition server_message :: "string \<Rightarrow> ServerMessage" where
  "server_message ty = \<lparr>msg_Type = ty, msg_UserID = 0, msg_WinnerID = 0, msg_Accepted = False, msg_Stdout = '''',
     msg_Stderr = '''', msg_Message = '''', msg_ErrorCode = '''', msg_FailedTest = None, msg_ProblemID = '''',
     msg_ProblemIdx = 0, msg_Code = '''', msg_Language = '''', msg_Progress = Map.empty\<rparr>"

type_synonym order = "nat list \<Rightarrow> nat list"

section \<open>Submissions\<close>

definition error_message :: "uuid \<Rightarrow> err \<Rightarrow> ServerMessage" where
  "error_message userID e = (case errors_as_app e of
       Some appErr \<Rightarrow> (server_message ''error'')\<lparr>msg_UserID := userID,
         msg_ErrorCode := error_code_string (ErrorCode appErr), msg_Message := Message appErr\<rparr>
     | None \<Rightarrow> (server_message ''error'')\<lparr>msg_UserID := userID,
         msg_ErrorCode := error_code_string ErrInternal, msg_Message := ''internal error''\<rparr>)"

definition broadcastError ::
  "order \<Rightarrow> (ServerMessage \<Rightarrow> string) \<Rightarrow> int \<Rightarrow> uuid \<Rightarrow> err \<Rightarrow> Hub \<Rightarrow> Hub" where
  "broadcastError ord marshal gameID userID e = SendToUser ord gameID userID (marshal (error_message userID e))"

definition result_message :: "uuid \<Rightarrow> SubmissionResult \<Rightarrow> ServerMessage" where
  "result_message userID result =
     (server_message ''submission_result'')\<lparr>msg_UserID := userID, msg_Accepted := sr_Accepted result,
        msg_Stdout := sr_Stdout result, msg_Stderr := sr_Stderr result, msg_FailedTest := sr_FailedTest result\<rparr>"

definition finished_message :: "uuid \<Rightarrow> ServerMessage" where
  "finished_message winner = (server_message ''game_finished'')\<lparr>msg_WinnerID := winner\<rparr>"

definition advanced_message :: "uuid \<Rightarrow> SubmissionResult \<Rightarrow> (uuid \<rightharpoonup> int) \<Rightarrow> ServerMessage" where
  "advanced_message userID result prog =
     (server_message ''player_advanced'')\<lparr>msg_UserID := userID, msg_ProblemID := sr_ProblemID result,
        msg_ProblemIdx := sr_ProblemIdx result, msg_Progress := prog\<rparr>"

definition processSubmit ::
  "'l limiter_api \<Rightarrow> (string \<Rightarrow> err + Manifest) \<Rightarrow> runner \<Rightarrow> (ServerMessage \<Rightarrow> string) \<Rightarrow> order \<Rightarrow> int \<Rightarrow> uuid \<Rightarrow>
   ClientMessage \<Rightarrow> ('l, 'z) exec_world_scheme \<times> Hub \<Rightarrow> (('l, 'z) exec_world_scheme \<times> Hub) option" where
  "processSubmit api unmarshal run marshal ord gameID userID msg = (\<lambda>(w, h).
     case Submit api unmarshal run gameID userID (cm_Code msg) (cm_Language msg) w of
       None \<Rightarrow> None
     | Some (Inl err, w1) \<Rightarrow> Some (w1, broadcastError ord marshal gameID userID err h)
     | Some (Inr result, w1) \<Rightarrow>
         if sr_AlreadyAdvanced result then Some (w1, h)
         else
           let h1 = SendToUser ord gameID userID (marshal (result_message userID result)) h in
           if \<not> sr_Accepted result then Some (w1, h1)
           else if sr_WinnerID result \<noteq> 0
           then Some (w1, Broadcast ord gameID (marshal (finished_message (sr_WinnerID result))) h1)
           else if sr_ProblemID result \<noteq> ''''
           then (case GetAllParticipantsProblemIndices gameID w1 of
                   (r, w2) \<Rightarrow>
                     let prog = (case r of Inr p \<Rightarrow> p | Inl _ \<Rightarrow> Map.empty) in
                     Some (w2, Broadcast ord gameID (marshal (advanced_message userID result prog)) h1))
           else Some (w1, h1))"

section \<open>Connections\<close>

text \<open>
  The checks before the upgrade. \<open>idParam\<close> is the result of \<^verbatim>\<open>strconv.Atoi\<close> on the path parameter; the first
  subprotocol is the token.
\<close>

definition admitWS ::
  "int option \<Rightarrow> string \<Rightarrow> 'z world_scheme \<Rightarrow> (unit response + int \<times> session) \<times> 'z world_scheme" where
  "admitWS idParam token w =
     (case idParam of
        None \<Rightarrow> (Inl (PlainError 400 ''invalid game id''), w)
      | Some gameID \<Rightarrow>
      (case ValidateToken token w of
        (Inl err, w1) \<Rightarrow> (Inl (writeHTTPError err), w1)
      | (Inr session, w1) \<Rightarrow>
      (case GetGame gameID w1 of
        (Inl err, w2) \<Rightarrow> (Inl (PlainError 404 ''game not found''), w2)
      | (Inr game, w2) \<Rightarrow>
          if g_Status game \<noteq> Active then (Inl (PlainError 400 ''game is not active''), w2)
          else (case IsParticipant gameID (s_UserID session) w2 of
            (Inl err, w3) \<Rightarrow> (Inl (PlainError 500 ''internal error''), w3)
          | (Inr ok, w3) \<Rightarrow>
              if \<not> ok then (Inl (writeHTTPError (New ErrNotParticipant ''not a participant'')), w3)
              else (Inr (gameID, session), w3)))))"

definition sendPlayerState ::
  "(ServerMessage \<Rightarrow> string) \<Rightarrow> int \<Rightarrow> uuid \<Rightarrow> nat \<Rightarrow> 'z world_scheme \<times> Hub \<Rightarrow> 'z world_scheme \<times> Hub" where
  "sendPlayerState marshal gameID userID c = (\<lambda>(w, h).
     case GetParticipantProblemIndex gameID userID w of
       (Inl _, w1) \<Rightarrow> (w1, h)
     | (Inr playerIdx, w1) \<Rightarrow>
     (case GetGameProblemIDByIndex (int32 gameID) playerIdx w1 of
       (Inl _, w2) \<Rightarrow> (w2, h)
     | (Inr problemID, w2) \<Rightarrow>
     (case GetAllParticipantsProblemIndices gameID w2 of
       (r, w3) \<Rightarrow>
         (w3, sendTo (marshal ((server_message ''player_state'')\<lparr>msg_ProblemID := problemID,
                msg_ProblemIdx := playerIdx,
                msg_Progress := (case r of Inr p \<Rightarrow> p | Inl _ \<Rightarrow> Map.empty)\<rparr>)) c h))))"

text \<open>
  The handler up to its read loop, on a connection with the new address \<open>c\<close>; \<open>upgraded\<close> tells whether
  the upgrade succeeded.
\<close>

definition connectWS ::
  "(ServerMessage \<Rightarrow> string) \<Rightarrow> order \<Rightarrow> bool \<Rightarrow> int option \<Rightarrow> string \<Rightarrow> nat \<Rightarrow> 'z world_scheme \<times> Hub \<Rightarrow>
   (unit response + (int \<times> uuid) option) \<times> 'z world_scheme \<times> Hub" where
  "connectWS marshal ord upgraded idParam token c = (\<lambda>(w, h).
     case admitWS idParam token w of
       (Inl resp, w1) \<Rightarrow> (Inl resp, w1, h)
     | (Inr (gameID, session), w1) \<Rightarrow>
         if \<not> upgraded then (Inr None, w1, h)
         else
           let userID = s_UserID session;
               h1 = h\<lparr>h_clients := (h_clients h)(c := NewClient userID)\<rparr>;
               h2 = Join (int32 gameID) c h1;
               h3 = Broadcast ord (int32 gameID)
                      (marshal ((server_message ''player_joined'')\<lparr>msg_UserID := userID\<rparr>)) h2 in
           (Inr (Some (gameID, userID)), sendPlayerState marshal gameID userID c (w1, h3)))"

text \<open>A frame read from the connection, and the end of the handler: first Close, then Leave.\<close>

definition receiveWS ::
  "'l limiter_api \<Rightarrow> (string \<Rightarrow> err + Manifest) \<Rightarrow> runner \<Rightarrow> (ServerMessage \<Rightarrow> string) \<Rightarrow> order \<Rightarrow> int \<Rightarrow> uuid \<Rightarrow>
   ClientMessage option \<Rightarrow> ('l, 'z) exec_world_scheme \<times> Hub \<Rightarrow> (('l, 'z) exec_world_scheme \<times> Hub) option" where
  "receiveWS api unmarshal run marshal ord gameID userID frame s =
     (case frame of
        None \<Rightarrow> Some s
      | Some msg \<Rightarrow> processSubmit api unmarshal run marshal ord (int32 gameID) userID msg s)"

definition disconnectWS :: "int \<Rightarrow> nat \<Rightarrow> Hub \<Rightarrow> Hub" where
  "disconnectWS gameID c h = Leave (int32 gameID) c (hub_step (OnClient c Closing) h)"

section \<open>Who is let in\<close>

lemma admitWS_cases:
  assumes "admitWS idParam token w = (r, w')"
  shows "db w' = db w \<and> (case r of Inl _ \<Rightarrow> True | Inr (gameID, s) \<Rightarrow>
    idParam = Some gameID \<and> token \<noteq> '''' \<and> session_by_token token (db w) = Some s \<and> now w \<le> s_ExpiresAt s \<and>
    (\<exists>g. find_game (int32 gameID) (db w) = Some g \<and> g_Status g = Active) \<and>
    is_participant (int32 gameID) (s_UserID s) (db w))"
proof (cases idParam)
  case (Some gameID)
  obtain a w1 where val: "ValidateToken token w = (a, w1)" by force
  note db1 = ValidateToken_db [OF val]
  show ?thesis
  proof (cases a)
    case (Inl e)
    with assms Some val db1 show ?thesis by (auto simp: admitWS_def)
  next
    case (Inr s)
    obtain b w2 where game: "GetGame gameID w1 = (b, w2)" by force
    have db2: "db w2 = db w1"
      using game by (auto simp: GetGame_def qGetGameByID_def mapErr_def tryE_def throw_def ret_def reads_def
          roundtrip_def Let_def split: fault.splits sum.splits)
    show ?thesis
    proof (cases b)
      case (Inl e)
      with assms Some val game \<open>a = Inr s\<close> db1 db2 show ?thesis by (auto simp: admitWS_def)
    next
      case (Inr g)
      obtain d w3 where part: "IsParticipant gameID (s_UserID s) w2 = (d, w3)" by force
      have db3: "db w3 = db w2"
        using part by (auto simp: IsParticipant_def qIsGameParticipant_def reads_def roundtrip_def Let_def
            split: fault.splits)
      from part have ok: "d = Inr True \<Longrightarrow> is_participant (int32 gameID) (s_UserID s) (db w2)"
        by (auto simp: IsParticipant_def qIsGameParticipant_Inr)
      have "find_game (int32 gameID) (db w1) = Some g"
        using game Inr by (auto simp: GetGame_Inr)
      moreover have "session_by_token token (db w) = Some s \<and> now w \<le> s_ExpiresAt s \<and> token \<noteq> ''''"
        using val \<open>a = Inr s\<close> by (auto simp: ValidateToken_Inr)
      ultimately show ?thesis
        using assms Some val game \<open>a = Inr s\<close> Inr part db1 db2 db3 ok
        by (auto simp: admitWS_def split: if_splits sum.splits)
    qed
  qed
qed (use assms in \<open>auto simp: admitWS_def\<close>)

lemma GetParticipantProblemIndex_db: "GetParticipantProblemIndex i u w = (r, w') \<Longrightarrow> db w' = db w"
  by (auto simp: GetParticipantProblemIndex_def qGetParticipantProblemIndex_def mapErr_def tryE_def throw_def ret_def
      reads_def roundtrip_def Let_def split: fault.splits sum.splits)

lemma GetGameProblemIDByIndex_db: "GetGameProblemIDByIndex i n w = (r, w') \<Longrightarrow> db w' = db w"
  by (auto simp: GetGameProblemIDByIndex_def qGetGameProblemIDByIndex_def mapErr_def tryE_def throw_def ret_def
      reads_def roundtrip_def Let_def split: fault.splits sum.splits)

lemma GetAllIndices_db: "GetAllParticipantsProblemIndices i w = (r, w') \<Longrightarrow> db w' = db w"
  by (auto simp: GetAllParticipantsProblemIndices_def qGetAllParticipantsProblemIndices_def bindE_def ret_def
      reads_def roundtrip_def Let_def split: fault.splits sum.splits)

lemma sendTo_sel [simp]:
  "h_rooms (sendTo m c h) = h_rooms h" "h_heap (sendTo m c h) = h_heap h" "h_next (sendTo m c h) = h_next h"
  "members (sendTo m c h) = members h" "hub_inv (sendTo m c h) = hub_inv h"
  "h_clients (sendTo m c h) = (h_clients h)(c := Send m (h_clients h c))"
  by (simp_all add: sendTo_def)

lemma sendPlayerState_frame:
  assumes "sendPlayerState marshal gid u c (w, h) = (w', h')"
  shows "db w' = db w \<and> (h' = h \<or> (\<exists>m. h' = sendTo m c h))"
proof -
  obtain a w1 where 1: "GetParticipantProblemIndex gid u w = (a, w1)" by force
  show ?thesis
  proof (cases a)
    case (Inl e)
    with assms 1 GetParticipantProblemIndex_db [OF 1] show ?thesis by (simp add: sendPlayerState_def)
  next
    case (Inr n)
    obtain b w2 where 2: "GetGameProblemIDByIndex (int32 gid) n w1 = (b, w2)" by force
    obtain d w3 where 3: "GetAllParticipantsProblemIndices gid w2 = (d, w3)" by force
    show ?thesis
      using assms 1 2 3 Inr GetParticipantProblemIndex_db [OF 1] GetGameProblemIDByIndex_db [OF 2] GetAllIndices_db [OF 3]
      by (cases b) (auto simp: sendPlayerState_def)
  qed
qed

text \<open>
  C29. Admission to a room. A connection gets into the room of a game only with the token of a session
  that exists and has not expired, whose user plays in this game, and only while the game is active;
  then it is the only new member of the only room that changed, and every other member is handed exactly
  the notice that this user joined. A refused connection leaves the hub and the tables alone, and
  admission changes no table.
\<close>

theorem ws_admission:
  assumes "hub_inv h" "any_order ord"
    and "connectWS marshal ord upgraded idParam token c (w, h) = (r, w', h')"
  shows "db w' = db w \<and> (case r of
      Inr (Some (gid, u)) \<Rightarrow>
        (\<exists>s. token \<noteq> '''' \<and> session_by_token token (db w) = Some s \<and> u = s_UserID s \<and> now w \<le> s_ExpiresAt s) \<and>
        (\<exists>g. find_game (int32 gid) (db w) = Some g \<and> g_Status g = Active) \<and>
        is_participant (int32 gid) u (db w) \<and>
        members h' = (members h)(int32 gid := insert c (members h (int32 gid))) \<and>
        (\<forall>x. x \<noteq> c \<longrightarrow> h_clients h' x = (if x \<in> members h (int32 gid)
           then Send (marshal ((server_message ''player_joined'')\<lparr>msg_UserID := u\<rparr>)) (h_clients h x)
           else h_clients h x))
    | _ \<Rightarrow> h' = h)"
proof -
  obtain a w1 where adm: "admitWS idParam token w = (a, w1)" by force
  note A = admitWS_cases [OF adm]
  show ?thesis
  proof (cases a)
    case (Inl resp)
    with assms(3) adm A show ?thesis by (auto simp: connectWS_def)
  next
    case (Inr gs)
    obtain gid s where gs: "gs = (gid, s)" by force
    show ?thesis
    proof (cases upgraded)
      case False
      with assms(3) adm A Inr gs show ?thesis by (auto simp: connectWS_def)
    next
      case True
      let ?u = "s_UserID s" and ?m = "marshal ((server_message ''player_joined'')\<lparr>msg_UserID := s_UserID s\<rparr>)"
      let ?h1 = "h\<lparr>h_clients := (h_clients h)(c := NewClient ?u)\<rparr>"
      let ?h2 = "Join (int32 gid) c ?h1"
      let ?h3 = "Broadcast ord (int32 gid) ?m ?h2"
      have r: "r = Inr (Some (gid, ?u))" and state: "sendPlayerState marshal gid ?u c (w1, ?h3) = (w', h')"
        using assms(3) adm Inr gs True by (simp_all add: connectWS_def Let_def)
      have inv: "hub_inv ?h1" "hub_inv ?h2"
        using assms(1) hub_inv_join by simp_all
      have mem: "members ?h3 = (members h)(int32 gid := insert c (members h (int32 gid)))"
        using members_join [OF inv(1)] by simp
      have others: "h_clients ?h3 x = (if x \<in> members h (int32 gid) then Send ?m (h_clients h x) else h_clients h x)"
        if "x \<noteq> c" for x
        using broadcast_clients [OF inv(2) assms(2)] members_join [OF inv(1)] that
        by (simp add: join_leave_clients)
      have fin: "db w' = db w1" "members h' = members ?h3" "\<And>x. x \<noteq> c \<Longrightarrow> h_clients h' x = h_clients ?h3 x"
        using sendPlayerState_frame [OF state] by auto
      show ?thesis
        using A Inr gs r fin mem others by auto
    qed
  qed
qed

definition seated_world :: world where
  "seated_world = active_world\<lparr>db := (db active_world)\<lparr>d_sessions :=
     [\<lparr>s_ID = 1, s_UserID = 2, s_Token = ''t'', s_ExpiresAt = 1000, s_CreatedAt = 0, s_UpdatedAt = 0\<rparr>]\<rparr>\<rparr>"

definition seated_hub :: Hub where
  "seated_hub = Join 1 5 (NewHub (\<lambda>_. NewClient 1))"

lemma seated_hub_facts: "hub_inv seated_hub" "members seated_hub 1 = {5}"
  by (simp_all add: seated_hub_def hub_inv_join hub_inv_new members_join [OF hub_inv_new])
    (simp add: members_def NewHub_def)

theorem ws_admission_witness:
  "\<exists>w' h'. connectWS msg_Type rev True (Some 1) ''t'' 6 (seated_world, seated_hub) = (Inr (Some (1, 2)), w', h') \<and>
     members h' 1 = {5, 6} \<and> c_send (h_clients h' 5) = [''player_joined'']"
proof -
  let ?r = "connectWS msg_Type rev True (Some 1) ''t'' 6 (seated_world, seated_hub)"
  have "fst (admitWS (Some 1) ''t'' seated_world) = Inr (1, hd (d_sessions (db seated_world)))" by code_simp
  then obtain w1 where "admitWS (Some 1) ''t'' seated_world = (Inr (1, hd (d_sessions (db seated_world))), w1)"
    by (metis prod.collapse)
  moreover have "s_UserID (hd (d_sessions (db seated_world))) = 2" by (simp add: seated_world_def)
  ultimately have "fst ?r = Inr (Some (1, 2))" by (simp add: connectWS_def Let_def)
  then obtain w' h' where run: "?r = (Inr (Some (1, 2)), w', h')" by (metis prod.collapse)
  have "int32 1 = 1" by (simp add: wrap_int_def)
  then have "members h' 1 = {5, 6} \<and> h_clients h' 5 = Send ''player_joined'' (h_clients seated_hub 5)"
    using ws_admission [OF seated_hub_facts(1) any_order_rev run] seated_hub_facts(2)
    by (auto simp: server_message_def)
  moreover have "h_clients seated_hub 5 = NewClient 1"
    by (simp add: seated_hub_def join_leave_clients) (simp add: NewHub_def)
  ultimately show ?thesis
    using run by (simp add: client_defs send_capacity_def)
qed


section \<open>Who hears of a submission\<close>

lemma SendToUser_private:
  assumes "any_order ord" "c \<notin> members h g \<or> c_UserID (h_clients h c) \<noteq> u"
  shows "h_clients (SendToUser ord g u m h) c = h_clients h c"
  using tell_user [OF assms(1), of h g u m] assms(2) by (auto split: if_splits)

lemma SendToUser_users:
  assumes "any_order ord"
  shows "c_UserID (h_clients (SendToUser ord g u m h) c) = c_UserID (h_clients h c)"
  using tell_user [OF assms, of h g u m] by (auto simp: Send_def split: if_splits)

lemma hub_inv_sends: "hub_inv h \<Longrightarrow> hub_inv (SendToUser ord g u m h)" "hub_inv h \<Longrightarrow> hub_inv (Broadcast ord g m h)"
  using hub_inv_step [of h "Telling ord g u m"] hub_inv_step [of h "Broadcasting ord g m"] by simp_all

text \<open>
  The messages a result stands for: those to the submitting user alone, and the one to the whole room.
\<close>

definition announces :: "SubmissionResult \<Rightarrow> bool" where
  "announces r \<longleftrightarrow> \<not> sr_AlreadyAdvanced r \<and> sr_Accepted r \<and> (sr_WinnerID r \<noteq> 0 \<or> sr_ProblemID r \<noteq> '''')"

lemma processSubmit_total:
  "\<exists>w' h'. processSubmit api unmarshal run marshal ord gid u msg (w, h) = Some (w', h')"
proof -
  obtain r w1 where sub: "Submit api unmarshal run gid u (cm_Code msg) (cm_Language msg) w = Some (r, w1)"
    using Submit_total by blast
  obtain q w2 where prog: "GetAllParticipantsProblemIndices gid w1 = (q, w2)" by force
  have "processSubmit api unmarshal run marshal ord gid u msg (w, h) \<noteq> None"
    by (cases r) (simp_all add: processSubmit_def Let_def sub prog)
  then show ?thesis by auto
qed

lemma processSubmit_result:
  assumes "processSubmit api unmarshal run marshal ord gid u msg (w, h) = Some (w', h')"
  shows "\<exists>r w1. Submit api unmarshal run gid u (cm_Code msg) (cm_Language msg) w = Some (r, w1) \<and> db w' = db w1 \<and>
    (case r of
       Inl e \<Rightarrow> h' = SendToUser ord gid u (marshal (error_message u e)) h
     | Inr res \<Rightarrow>
         if sr_AlreadyAdvanced res then h' = h
         else if \<not> announces res then h' = SendToUser ord gid u (marshal (result_message u res)) h
         else \<exists>prog. h' = Broadcast ord gid
           (marshal (if sr_WinnerID res \<noteq> 0 then finished_message (sr_WinnerID res) else advanced_message u res prog))
           (SendToUser ord gid u (marshal (result_message u res)) h))"
proof -
  obtain r w1 where sub: "Submit api unmarshal run gid u (cm_Code msg) (cm_Language msg) w = Some (r, w1)"
    using Submit_total by blast
  obtain q w2 where prog: "GetAllParticipantsProblemIndices gid w1 = (q, w2)" by force
  show ?thesis
    using assms sub prog GetAllIndices_db [OF prog]
    by (intro exI [of _ r] exI [of _ w1])
      (auto simp: processSubmit_def Let_def announces_def broadcastError_def split: sum.split if_splits)
qed

lemma processSubmit_reach:
  assumes "processSubmit api unmarshal run marshal ord gid u msg (w, h) = Some (w', h')" "hub_inv h" "any_order ord"
  shows "\<exists>r w1 prog. Submit api unmarshal run gid u (cm_Code msg) (cm_Language msg) w = Some (r, w1) \<and> db w' = db w1 \<and>
    members h' = members h \<and> (\<forall>c. c \<notin> members h gid \<longrightarrow> h_clients h' c = h_clients h c) \<and>
    (\<forall>c. c_UserID (h_clients h c) \<noteq> u \<longrightarrow> c \<in> members h gid \<longrightarrow>
      h_clients h' c = (case r of
         Inl e \<Rightarrow> h_clients h c
       | Inr res \<Rightarrow>
           if \<not> announces res then h_clients h c
           else if sr_WinnerID res \<noteq> 0 then Send (marshal (finished_message (sr_WinnerID res))) (h_clients h c)
           else Send (marshal (advanced_message u res prog)) (h_clients h c)))"
proof -
  note priv = SendToUser_private [OF assms(3)]
    and publ = broadcast_clients [OF hub_inv_sends(1) [OF assms(2)] assms(3)]
  from processSubmit_result [OF assms(1)] obtain r w1 where
    sub: "Submit api unmarshal run gid u (cm_Code msg) (cm_Language msg) w = Some (r, w1)" "db w' = db w1"
    and hub: "case r of
       Inl e \<Rightarrow> h' = SendToUser ord gid u (marshal (error_message u e)) h
     | Inr res \<Rightarrow>
         if sr_AlreadyAdvanced res then h' = h
         else if \<not> announces res then h' = SendToUser ord gid u (marshal (result_message u res)) h
         else \<exists>prog. h' = Broadcast ord gid
           (marshal (if sr_WinnerID res \<noteq> 0 then finished_message (sr_WinnerID res) else advanced_message u res prog))
           (SendToUser ord gid u (marshal (result_message u res)) h)"
    by blast
  show ?thesis
  proof (cases "\<exists>res. r = Inr res \<and> announces res")
    case True
    then obtain res where r: "r = Inr res" "announces res" by blast
    with hub obtain prog where "h' = Broadcast ord gid
        (marshal (if sr_WinnerID res \<noteq> 0 then finished_message (sr_WinnerID res) else advanced_message u res prog))
        (SendToUser ord gid u (marshal (result_message u res)) h)"
      by (auto simp: announces_def)
    with sub r show ?thesis
      by (intro exI [of _ r] exI [of _ w1] exI [of _ prog]) (simp add: publ priv)
  next
    case False
    with hub have "h' = h \<or> (\<exists>m. h' = SendToUser ord gid u m h)"
      by (auto split: sum.splits if_splits)
    with sub False show ?thesis
      by (intro exI [of _ r] exI [of _ w1]) (auto simp: priv split: sum.split)
  qed
qed



end
