(* ===== verification/Connections.thy ===== *)
theory Connections
  imports Server_WS
begin

text \<open>
  The running server: connections open, submit and close, writers of connections take their turns,
  and the services are called by other requests, in any order. The step relation composes
  \<^verbatim>\<open>handleGameWS\<close> (\<^verbatim>\<open>internal/server/handler.go\<close>) with the hub and the game service; what is shown is
  that the rooms of the hub agree with the players in the tables.
\<close>

section \<open>Seats\<close>

text \<open>A user is seated in a game that exists, has been started, and has the user among its players.\<close>

definition seated :: "int \<Rightarrow> uuid \<Rightarrow> database \<Rightarrow> bool" where
  "seated i u d \<longleftrightarrow> is_participant i u d \<and>
     (case find_game i d of None \<Rightarrow> False | Some g \<Rightarrow> g_Status g \<noteq> Pending)"

lemma seated_cong:
  assumes "is_participant i u d' = is_participant i u d" "find_game i d' = find_game i d"
  shows "seated i u d' = seated i u d"
  using assms by (simp add: seated_def)

lemma seated_set_game:
  assumes "seated i u d" "\<And>g. g_ID (f g) = g_ID g" "\<And>g. g_Status (f g) \<noteq> Pending"
  shows "seated i u (set_game j f d)"
  using assms by (auto simp: seated_def find_game_set_game split: option.splits)

lemma seated_open:
  assumes "seated i u d"
  shows "seated i u (open_game g rows m d)"
proof -
  from assms obtain row where "find_game i d = Some row" "g_Status row \<noteq> Pending" "is_participant i u d"
    by (auto simp: seated_def split: option.splits)
  then show ?thesis
    by (simp add: seated_def open_game_def find_game_def find_append add_participant_def is_participant_def)
qed

lemma seated_step:
  assumes "row_step e d d'" "seated i u d" "\<And>v. e \<noteq> EDelete i v"
  shows "seated i u d'"
  using assms(1)
proof cases
  case (step_open slugs g n tok t v pub solo lim)
  from step_open obtain rows m where "d' = open_game g rows m d"
    by (auto simp: opened_def)
  with assms(2) show ?thesis by (simp add: seated_open)
next
  case (step_delete j g v)
  with assms(2,3) have "i \<noteq> j" by auto
  then have "is_participant i u (drop_game j d) = is_participant i u d"
    by (auto simp: is_participant_def drop_game_def del_where_def)
  with \<open>i \<noteq> j\<close> step_delete assms(2) show ?thesis
    by (simp add: seated_def find_game_drop)
qed (use assms(2) in \<open>auto simp: seated_def find_game_changes find_game_set_game game_states split: option.splits if_splits\<close>)

interpretation seats: event_law "seated i u" "\<lambda>e. \<forall>v. e \<noteq> EDelete i v" for i u
  by unfold_locales (auto intro: seated_step)

fun deletes :: "game_call \<Rightarrow> int set" where
  "deletes (CallDelete gid u) = {int32 gid}"
| "deletes _ = {}"

lemma call_keeps_seat: "i \<notin> deletes c \<Longrightarrow> keeps_db (seated i u) (run_call c)"
  by (rule seats.call_keeps) (cases c; auto)

lemma Submit_keeps_seat:
  assumes "Submit api unmarshal run gid v code lang w = Some (r, w')" "seated i u (db w)"
  shows "seated i u (db w')"
proof (rule Submit_keeps [where I = "seated i u", OF _ _ assms])
  show "seated i u d \<Longrightarrow> seated i u (d\<lparr>d_solutions := s\<rparr>)" for d s
    by (simp add: seated_def find_game_def is_participant_def)
qed (rule seats.performs_keeps [OF HandleAcceptedSubmission_performs], auto)


section \<open>The running server\<close>

text \<open>
  The first argument collects the games whose deletion has been requested. A new connection has an
  address of its own; the goroutine of a submission may outlive its connection, so a frame is
  processed at any time; the writer of any client may take a turn at any time.
\<close>

inductive serving ::
  "'l limiter_api \<Rightarrow> (string \<Rightarrow> err + Manifest) \<Rightarrow> runner \<Rightarrow> (ServerMessage \<Rightarrow> string) \<Rightarrow>
   int set \<Rightarrow> ('l, 'z) exec_world_scheme \<times> Hub \<Rightarrow> bool"
  for api unmarshal run marshal where
  start: "games_inv (db w) \<Longrightarrow> serving api unmarshal run marshal {} (w, NewHub cs)"
| connect: "serving api unmarshal run marshal D (w, h) \<Longrightarrow> any_order ord \<Longrightarrow> (\<And>g. c \<notin> members h g) \<Longrightarrow>
    connectWS marshal ord upgraded idParam token c (w, h) = (r, w', h') \<Longrightarrow>
    serving api unmarshal run marshal D (w', h')"
| frame: "serving api unmarshal run marshal D (w, h) \<Longrightarrow> any_order ord \<Longrightarrow>
    receiveWS api unmarshal run marshal ord gid u msg (w, h) = Some (w', h') \<Longrightarrow>
    serving api unmarshal run marshal D (w', h')"
| disconnect: "serving api unmarshal run marshal D (w, h) \<Longrightarrow>
    serving api unmarshal run marshal D (w, disconnectWS gid c h)"
| writer: "serving api unmarshal run marshal D (w, h) \<Longrightarrow>
    serving api unmarshal run marshal D (w, hub_step (OnClient c e) h)"
| call: "serving api unmarshal run marshal D (w, h) \<Longrightarrow> run_call call w = (r, w') \<Longrightarrow>
    serving api unmarshal run marshal (D \<union> deletes call) (w', h)"
| others: "serving api unmarshal run marshal D (w, h) \<Longrightarrow> environment (db w) (db w') \<Longrightarrow>
    serving api unmarshal run marshal D (w', h)"

definition rooms_ok :: "int set \<Rightarrow> database \<Rightarrow> Hub \<Rightarrow> bool" where
  "rooms_ok D d h \<longleftrightarrow> games_inv d \<and> hub_inv h \<and>
     (\<forall>g c. c \<in> members h g \<longrightarrow> g \<notin> D \<longrightarrow> seated g (c_UserID (h_clients h c)) d)"

lemma rooms_okI:
  assumes "rooms_ok D d h" "games_inv d'" "hub_inv h'" "D \<subseteq> D'"
    and "\<And>g c. c \<in> members h' g \<Longrightarrow> g \<notin> D' \<Longrightarrow>
      c \<in> members h g \<and> c_UserID (h_clients h' c) = c_UserID (h_clients h c) \<or> seated g (c_UserID (h_clients h' c)) d"
    and "\<And>g u. g \<notin> D' \<Longrightarrow> seated g u d \<Longrightarrow> seated g u d'"
  shows "rooms_ok D' d' h'"
  using assms unfolding rooms_ok_def by (metis subsetD)

lemma client_step_user [simp]: "c_UserID (client_step e c) = c_UserID c"
  by (cases e) (simp_all add: client_defs split: list.split)

lemma Send_user [simp]: "c_UserID (Send m c) = c_UserID c"
  using client_step_user [of "Sending m" c] by simp

lemma connect_effect:
  assumes "connectWS marshal ord upgraded idParam token c (w, h) = (r, w', h')" "hub_inv h" "any_order ord"
  shows "db w' = db w \<and> hub_inv h' \<and> (h' = h \<or>
    (\<exists>g u. seated g u (db w) \<and> members h' = (members h)(g := insert c (members h g)) \<and>
       c_UserID (h_clients h' c) = u \<and> (\<forall>x. x \<noteq> c \<longrightarrow> c_UserID (h_clients h' x) = c_UserID (h_clients h x))))"
proof -
  obtain a w1 where adm: "admitWS idParam token w = (a, w1)" by force
  note A = admitWS_cases [OF adm]
  show ?thesis
  proof (cases "\<exists>gid s. a = Inr (gid, s) \<and> upgraded")
    case False
    with assms adm A show ?thesis by (auto simp: connectWS_def split: sum.splits if_splits)
  next
    case True
    then obtain gid s where a: "a = Inr (gid, s)" "upgraded" by blast
    let ?u = "s_UserID s" and ?m = "marshal ((server_message ''player_joined'')\<lparr>msg_UserID := s_UserID s\<rparr>)"
    let ?h1 = "h\<lparr>h_clients := (h_clients h)(c := NewClient ?u)\<rparr>"
    let ?h3 = "Broadcast ord (int32 gid) ?m (Join (int32 gid) c ?h1)"
    have "sendPlayerState marshal gid ?u c (w1, ?h3) = (w', h')"
      using assms(1) adm a by (simp add: connectWS_def Let_def)
    note fin = sendPlayerState_frame [OF this]
    have inv: "hub_inv ?h1" "hub_inv (Join (int32 gid) c ?h1)"
      using assms(2) hub_inv_join by simp_all
    have "members h' = members ?h3" "hub_inv h'" "\<And>x. c_UserID (h_clients h' x) = c_UserID (h_clients ?h3 x)"
      using fin hub_inv_sends(2) [OF inv(2)] by auto
    moreover have "members ?h3 = (members h)(int32 gid := insert c (members h (int32 gid)))"
      using members_join [OF inv(1)] by simp
    moreover have "c_UserID (h_clients ?h3 x) = (if x = c then ?u else c_UserID (h_clients h x))" for x
      using broadcast_clients [OF inv(2) assms(3)] by (simp add: join_leave_clients NewClient_def)
    moreover have "seated (int32 gid) ?u (db w)"
      using A a by (auto simp: seated_def)
    moreover have "db w' = db w"
      using A fin by simp
    ultimately show ?thesis by auto
  qed
qed

lemma connect_rooms:
  assumes "rooms_ok D (db w) h" "any_order ord" "\<And>g. c \<notin> members h g"
    and "connectWS marshal ord upgraded idParam token c (w, h) = (r, w', h')"
  shows "rooms_ok D (db w') h'"
proof -
  note E = connect_effect [OF assms(4) _ assms(2)]
  show ?thesis
    using assms(1,3) E
    by (auto simp: rooms_ok_def split: if_splits) (metis assms(3))+
qed

lemma frame_rooms:
  assumes "rooms_ok D (db w) h" "any_order ord"
    and "receiveWS api unmarshal run marshal ord gid u msg (w, h) = Some (w', h')"
  shows "rooms_ok D (db w') h'"
proof (cases msg)
  case None
  with assms show ?thesis by (simp add: receiveWS_def)
next
  case (Some m)
  with assms(3) have ps: "processSubmit api unmarshal run marshal ord (int32 gid) u m (w, h) = Some (w', h')"
    by (simp add: receiveWS_def)
  from processSubmit_result [OF ps] obtain r w1 where
    sub: "Submit api unmarshal run (int32 gid) u (cm_Code m) (cm_Language m) w = Some (r, w1)" "db w' = db w1"
    and hub: "case r of
       Inl e \<Rightarrow> h' = SendToUser ord (int32 gid) u (marshal (error_message u e)) h
     | Inr res \<Rightarrow>
         if sr_AlreadyAdvanced res then h' = h
         else if \<not> announces res then h' = SendToUser ord (int32 gid) u (marshal (result_message u res)) h
         else \<exists>prog. h' = Broadcast ord (int32 gid)
           (marshal (if sr_WinnerID res \<noteq> 0 then finished_message (sr_WinnerID res) else advanced_message u res prog))
           (SendToUser ord (int32 gid) u (marshal (result_message u res)) h)"
    by blast
  have inv: "hub_inv h" using assms(1) by (simp add: rooms_ok_def)
  have "members h' = members h" "hub_inv h'"
    using hub inv by (auto simp: hub_inv_sends split: sum.splits if_splits)
  moreover have "c_UserID (h_clients h' c) = c_UserID (h_clients h c)" for c
    using hub assms(2) broadcast_clients [OF hub_inv_sends(1) [OF inv] assms(2)]
    by (auto simp: SendToUser_users split: sum.splits if_splits)
  moreover have "games_inv (db w')"
    unfolding sub(2) by (rule submission_keeps_games [OF _ sub(1)]) (use assms(1) in \<open>simp add: rooms_ok_def\<close>)
  ultimately show ?thesis
    using Submit_keeps_seat [OF sub(1)] sub(2)
    by (intro rooms_okI [OF assms(1)]) auto
qed

lemma disconnect_rooms:
  assumes "rooms_ok D d h"
  shows "rooms_ok D d (disconnectWS gid c h)"
proof -
  have inv: "hub_inv (hub_step (OnClient c Closing) h)"
    using assms by (simp add: rooms_ok_def)
  show ?thesis
    by (rule rooms_okI [OF assms])
      (use assms inv members_leave [OF inv] in \<open>auto simp: rooms_ok_def disconnectWS_def hub_inv_leave
        join_leave_clients Close_def split: if_splits\<close>)
qed

lemma serving_ok: "serving api unmarshal run marshal D s \<Longrightarrow> rooms_ok D (db (fst s)) (snd s)"
proof (induction rule: serving.induct)
  case (start w cs)
  then show ?case
    by (simp add: rooms_ok_def hub_inv_new) (simp add: members_def NewHub_def)
next
  case (call D w h call r w')
  have "keeps_db games_inv (run_call call)" by (rule inv.call_keeps) simp
  with call show ?case
    by (auto intro!: rooms_okI [OF call.IH [simplified]] dest: keepsD [OF call_keeps_seat] keepsD simp: rooms_ok_def)
next
  case (others D w h w')
  then show ?case
    by (auto intro!: rooms_okI [OF others.IH [simplified]] intro: games_inv_environment
        simp: rooms_ok_def environment_def seated_def find_game_def is_participant_def)
next
  case (writer D w h c e)
  then show ?case
    by (auto simp: rooms_ok_def)
qed (auto intro: connect_rooms frame_rooms disconnect_rooms)


text \<open>
  C28. Rooms hold players only. However connections come, submit, and go, whatever the writers do,
  whatever calls of the services and changes of other tables happen in between, and whatever fails: every
  connection in the room of a game belongs to a user who plays in this game, and the game has been
  started, unless its deletion was requested meanwhile.
\<close>

theorem room_members_play:
  assumes "serving api unmarshal run marshal D (w, h)" and "c \<in> members h g" and "g \<notin> D"
  shows "is_participant g (c_UserID (h_clients h c)) (db w) \<and>
    (\<exists>row. find_game g (db w) = Some row \<and> g_Status row \<noteq> Pending)"
proof -
  have "seated g (c_UserID (h_clients h c)) (db w)"
    using serving_ok [OF assms(1)] assms(2,3) by (simp add: rooms_ok_def)
  then show ?thesis by (auto simp: seated_def split: option.splits)
qed

definition served_world :: "(rat \<times> time) option exec_world" where
  "served_world = judge_world\<lparr>db := (db judge_world)\<lparr>d_sessions := d_sessions (db seated_world)\<rparr>\<rparr>"

theorem room_members_play_witness:
  "\<exists>(w :: (rat \<times> time) option exec_world) h. serving (bucket_api (1 / 5) 10) sample_unmarshal sample_run msg_Type {} (w, h) \<and> 6 \<in> members h 1 \<and>
     is_participant 1 (c_UserID (h_clients h 6)) (db w)"
proof -
  let ?h0 = "NewHub (\<lambda>_. NewClient 1)"
  let ?r = "connectWS msg_Type rev True (Some 1) ''t'' 6 (served_world, ?h0)"
  have empty: "c \<notin> members ?h0 g" for c g by (simp add: members_def NewHub_def)
  have inv: "games_inv (db served_world)"
    using games_inv_environment [OF judge_world_ok(2), of "db served_world"]
    by (simp add: served_world_def environment_def)
  have "map_sum id fst (fst (admitWS (Some 1) ''t'' served_world)) = Inr 1" by code_simp
  then obtain s w1 where adm: "admitWS (Some 1) ''t'' served_world = (Inr (1, s), w1)"
    by (cases "admitWS (Some 1) ''t'' served_world") (auto simp: map_sum_Inr)
  let ?h1 = "?h0\<lparr>h_clients := (h_clients ?h0)(6 := NewClient (s_UserID s))\<rparr>"
  obtain w h where run: "?r = (Inr (Some (1, s_UserID s)), w, h)"
      and state: "sendPlayerState msg_Type 1 (s_UserID s) 6 (w1, Broadcast rev (int32 1)
        (msg_Type ((server_message ''player_joined'')\<lparr>msg_UserID := s_UserID s\<rparr>)) (Join (int32 1) 6 ?h1)) = (w, h)"
    using adm by (auto simp: connectWS_def Let_def intro: prod.exhaust)
  have "serving (bucket_api (1 / 5) 10) sample_unmarshal sample_run msg_Type {} (w, h)"
    by (rule serving.connect [OF serving.start [OF inv] any_order_rev _ run]) (use empty in simp)
  moreover have "6 \<in> members h 1"
    using sendPlayerState_frame [OF state] members_join [of ?h1 "int32 1" 6]
    by (auto simp: hub_inv_new wrap_int_def)
  ultimately show ?thesis
    using room_members_play [of "bucket_api (1 / 5) 10" sample_unmarshal sample_run msg_Type "{}" w h 6 1]
    by (intro exI [of _ w] exI [of _ h]) simp
qed

end
