(* ===== verification/Spec2Isabelle.thy ===== *)
theory Spec2Isabelle
  imports Game_Props Entrance Submission_Service Problem_Service Hub Executor_Pool Connections Server_Config
begin

text \<open>Header to be written.\<close>

end
